(* ===== verification/Prelude.thy ===== *)
theory Prelude
  imports Main "HOL-Library.Word" "HOL-Library.Monad_Syntax"
begin

text \<open>
  Shared vocabulary of the development: the fixed-width types of \<^verbatim>\<open>include/types.h\<close>,
  the collections of rewrite rules the component theories extend, and the generic facts
  on words, lists and options they share.

  A C function that can have undefined behaviour, or whose loop need not stop, is a
  function into \<open>'a option\<close>: \<open>None\<close> means that the C code has no defined result on
  this input, and \<open>Some\<close> carries its result together with the new state.
\<close>

unbundle bit_operations_syntax

type_synonym u8 = "8 word"
type_synonym u16 = "16 word"
type_synonym u32 = "32 word"
type_synonym u64 = "64 word"
type_synonym i32 = "32 word"

text \<open>The null pointer.\<close>

abbreviation (input) NULL :: u64 where
  "NULL \<equiv> 0"

named_theorems frame_simps "what an operation leaves alone in the state"
named_theorems nat_of_word "rules that read word arithmetic as arithmetic on nat"

section \<open>Words\<close>

lemma and_not_mask_push:
  "(x :: 'a::len word) AND NOT (mask n) = push_bit n (drop_bit n x)"
  by (rule bit_word_eqI) (auto simp: bit_simps)

lemma unat_and_not_mask [nat_of_word]:
  "unat ((x :: 'a::len word) AND NOT (mask n)) = unat x div 2 ^ n * 2 ^ n"
proof -
  have le: "unat x div 2 ^ n * 2 ^ n \<le> unat x"
    by simp
  also have "\<dots> < 2 ^ LENGTH('a)"
    by (rule unsigned_less)
  finally have lt: "unat x div 2 ^ n * 2 ^ n < 2 ^ LENGTH('a)" .
  have "unat (x AND NOT (mask n)) = take_bit LENGTH('a) (push_bit n (drop_bit n (unat x)))"
    by (simp add: and_not_mask_push unsigned_push_bit_eq unsigned_drop_bit_eq
        take_bit_nat_eq_self [OF unsigned_less])
  also have "\<dots> = unat x div 2 ^ n * 2 ^ n"
    using lt by (simp add: push_bit_eq_mult drop_bit_eq_div take_bit_eq_mod)
  finally show ?thesis .
qed

lemma unat_and_mask [nat_of_word]:
  "unat ((x :: 'a::len word) AND mask n) = unat x mod 2 ^ n"
proof -
  have "x AND mask n = take_bit n x"
    by (simp add: take_bit_eq_mask)
  then have "unat (x AND mask n) = take_bit n (unat x)"
    by (simp only: unsigned_take_bit_eq)
  then show ?thesis
    by (simp add: take_bit_eq_mod)
qed

text \<open>The masks the code writes as literals, as masks of a bit count.\<close>

lemma lit_masks [nat_of_word]:
  "(7 :: u64) = mask 3" "(0xF :: u64) = mask 4" "(0x1FF :: u64) = mask 9"
  "(0xFFF :: u64) = mask 12" "(0x1FFFFF :: u64) = mask 21"
  by (simp_all add: mask_numeral)

lemma unat_plus_no_wrap [nat_of_word]:
  "unat (a :: u64) + unat b < 2 ^ 64 \<Longrightarrow> unat (a + b) = unat a + unat b"
  by (simp add: unat_word_ariths)

lemma unat_minus_no_borrow [nat_of_word]:
  "unat (b :: u64) \<le> unat a \<Longrightarrow> unat (a - b) = unat a - unat b"
  by (simp add: unat_sub word_le_nat_alt)

lemma u64_eq_iff: "(a :: u64) = b \<longleftrightarrow> unat a = unat b"
  by (auto intro: unsigned_word_eqI)

lemma unat_u64_less [simp]: "unat (x :: u64) < 2 ^ 64"
  using unsigned_less [of x] by simp

text \<open>
  The code rounds sizes up with \<open>(x + m) & ~m\<close>. Without wrap-around this is the
  least multiple of \<open>m + 1\<close> that is no smaller.
\<close>

definition round_up :: "nat \<Rightarrow> nat \<Rightarrow> nat" where
  "round_up k x = (x + (k - 1)) div k * k"

lemma round_up_ge: "0 < k \<Longrightarrow> x \<le> round_up k x"
proof -
  assume "0 < k"
  then have "(x + (k - 1)) mod k \<le> k - 1"
    by (metis Suc_pred' less_Suc_eq_le mod_less_divisor)
  moreover have "(x + (k - 1)) div k * k + (x + (k - 1)) mod k = x + (k - 1)"
    by (rule div_mult_mod_eq)
  ultimately show ?thesis
    unfolding round_up_def by linarith
qed

lemma round_up_less: "0 < k \<Longrightarrow> round_up k x < x + k"
  unfolding round_up_def
  by (rule le_less_trans [OF div_times_less_eq_dividend]) simp

lemma round_up_dvd [simp]: "k dvd round_up k x"
  by (simp add: round_up_def)

lemma unat_and_lits [nat_of_word]:
  "unat ((x :: u64) AND - 8) = unat x div 8 * 8"
  "unat ((x :: u64) AND - 16) = unat x div 16 * 16"
  "unat ((x :: u64) AND - 4096) = unat x div 4096 * 4096"
  "unat ((x :: u64) AND - 2097152) = unat x div 2097152 * 2097152"
  using unat_and_not_mask [of x 3] unat_and_not_mask [of x 4] unat_and_not_mask [of x 12]
    unat_and_not_mask [of x 21]
  by (simp_all add: mask_numeral)

lemma unat_round_up_8 [nat_of_word]:
  "unat (x :: u64) + 7 < 2 ^ 64 \<Longrightarrow> unat ((x + 7) AND NOT 7) = round_up 8 (unat x)"
  by (simp add: unat_and_lits round_up_def unat_word_ariths)

lemma unat_round_up_page [nat_of_word]:
  "unat (x :: u64) + 4095 < 2 ^ 64 \<Longrightarrow> unat ((x + 0xFFF) AND NOT 0xFFF) = round_up 4096 (unat x)"
  by (simp add: unat_and_lits round_up_def unat_word_ariths)

section \<open>Loops over a list of indices\<close>

text \<open>A loop whose body may have no defined result.\<close>

fun for_each :: "('i \<Rightarrow> 's \<Rightarrow> 's option) \<Rightarrow> 'i list \<Rightarrow> 's \<Rightarrow> 's option" where
  "for_each f [] s = Some s"
| "for_each f (i # is) s = (case f i s of None \<Rightarrow> None | Some s' \<Rightarrow> for_each f is s')"

text \<open>A loop that stops with the status of the first body that does not answer 0.\<close>

fun try_each :: "('i \<Rightarrow> 's \<Rightarrow> (int \<times> 's) option) \<Rightarrow> 'i list \<Rightarrow> 's \<Rightarrow> (int \<times> 's) option" where
  "try_each f [] s = Some (0, s)"
| "try_each f (i # is) s =
     (case f i s of None \<Rightarrow> None
      | Some (r, s') \<Rightarrow> if r \<noteq> 0 then Some (r, s') else try_each f is s')"

lemma for_each_invariant:
  "(\<And>i s. i \<in> set is \<Longrightarrow> P s \<Longrightarrow> \<exists>s'. f i s = Some s' \<and> P s') \<Longrightarrow> P s \<Longrightarrow>
   \<exists>s'. for_each f is s = Some s' \<and> P s'"
  by (induction "is" arbitrary: s) (force split: option.split)+

lemma try_each_invariant:
  "(\<And>i s. i \<in> set is \<Longrightarrow> P s \<Longrightarrow> \<exists>r s'. f i s = Some (r, s') \<and> P s') \<Longrightarrow> P s \<Longrightarrow>
   \<exists>r s'. try_each f is s = Some (r, s') \<and> P s'"
proof (induction "is" arbitrary: s)
  case (Cons i "is")
  from Cons.prems obtain r s' where "f i s = Some (r, s')" "P s'" by force
  with Cons show ?case by (cases "r = 0") (fastforce split: option.split)+
qed simp

end
