(* ===== verification/Pmm.thy ===== *)
theory Pmm
  imports Prelude
begin

text \<open>
  The kernel heap of \<^verbatim>\<open>src/mm/pmm.c\<close>: \<open>malloc\<close>, \<open>calloc\<close>, \<open>free\<close> and
  \<open>page_alloc\<close> over one list of blocks linked through headers that live in front of the
  memory they describe.

  The heap is a store of headers, indexed by their address. A header's 24 bytes and the
  bytes it describes never overlap another header's (this is the layout \<open>tiled\<close> below,
  proved to be kept by every operation), so the store of headers can be separate from the
  memory the clients use. The walks along \<open>next\<close> are loops that C need not leave: they
  are partial functions, and \<open>None\<close> is a walk that does not end, a dereference of an
  address that holds no header, or the panic of a too early \<open>malloc\<close>. The spin lock and
  the interrupt flag around each body make it one atomic step.
\<close>

unbundle bit_operations_syntax

section \<open>The code\<close>

record heap_block =
  hb_size :: u64
  hb_next :: u64
  hb_free :: bool

type_synonym headers = "u64 \<rightharpoonup> heap_block"

record heap_state =
  hp_head :: u64
  hp_blocks :: headers
  pmm_initialized :: bool

text \<open>\<open>sizeof(heap_block_t)\<close>: two words and a padded \<open>bool\<close>.\<close>

abbreviation hdr :: u64 where
  "hdr \<equiv> 24"

partial_function (option) malloc_loop :: "u64 \<Rightarrow> u64 \<Rightarrow> headers \<Rightarrow> (u64 \<times> headers) option" where
  "malloc_loop sz cur m =
     (if cur = NULL then Some (NULL, m)
      else case m cur of
        None \<Rightarrow> None
      | Some b \<Rightarrow>
          if hb_free b \<and> sz \<le> hb_size b then
            (let b' = (if sz + hdr + 16 \<le> hb_size b
                       then b\<lparr>hb_size := sz, hb_next := cur + hdr + sz\<rparr> else b);
                 m' = (if sz + hdr + 16 \<le> hb_size b
                       then m(cur + hdr + sz \<mapsto>
                                \<lparr>hb_size = hb_size b - sz - hdr, hb_next = hb_next b, hb_free = True\<rparr>)
                       else m)
             in Some (cur + hdr, m'(cur \<mapsto> b'\<lparr>hb_free := False\<rparr>)))
          else malloc_loop sz (hb_next b) m)"

definition malloc :: "u64 \<Rightarrow> 'a heap_state_scheme \<Rightarrow> (u64 \<times> 'a heap_state_scheme) option" where
  "malloc sz h =
     (if \<not> pmm_initialized h then None
      else if sz = 0 then Some (NULL, h)
      else case malloc_loop ((sz + 7) AND NOT 7) (hp_head h) (hp_blocks h) of
        None \<Rightarrow> None
      | Some (r, m) \<Rightarrow> Some (r, h\<lparr>hp_blocks := m\<rparr>))"

text \<open>
  \<open>calloc\<close> multiplies in 64 bits and clears as many bytes as it asked for. The bytes are
  the client's memory, so the model returns how many are cleared.
\<close>

definition calloc :: "u64 \<Rightarrow> u64 \<Rightarrow> 'a heap_state_scheme \<Rightarrow> (u64 \<times> u64 \<times> 'a heap_state_scheme) option" where
  "calloc num sz h =
     (let total_size = num * sz in
      case malloc total_size h of
        None \<Rightarrow> None
      | Some (ptr, h') \<Rightarrow> Some (ptr, if ptr \<noteq> NULL then total_size else 0, h'))"

partial_function (option) coalesce_loop :: "u64 \<Rightarrow> headers \<Rightarrow> headers option" where
  "coalesce_loop cur m =
     (if cur = NULL then Some m
      else case m cur of
        None \<Rightarrow> None
      | Some b \<Rightarrow>
          if hb_free b \<and> hb_next b \<noteq> NULL then
            (case m (hb_next b) of
               None \<Rightarrow> None
             | Some n \<Rightarrow>
                 if hb_free n
                 then coalesce_loop cur
                        (m(cur \<mapsto> b\<lparr>hb_size := hb_size b + (hdr + hb_size n), hb_next := hb_next n\<rparr>))
                 else coalesce_loop (hb_next b) m)
          else coalesce_loop (hb_next b) m)"

definition free :: "u64 \<Rightarrow> 'a heap_state_scheme \<Rightarrow> 'a heap_state_scheme option" where
  "free ptr h =
     (if ptr = NULL then Some h
      else case hp_blocks h (ptr - hdr) of
        None \<Rightarrow> None
      | Some b \<Rightarrow>
          (case coalesce_loop (hp_head h) ((hp_blocks h)(ptr - hdr \<mapsto> b\<lparr>hb_free := True\<rparr>)) of
             None \<Rightarrow> None
           | Some m \<Rightarrow> Some (h\<lparr>hp_blocks := m\<rparr>)))"

text \<open>The padding that brings the memory behind a header at \<open>cur\<close> to a page boundary.\<close>

definition page_padding :: "u64 \<Rightarrow> u64" where
  "page_padding cur =
     (let alignment = 4096;
          raw_addr = cur + hdr;
          aligned_addr = (raw_addr + (alignment - 1)) AND NOT (alignment - 1);
          padding = aligned_addr - raw_addr
      in if padding \<noteq> 0 \<and> padding < hdr + 16 then padding + alignment else padding)"

text \<open>Cutting the chosen block at \<open>t\<close> after \<open>sz\<close> bytes, when the rest can hold a block.\<close>

definition page_split :: "u64 \<Rightarrow> u64 \<Rightarrow> heap_block \<Rightarrow> headers \<Rightarrow> headers" where
  "page_split sz t b m =
     (if sz + hdr + 16 \<le> hb_size b
      then m(t + hdr + sz \<mapsto>
               \<lparr>hb_size = hb_size b - sz - hdr, hb_next = hb_next b, hb_free = True\<rparr>,
             t \<mapsto> b\<lparr>hb_size := sz, hb_next := t + hdr + sz\<rparr>)
      else m(t \<mapsto> b))"

partial_function (option) page_alloc_loop :: "u64 \<Rightarrow> u64 \<Rightarrow> headers \<Rightarrow> (u64 \<times> headers) option" where
  "page_alloc_loop sz cur m =
     (if cur = NULL then Some (NULL, m)
      else case m cur of
        None \<Rightarrow> None
      | Some b \<Rightarrow>
          (let padding = page_padding cur; aligned_addr = cur + hdr + padding in
           if hb_free b \<and> sz + padding \<le> hb_size b then
             (if hdr + 16 \<le> padding then
                Some (aligned_addr,
                  page_split sz (aligned_addr - hdr)
                    \<lparr>hb_size = hb_size b - padding, hb_next = hb_next b, hb_free = False\<rparr>
                    (m(cur \<mapsto> \<lparr>hb_size = padding - hdr, hb_next = aligned_addr - hdr, hb_free = True\<rparr>)))
              else Some (aligned_addr, page_split sz cur (b\<lparr>hb_free := False\<rparr>) m))
           else page_alloc_loop sz (hb_next b) m))"

definition page_alloc :: "u64 \<Rightarrow> 'a heap_state_scheme \<Rightarrow> (u64 \<times> 'a heap_state_scheme) option" where
  "page_alloc pages h =
     (case page_alloc_loop (4096 * pages) (hp_head h) (hp_blocks h) of
        None \<Rightarrow> None
      | Some (r, m) \<Rightarrow> Some (r, h\<lparr>hp_blocks := m\<rparr>))"

section \<open>The abstract heap: a tiling by blocks\<close>

text \<open>
  Abstractly the heap is the list of its blocks in address order, each the address of its
  header, the number of bytes behind it, and whether it is free. \<open>tiled lo bs hi\<close> says that
  headers and bytes fill the range from \<open>lo\<close> to \<open>hi\<close> without gap or overlap; \<open>chain\<close>
  relates the list to the headers in memory.
\<close>

type_synonym block = "nat \<times> nat \<times> bool"

fun tiled :: "nat \<Rightarrow> block list \<Rightarrow> nat \<Rightarrow> bool" where
  "tiled lo [] hi \<longleftrightarrow> lo = hi"
| "tiled lo ((p, n, f) # bs) hi \<longleftrightarrow> p = lo \<and> tiled (p + 24 + n) bs hi"

fun chain :: "headers \<Rightarrow> u64 \<Rightarrow> block list \<Rightarrow> bool" where
  "chain m a [] \<longleftrightarrow> a = NULL"
| "chain m a ((p, n, f) # bs) \<longleftrightarrow>
     a \<noteq> NULL \<and> unat a = p \<and>
     (case m a of None \<Rightarrow> False
      | Some b \<Rightarrow> unat (hb_size b) = n \<and> hb_free b = f \<and> chain m (hb_next b) bs)"

definition heap_rel :: "'a heap_state_scheme \<Rightarrow> nat \<Rightarrow> nat \<Rightarrow> block list \<Rightarrow> bool" where
  "heap_rel h lo hi bs \<longleftrightarrow>
     chain (hp_blocks h) (hp_head h) bs \<and> tiled lo bs hi \<and> hi + 8192 \<le> 2 ^ 64"

lemma tiled_append:
  "tiled lo (xs @ ys) hi \<longleftrightarrow> (\<exists>mid. tiled lo xs mid \<and> tiled mid ys hi)"
  by (induction lo xs hi rule: tiled.induct) auto

lemma tiled_le: "tiled lo bs hi \<Longrightarrow> lo \<le> hi"
  by (induction lo bs hi rule: tiled.induct) auto

lemma tiled_in: "tiled lo bs hi \<Longrightarrow> (p, n, f) \<in> set bs \<Longrightarrow> lo \<le> p \<and> p + 24 + n \<le> hi"
proof (induction lo bs hi rule: tiled.induct)
  case (2 lo p' n' f' bs hi)
  then have "tiled (p' + 24 + n') bs hi" "p' = lo" by auto
  with 2 tiled_le show ?case by fastforce
qed simp

text \<open>Blocks of a tiling lie apart: the bytes of one hold no header and no byte of another.\<close>

lemma tiled_apart:
  "tiled lo bs hi \<Longrightarrow> (p, n, f) \<in> set bs \<Longrightarrow> (q, k, g) \<in> set bs \<Longrightarrow>
   (p, n, f) = (q, k, g) \<or> p + 24 + n \<le> q \<or> q + 24 + k \<le> p"
proof (induction lo bs hi rule: tiled.induct)
  case (2 lo p' n' f' bs hi)
  then have "tiled (p' + 24 + n') bs hi" "p' = lo" by auto
  with 2 tiled_in [of "p' + 24 + n'" bs hi] show ?case by fastforce
qed simp

lemma chain_upd_other:
  "unat x \<notin> fst ` set bs \<Longrightarrow> chain (m(x := v)) a bs \<longleftrightarrow> chain m a bs"
proof (induction m a bs rule: chain.induct)
  case (2 m a p n f bs)
  then show ?case by (cases "m a") (auto split: option.splits)
qed simp

lemma chain_upd_below:
  "tiled lo bs hi \<Longrightarrow> unat x < lo \<Longrightarrow> chain (m(x := v)) a bs \<longleftrightarrow> chain m a bs"
  by (rule chain_upd_other) (use tiled_in in fastforce)

section \<open>The abstract operations\<close>

definition cut :: "nat \<Rightarrow> block \<Rightarrow> block list" where
  "cut s b = (case b of (p, n, _) \<Rightarrow>
     if s + 40 \<le> n then [(p, s, False), (p + 24 + s, n - s - 24, True)] else [(p, n, False)])"

fun amalloc :: "nat \<Rightarrow> block list \<Rightarrow> (nat \<times> block list)" where
  "amalloc s [] = (0, [])"
| "amalloc s ((p, n, f) # bs) =
     (if f \<and> s \<le> n then (p + 24, cut s (p, n, f) @ bs)
      else (case amalloc s bs of (r, bs') \<Rightarrow> (r, (p, n, f) # bs')))"

lemma unat_add_le: "unat (a :: u64) + unat b \<le> hi \<Longrightarrow> hi < 2 ^ 64 \<Longrightarrow> unat (a + b) = unat a + unat b"
  by (rule unat_plus_no_wrap) simp

lemma split_guard:
  "unat sz \<le> unat n \<Longrightarrow> unat (n :: u64) + 8192 \<le> 2 ^ 64 \<Longrightarrow>
   sz + hdr + 16 \<le> n \<longleftrightarrow> unat sz + 40 \<le> unat n"
  by (auto simp: word_le_nat_alt unat_word_ariths)

lemma heap_block_upd:
  "b\<lparr>hb_size := s, hb_next := x, hb_free := f\<rparr> = \<lparr>hb_size = s, hb_next = x, hb_free = f\<rparr>"
  by (cases b) simp

text \<open>
  Cutting a block in memory: the header at \<open>a\<close> shrinks, a new header appears behind the
  bytes it keeps, and the chain goes through both.
\<close>

lemma chain_cut:
  assumes rest: "chain m (hb_next b) bs" and t: "tiled (p + 24 + n) bs hi"
    and a: "a \<noteq> NULL" "unat a = p" and n: "unat (hb_size b) = n"
    and fits: "unat sz + 40 \<le> n" and bound: "p + 24 + n + 8192 \<le> 2 ^ 64"
  shows "chain (m(a + hdr + sz \<mapsto> \<lparr>hb_size = hb_size b - sz - hdr, hb_next = hb_next b, hb_free = True\<rparr>,
                  a \<mapsto> \<lparr>hb_size = sz, hb_next = a + hdr + sz, hb_free = False\<rparr>)) a
           ((p, unat sz, False) # (p + 24 + unat sz, n - unat sz - 24, True) # bs)"
proof -
  have q: "unat (a + hdr + sz) = p + 24 + unat sz"
    using a fits bound by (simp add: unat_word_ariths)
  have ne: "a + hdr + sz \<noteq> a" "a + hdr + sz \<noteq> NULL"
    using arg_cong [of "a + hdr + sz" _ unat] q a(2) by force+
  have sz: "unat (hb_size b - sz - hdr) = n - unat sz - 24"
    using n fits by (simp add: unat_sub word_le_nat_alt)
  have "chain (m(a + hdr + sz \<mapsto> x, a \<mapsto> y)) (hb_next b) bs" for x y
    using rest chain_upd_below [OF t] q a(2) fits by simp
  with q ne sz a show ?thesis
    by simp
qed

lemma malloc_loop_refines:
  assumes "chain m a bs" "tiled lo bs hi" "hi + 8192 \<le> 2 ^ 64"
  shows "\<exists>r m'. malloc_loop sz a m = Some (r, m')
           \<and> unat r = fst (amalloc (unat sz) bs)
           \<and> chain m' a (snd (amalloc (unat sz) bs))
           \<and> (\<forall>x. unat x < lo \<longrightarrow> m' x = m x)"
  using assms
proof (induction bs arbitrary: a lo)
  case Nil
  then show ?case by (simp add: malloc_loop.simps)
next
  case (Cons blk bs)
  obtain p n f where blk: "blk = (p, n, f)" by (cases blk)
  from Cons.prems blk obtain b where b: "m a = Some b" "unat (hb_size b) = n" "hb_free b = f"
    and a: "a \<noteq> NULL" "unat a = p" and rest: "chain m (hb_next b) bs"
    by (auto split: option.splits)
  from Cons.prems blk have t: "tiled (p + 24 + n) bs hi" and lo: "lo = p" by auto
  from tiled_le [OF t] Cons.prems(3) have bound: "p + 24 + n + 8192 \<le> 2 ^ 64" by simp
  show ?case
  proof (cases "f \<and> unat sz \<le> n")
    case fit: True
    have g: "sz + hdr + 16 \<le> hb_size b \<longleftrightarrow> unat sz + 40 \<le> n"
      using split_guard [of sz "hb_size b"] fit b(2) bound by simp
    have r: "unat (a + hdr) = p + 24"
      using a(2) bound by (simp add: unat_word_ariths)
    show ?thesis
    proof (cases "unat sz + 40 \<le> n")
      case True
      with g fit b a blk show ?thesis
        using chain_cut [OF rest t a b(2) True bound] r True lo
        by (auto simp: malloc_loop.simps [of sz a] word_le_nat_alt cut_def unat_word_ariths
            heap_block_upd)
    next
      case False
      with g fit b a blk rest r lo show ?thesis
        using chain_upd_below [OF t, of a m] 
        by (auto simp: malloc_loop.simps [of sz a] word_le_nat_alt cut_def)
    qed
  next
    case False
    from Cons.IH [OF rest t Cons.prems(3)] obtain r m' where
      IH: "malloc_loop sz (hb_next b) m = Some (r, m')" "unat r = fst (amalloc (unat sz) bs)"
        "chain m' (hb_next b) (snd (amalloc (unat sz) bs))"
        "\<forall>x. unat x < p + 24 + n \<longrightarrow> m' x = m x" by blast
    from IH(4) a(2) have "m' a = Some b" using b(1) by simp
    with False b a lo IH show ?thesis
      by (auto simp: blk malloc_loop.simps [of sz a] word_le_nat_alt split: prod.splits)
  qed
qed
fun acoalesce :: "block list \<Rightarrow> block list" where
  "acoalesce [] = []"
| "acoalesce [b] = [b]"
| "acoalesce ((p, n, f) # (q, k, g) # bs) =
     (if f \<and> g then acoalesce ((p, n + 24 + k, True) # bs)
      else (p, n, f) # acoalesce ((q, k, g) # bs))"

definition amark :: "nat \<Rightarrow> block list \<Rightarrow> block list" where
  "amark q bs = map (\<lambda>(p, n, f). (p, n, f \<or> p = q)) bs"

definition afree :: "nat \<Rightarrow> block list \<Rightarrow> block list" where
  "afree q bs = acoalesce (amark q bs)"

lemma coalesce_loop_NULL [simp]: "coalesce_loop NULL m = Some m"
  by (subst coalesce_loop.simps) simp

lemma coalesce_loop_refines:
  assumes "chain m a bs" "tiled lo bs hi" "hi + 8192 \<le> 2 ^ 64"
  shows "\<exists>m'. coalesce_loop a m = Some m' \<and> chain m' a (acoalesce bs)
           \<and> (\<forall>x. unat x < lo \<longrightarrow> m' x = m x)"
  using assms
proof (induction bs arbitrary: m a lo rule: acoalesce.induct)
  case 1
  then show ?case by (simp add: coalesce_loop.simps)
next
  case (2 b)
  then show ?case
    by (cases b) (auto simp: coalesce_loop.simps [of a m] split: option.splits)
next
  case (3 p n f q k g bs)
  from "3.prems" obtain b c where b: "m a = Some b" "unat (hb_size b) = n" "hb_free b = f"
    and a: "a \<noteq> NULL" "unat a = p"
    and c: "m (hb_next b) = Some c" "unat (hb_size c) = k" "hb_free c = g"
    and nx: "hb_next b \<noteq> NULL" "unat (hb_next b) = q"
    and rest: "chain m (hb_next c) bs"
    by (auto split: option.splits)
  from "3.prems" have t: "tiled (q + 24 + k) bs hi" and q: "q = p + 24 + n" and lo: "lo = p"
    by auto
  from tiled_le [OF t] q "3.prems"(3) have bound: "p + 24 + n + 24 + k + 8192 \<le> 2 ^ 64" by simp
  show ?case
  proof (cases "f \<and> g")
    case True
    define m1 where "m1 = m(a \<mapsto> b\<lparr>hb_size := hb_size b + (hdr + hb_size c), hb_next := hb_next c\<rparr>)"
    have "unat (hb_size b + (hdr + hb_size c)) = n + 24 + k"
      using b(2) c(2) bound by (simp add: unat_word_ariths)
    moreover have "chain m1 (hb_next c) bs"
      unfolding m1_def using rest chain_upd_below [OF t, of a] a(2) q by simp
    ultimately have "chain m1 a ((p, n + 24 + k, True) # bs)"
      using a b(3) True by (simp add: m1_def)
    moreover have "tiled lo ((p, n + 24 + k, True) # bs) hi"
      using t q lo by (simp add: add.assoc)
    ultimately obtain m' where m': "coalesce_loop a m1 = Some m'"
      "chain m' a (acoalesce ((p, n + 24 + k, True) # bs))" "\<forall>x. unat x < lo \<longrightarrow> m' x = m1 x"
      using "3.IH"(1) [OF True _ _ "3.prems"(3)] by blast
    have "coalesce_loop a m = coalesce_loop a m1"
      using a b c nx True by (simp add: coalesce_loop.simps [of a m] m1_def)
    with m' True show ?thesis
      using a(2) lo by (auto simp: m1_def)
  next
    case False
    have "chain m (hb_next b) ((q, k, g) # bs)"
      using nx c rest by simp
    moreover have "tiled (p + 24 + n) ((q, k, g) # bs) hi"
      using t q by simp
    ultimately obtain m' where m': "coalesce_loop (hb_next b) m = Some m'"
      "chain m' (hb_next b) (acoalesce ((q, k, g) # bs))" "\<forall>x. unat x < p + 24 + n \<longrightarrow> m' x = m x"
      using "3.IH"(2) [OF False _ _ "3.prems"(3)] by blast
    have "coalesce_loop a m = coalesce_loop (hb_next b) m"
      using a b c nx False by (simp add: coalesce_loop.simps [of a m])
    moreover have "m' a = Some b"
      using m'(3) a(2) b(1) by simp
    ultimately show ?thesis
      using m' False a b lo by auto
  qed
qed

text \<open>The header of every block of the list is in memory, and marking it free marks the block.\<close>

lemma chain_mark:
  assumes "chain m a bs" "tiled lo bs hi" "unat x \<in> fst ` set bs" "x \<noteq> NULL"
  shows "\<exists>b. m x = Some b \<and> chain (m(x \<mapsto> b\<lparr>hb_free := True\<rparr>)) a (amark (unat x) bs)"
  using assms
proof (induction bs arbitrary: a lo)
  case (Cons blk bs)
  obtain p n f where blk: "blk = (p, n, f)" by (cases blk)
  from Cons.prems(1) obtain b where b: "m a = Some b" "unat (hb_size b) = n" "hb_free b = f"
    and a: "a \<noteq> NULL" "unat a = p" and rest: "chain m (hb_next b) bs"
    by (auto simp: blk split: option.splits)
  from Cons.prems(2) have t: "tiled (p + 24 + n) bs hi" and lo: "lo = p"
    by (auto simp: blk)
  show ?case
  proof (cases "x = a")
    case True
    have "\<forall>blk \<in> set bs. fst blk \<noteq> unat x"
      using True a(2) tiled_in [OF t] by fastforce
    then have "amark (unat x) bs = bs"
      unfolding amark_def by (intro map_idI) auto
    moreover have "chain (m(a \<mapsto> b\<lparr>hb_free := True\<rparr>)) (hb_next b) bs"
      using rest chain_upd_below [OF t, of a] a(2) by simp
    ultimately have "chain (m(a \<mapsto> b\<lparr>hb_free := True\<rparr>)) a ((p, n, True) # amark (unat x) bs)"
      using b a by simp
    moreover have "amark (unat x) (blk # bs) = (p, n, True) # amark (unat x) bs"
      using True a blk by (simp add: amark_def)
    ultimately show ?thesis
      using True b(1) by metis
  next
    case False
    then have "unat x \<noteq> p" using a(2) by (metis unsigned_word_eqI)
    with Cons.prems(3) blk have "unat x \<in> fst ` set bs" by auto
    from Cons.IH [OF rest t this Cons.prems(4)] obtain c where
      "m x = Some c" "chain (m(x \<mapsto> c\<lparr>hb_free := True\<rparr>)) (hb_next b) (amark (unat x) bs)" by blast
    moreover from this(2) have "chain (m(x \<mapsto> c\<lparr>hb_free := True\<rparr>)) a ((p, n, f) # amark (unat x) bs)"
      using False b a by simp
    moreover have "amark (unat x) (blk # bs) = (p, n, f) # amark (unat x) bs"
      using \<open>unat x \<noteq> p\<close> blk by (simp add: amark_def)
    ultimately show ?thesis by metis
  qed
qed simp

lemma tiled_mark: "tiled lo (amark q bs) hi \<longleftrightarrow> tiled lo bs hi"
  by (induction lo bs hi rule: tiled.induct) (auto simp: amark_def)

lemma tiled_coalesce: "tiled lo bs hi \<Longrightarrow> tiled lo (acoalesce bs) hi"
  by (induction bs arbitrary: lo rule: acoalesce.induct) (auto simp: add.assoc)

theorem free_refines:
  assumes rel: "heap_rel h lo hi bs" and live: "unat (ptr - hdr) \<in> fst ` set bs" and "0 < lo"
    and "ptr \<noteq> NULL"
  shows "\<exists>h'. free ptr h = Some h' \<and> heap_rel h' lo hi (afree (unat (ptr - hdr)) bs)
           \<and> h' = h\<lparr>hp_blocks := hp_blocks h'\<rparr>"
proof -
  let ?x = "ptr - hdr"
  from rel have c: "chain (hp_blocks h) (hp_head h) bs" and t: "tiled lo bs hi"
    and hi: "hi + 8192 \<le> 2 ^ 64" by (auto simp: heap_rel_def)
  have "?x \<noteq> NULL"
    using live tiled_in [OF t] \<open>0 < lo\<close> by fastforce
  from chain_mark [OF c t live this] obtain b where b: "hp_blocks h ?x = Some b"
    and m: "chain ((hp_blocks h)(?x \<mapsto> b\<lparr>hb_free := True\<rparr>)) (hp_head h) (amark (unat ?x) bs)"
    by blast
  from coalesce_loop_refines [OF m _ hi, of lo] t
  obtain m' where "coalesce_loop (hp_head h) ((hp_blocks h)(?x \<mapsto> b\<lparr>hb_free := True\<rparr>)) = Some m'"
    "chain m' (hp_head h) (acoalesce (amark (unat ?x) bs))" by (auto simp: tiled_mark)
  with b hi \<open>ptr \<noteq> NULL\<close> show ?thesis
    using tiled_coalesce [of lo "amark (unat ?x) bs" hi] t
    by (auto simp: free_def heap_rel_def afree_def tiled_mark)
qed

definition apad :: "nat \<Rightarrow> nat" where
  "apad p = (let pad = round_up 4096 (p + 24) - (p + 24)
             in if pad \<noteq> 0 \<and> pad < 40 then pad + 4096 else pad)"

fun apage :: "nat \<Rightarrow> block list \<Rightarrow> (nat \<times> block list)" where
  "apage s [] = (0, [])"
| "apage s ((p, n, f) # bs) =
     (if f \<and> s + apad p \<le> n then
        (p + 24 + apad p,
         (if 40 \<le> apad p then (p, apad p - 24, True) # cut s (p + apad p, n - apad p, False)
          else cut s (p, n, False)) @ bs)
      else (case apage s bs of (r, bs') \<Rightarrow> (r, (p, n, f) # bs')))"

lemma apad_cases: "apad p = 0 \<or> 40 \<le> apad p"
  by (auto simp: apad_def Let_def)

lemma apad_bound: "apad p < 4136"
proof -
  have "round_up 4096 (p + 24) < p + 24 + 4096"
    by (rule round_up_less) simp
  then show ?thesis
    by (auto simp: apad_def Let_def)
qed

lemma apad_aligned: "4096 dvd p + 24 + apad p"
proof -
  have "p + 24 \<le> round_up 4096 (p + 24)"
    by (rule round_up_ge) simp
  then have "4096 dvd p + 24 + (round_up 4096 (p + 24) - (p + 24))"
    by simp
  moreover from dvd_add [OF this, of 4096]
  have "4096 dvd p + 24 + (round_up 4096 (p + 24) - (p + 24) + 4096)"
    by (simp only: add.assoc dvd_refl)
  ultimately show ?thesis
    unfolding apad_def Let_def by (simp only: split: if_split) blast
qed

lemma unat_page_padding:
  assumes "unat a + 8192 \<le> 2 ^ 64"
  shows "unat (page_padding a) = apad (unat a)"
proof -
  let ?raw = "a + hdr"
  have raw: "unat ?raw = unat a + 24"
    using assms by (simp add: unat_word_ariths)
  have al: "unat ((?raw + 0xFFF) AND NOT 0xFFF) = round_up 4096 (unat a + 24)"
    using unat_round_up_page [of ?raw] raw assms by simp
  have "unat a + 24 \<le> round_up 4096 (unat a + 24)"
    by (rule round_up_ge) simp
  with raw al have pad: "unat (((?raw + 0xFFF) AND NOT 0xFFF) - ?raw)
      = round_up 4096 (unat a + 24) - (unat a + 24)"
    by (subst unat_minus_no_borrow) simp_all
  define pd where "pd = ((?raw + 0xFFF) AND NOT 0xFFF) - ?raw"
  have "page_padding a = (if pd \<noteq> 0 \<and> pd < 40 then pd + 4096 else pd)"
    unfolding page_padding_def Let_def pd_def by simp
  moreover have "(pd < 40) = (unat pd < 40)" "(pd = 0) = (unat pd = 0)"
    by (simp_all add: word_less_nat_alt unat_eq_0)
  moreover have "unat pd < 40 \<Longrightarrow> unat (pd + 4096) = unat pd + 4096"
    using unat_plus_no_wrap [of pd 4096] by simp
  ultimately show ?thesis
    unfolding apad_def Let_def using pad by (simp add: pd_def)
qed

lemma tiled_cut: "tiled p (cut s (p, n, g) @ bs) hi \<longleftrightarrow> tiled (p + 24 + n) bs hi"
proof (cases "s + 40 \<le> n")
  case True
  then have "p + 24 + s + 24 + (n - s - 24) = p + 24 + n" by simp
  with True show ?thesis by (simp only: cut_def split if_True append.simps tiled.simps) simp
qed (simp add: cut_def)

lemma chain_page_split:
  assumes rest: "chain m (hb_next b) bs" and t: "tiled (q + 24 + n) bs hi"
    and a: "a \<noteq> NULL" "unat a = q" and b: "unat (hb_size b) = n" "\<not> hb_free b"
    and fits: "unat sz \<le> n" and bound: "q + 24 + n + 8192 \<le> 2 ^ 64"
  shows "chain (page_split sz a b m) a (cut (unat sz) (q, n, g) @ bs)"
    and "unat x < q \<Longrightarrow> page_split sz a b m x = m x"
proof -
  have g: "sz + hdr + 16 \<le> hb_size b \<longleftrightarrow> unat sz + 40 \<le> n"
    using split_guard [of sz "hb_size b"] fits b(1) bound by simp
  have upd: "b\<lparr>hb_size := sz, hb_next := a + hdr + sz\<rparr>
      = \<lparr>hb_size = sz, hb_next = a + hdr + sz, hb_free = False\<rparr>"
    using b(2) by (cases b) simp
  show "chain (page_split sz a b m) a (cut (unat sz) (q, n, g) @ bs)"
  proof (cases "unat sz + 40 \<le> n")
    case True
    with g show ?thesis
      using chain_cut [OF rest t a b(1) True bound] by (simp add: page_split_def cut_def upd)
  next
    case False
    with g a b rest show ?thesis
      using chain_upd_below [OF t, of a m] by (simp add: page_split_def cut_def)
  qed
  show "unat x < q \<Longrightarrow> page_split sz a b m x = m x"
  proof -
    assume x: "unat x < q"
    with a have "x \<noteq> a" by auto
    have "unat sz + 40 \<le> n \<Longrightarrow> unat (a + hdr + sz) = q + 24 + unat sz"
      using a bound by (simp add: unat_word_ariths)
    then have "unat sz + 40 \<le> n \<Longrightarrow> x \<noteq> a + hdr + sz"
      using x by fastforce
    with g \<open>x \<noteq> a\<close> show ?thesis
      by (simp add: page_split_def)
  qed
qed

lemma page_alloc_loop_refines:
  assumes "chain m a bs" "tiled lo bs hi" "hi + 8192 \<le> 2 ^ 64" "unat sz + 8192 \<le> 2 ^ 64"
  shows "\<exists>r m'. page_alloc_loop sz a m = Some (r, m')
           \<and> unat r = fst (apage (unat sz) bs)
           \<and> chain m' a (snd (apage (unat sz) bs))
           \<and> (\<forall>x. unat x < lo \<longrightarrow> m' x = m x)"
  using assms(1,2)
proof (induction bs arbitrary: a lo)
  case Nil
  then show ?case by (simp add: page_alloc_loop.simps)
next
  case (Cons blk bs)
  obtain p n f where blk: "blk = (p, n, f)" by (cases blk)
  from Cons.prems(1) obtain b where b: "m a = Some b" "unat (hb_size b) = n" "hb_free b = f"
    and a: "a \<noteq> NULL" "unat a = p" and rest: "chain m (hb_next b) bs"
    by (auto simp: blk split: option.splits)
  from Cons.prems(2) have t: "tiled (p + 24 + n) bs hi" and lo: "lo = p"
    by (auto simp: blk)
  from tiled_le [OF t] assms(3) have bound: "p + 24 + n + 8192 \<le> 2 ^ 64" by simp
  define pd where "pd = page_padding a"
  have pd: "unat pd = apad p"
    using unat_page_padding [of a] a bound by (simp add: pd_def)
  have sum: "unat (sz + pd) = unat sz + apad p"
    using pd apad_bound [of p] assms(4) by (simp add: unat_word_ariths)
  have fits: "sz + pd \<le> hb_size b \<longleftrightarrow> unat sz + apad p \<le> n"
    using sum b(2) by (simp add: word_le_nat_alt)
  have big: "hdr + 16 \<le> pd \<longleftrightarrow> 40 \<le> apad p"
    using pd by (simp add: word_le_nat_alt)
  note step = page_alloc_loop.simps [of sz a m]
  show ?case
  proof (cases "f \<and> unat sz + apad p \<le> n")
    case False
    from Cons.IH [OF rest t] obtain r m' where
      IH: "page_alloc_loop sz (hb_next b) m = Some (r, m')" "unat r = fst (apage (unat sz) bs)"
        "chain m' (hb_next b) (snd (apage (unat sz) bs))"
        "\<forall>x. unat x < p + 24 + n \<longrightarrow> m' x = m x" by blast
    from IH(4) a(2) have "m' a = Some b" using b(1) by simp
    with False b a lo IH fits show ?thesis
      by (auto simp: blk step pd_def [symmetric] split: prod.splits)
  next
    case fit: True
    have r: "unat (a + hdr + pd) = p + 24 + apad p"
      using a(2) pd fit bound by (simp add: unat_word_ariths)
    show ?thesis
    proof (cases "40 \<le> apad p")
      case False
      with apad_cases [of p] have z: "apad p = 0" by auto
      let ?b = "b\<lparr>hb_free := False\<rparr>"
      have "page_alloc_loop sz a m = Some (a + hdr + pd, page_split sz a ?b m)"
        using a b fit fits big False by (simp add: step pd_def)
      moreover have "chain (page_split sz a ?b m) a (cut (unat sz) (p, n, False) @ bs)"
        "\<And>x. unat x < p \<Longrightarrow> page_split sz a ?b m x = m x"
        using chain_page_split [of m ?b bs p n hi a sz] rest t a b fit z bound by simp_all
      ultimately show ?thesis
        using r fit False lo z by (simp add: blk)
    next
      case True
      define al where "al = a + hdr + pd - hdr"
      define m1 where "m1 = m(a \<mapsto> \<lparr>hb_size = pd - hdr, hb_next = al, hb_free = True\<rparr>)"
      let ?b = "\<lparr>hb_size = hb_size b - pd, hb_next = hb_next b, hb_free = False\<rparr>"
      have al: "unat al = p + apad p"
        using r unat_minus_no_borrow [of hdr "a + hdr + pd"] by (simp add: al_def)
      with a have "al \<noteq> NULL" by (metis add_is_0 unat_0 unat_eq_0)
      have sz1: "unat (hb_size b - pd) = n - apad p"
        using unat_minus_no_borrow [of pd "hb_size b"] b(2) pd fit by simp
      have sz2: "unat (pd - hdr) = apad p - 24"
        using unat_minus_no_borrow [of hdr pd] pd True by simp
      have tl: "p + apad p + 24 + (n - apad p) = p + 24 + n"
        using fit by simp
      have "chain m1 (hb_next b) bs"
        unfolding m1_def using rest chain_upd_below [OF t, of a] a(2) by simp
      then have 1: "chain (page_split sz al ?b m1) al (cut (unat sz) (p + apad p, n - apad p, False) @ bs)"
        "\<And>x. unat x < p + apad p \<Longrightarrow> page_split sz al ?b m1 x = m1 x"
        using chain_page_split [of m1 ?b bs "p + apad p" "n - apad p" hi al sz]
          t tl \<open>al \<noteq> NULL\<close> al sz1 fit bound by simp_all
      then have "page_split sz al ?b m1 a = Some \<lparr>hb_size = pd - hdr, hb_next = al, hb_free = True\<rparr>"
        using a(2) True by (simp add: m1_def)
      with 1(1) a sz2
      have "chain (page_split sz al ?b m1) a
              ((p, apad p - 24, True) # cut (unat sz) (p + apad p, n - apad p, False) @ bs)"
        by simp
      moreover have "page_alloc_loop sz a m = Some (a + hdr + pd, page_split sz al ?b m1)"
        using a b fit fits big True unfolding al_def m1_def by (simp add: step pd_def Let_def)
      moreover have "\<And>x. unat x < p \<Longrightarrow> page_split sz al ?b m1 x = m x"
        using 1(2) a(2) by (auto simp: m1_def)
      ultimately show ?thesis
        using r fit True lo by (simp add: blk)
    qed
  qed
qed

lemma tiled_amalloc: "tiled lo bs hi \<Longrightarrow> tiled lo (snd (amalloc s bs)) hi"
  by (induction s bs arbitrary: lo rule: amalloc.induct) (auto simp: tiled_cut split: prod.splits)

lemma tiled_apage: "tiled lo bs hi \<Longrightarrow> tiled lo (snd (apage s bs)) hi"
proof (induction s bs arbitrary: lo rule: apage.induct)
  case (2 s p n f bs)
  show ?case
  proof (cases "f \<and> s + apad p \<le> n")
    case True
    then have "40 \<le> apad p \<Longrightarrow> p + 24 + (apad p - 24) = p + apad p"
      "p + apad p + 24 + (n - apad p) = p + 24 + n"
      by simp_all
    with True "2.prems" show ?thesis
      by (auto simp: tiled_cut ac_simps)
  qed (use 2 in \<open>auto split: prod.splits\<close>)
qed simp

section \<open>What the abstract operations promise\<close>

definition allocs :: "block list \<Rightarrow> (nat \<times> nat) set" where
  "allocs bs = {(p + 24, n) | p n. (p, n, False) \<in> set bs}"

lemma allocs_simps [simp]:
  "allocs [] = {}"
  "allocs ((p, n, True) # bs) = allocs bs"
  "allocs ((p, n, False) # bs) = insert (p + 24, n) (allocs bs)"
  "allocs (xs @ ys) = allocs xs \<union> allocs ys"
  by (auto simp: allocs_def)

lemma allocs_Cons: "allocs ((p, n, f) # bs) = (if f then {} else {(p + 24, n)}) \<union> allocs bs"
  by (cases f) auto

lemma allocs_cut: "allocs (cut s (p, n, g)) = {(p + 24, if s + 40 \<le> n then s else n)}"
  by (simp add: cut_def)

text \<open>
  What a request of \<open>s\<close> bytes may do to the blocks above \<open>lo\<close>: nothing at all, with the
  answer 0, or hand out one range that was not handed out before, with at least \<open>s\<close> bytes,
  and leave every other range that is in use alone.
\<close>

definition granted :: "nat \<Rightarrow> nat \<Rightarrow> block list \<Rightarrow> nat \<times> block list \<Rightarrow> bool" where
  "granted lo s bs res \<longleftrightarrow>
     (case res of (r, bs') \<Rightarrow>
        if r = 0 then bs' = bs
        else lo + 24 \<le> r \<and> r \<notin> fst ` allocs bs \<and>
             (\<exists>k \<ge> s. allocs bs' = insert (r, k) (allocs bs)))"

lemma granted_Cons:
  "granted (p + 24 + n) s bs (r, bs') \<Longrightarrow> granted p s ((p, n, f) # bs) (r, (p, n, f) # bs')"
  by (auto simp: granted_def allocs_Cons split: if_splits)

lemma allocs_above: "tiled lo bs hi \<Longrightarrow> (q, k) \<in> allocs bs \<Longrightarrow> lo + 24 \<le> q \<and> q + k \<le> hi"
  using tiled_in by (fastforce simp: allocs_def)

lemma granted_head:
  assumes t: "tiled (p + 24 + n) bs hi" and new: "allocs xs = {(r, k)}"
    and r: "p + 24 \<le> r" "r \<le> p + 24 + n" and "s \<le> k"
  shows "granted p s ((p, n, True) # bs) (r, xs @ bs)"
proof -
  have "r \<notin> fst ` allocs bs"
    using allocs_above [OF t] r(2) by fastforce
  with assms show ?thesis
    by (auto simp: granted_def)
qed

lemma amalloc_granted: "tiled lo bs hi \<Longrightarrow> granted lo s bs (amalloc s bs)"
proof (induction s bs arbitrary: lo rule: amalloc.induct)
  case (2 s p n f bs)
  then have t: "tiled (p + 24 + n) bs hi" and "lo = p" by auto
  show ?case
  proof (cases "f \<and> s \<le> n")
    case True
    let ?k = "if s + 40 \<le> n then s else n"
    have "allocs (cut s (p, n, f)) = {(p + 24, ?k)}" "s \<le> ?k"
      using True by (simp_all add: allocs_cut)
    from granted_head [OF t this(1) _ _ this(2)] True \<open>lo = p\<close> show ?thesis
      by simp
  next
    case False
    with "2.IH" [OF False t] \<open>lo = p\<close> show ?thesis
      by (auto intro!: granted_Cons split: prod.splits)
  qed
qed (simp add: granted_def)

lemma apage_granted: "tiled lo bs hi \<Longrightarrow> granted lo s bs (apage s bs)"
proof (induction s bs arbitrary: lo rule: apage.induct)
  case (2 s p n f bs)
  then have t: "tiled (p + 24 + n) bs hi" and "lo = p" by auto
  show ?case
  proof (cases "f \<and> s + apad p \<le> n")
    case True
    let ?xs = "if 40 \<le> apad p then (p, apad p - 24, True) # cut s (p + apad p, n - apad p, False)
               else cut s (p, n, False)"
    let ?n = "if 40 \<le> apad p then n - apad p else n"
    let ?k = "if s + 40 \<le> ?n then s else ?n"
    have "allocs ?xs = {(p + 24 + apad p, ?k)}" "s \<le> ?k"
      using True apad_cases [of p] by (auto simp: allocs_cut)
    from granted_head [OF t this(1) _ _ this(2)] True \<open>lo = p\<close> show ?thesis
      by simp
  next
    case False
    with "2.IH" [OF False t] \<open>lo = p\<close> show ?thesis
      by (auto intro!: granted_Cons split: prod.splits)
  qed
qed (simp add: granted_def)

lemma apage_aligned: "4096 dvd fst (apage s bs)"
  by (induction s bs rule: apage.induct) (auto simp: apad_aligned split: prod.splits)

text \<open>The last free block that could hold the request is found: 0 is only answered when none can.\<close>

lemma amalloc_complete: "fst (amalloc s bs) = 0 \<longleftrightarrow> (\<forall>(p, n, f) \<in> set bs. \<not> (f \<and> s \<le> n))"
  by (induction s bs rule: amalloc.induct) (auto split: prod.splits)

section \<open>Coalescing\<close>

fun coalesced :: "block list \<Rightarrow> bool" where
  "coalesced ((p, n, f) # (q, k, g) # bs) \<longleftrightarrow> \<not> (f \<and> g) \<and> coalesced ((q, k, g) # bs)"
| "coalesced bs \<longleftrightarrow> True"

definition head_free :: "block list \<Rightarrow> bool" where
  "head_free bs \<longleftrightarrow> (case bs of [] \<Rightarrow> False | (p, n, f) # _ \<Rightarrow> f)"

lemma head_free_simps [simp]: "head_free [] = False" "head_free ((p, n, f) # bs) = f"
  by (simp_all add: head_free_def)

lemma coalesced_Cons: "coalesced ((p, n, f) # bs) \<longleftrightarrow> \<not> (f \<and> head_free bs) \<and> coalesced bs"
  by (cases bs rule: coalesced.cases) (auto simp: head_free_def)

lemma acoalesce_Cons: "\<not> (f \<and> head_free bs) \<Longrightarrow> acoalesce ((p, n, f) # bs) = (p, n, f) # acoalesce bs"
  by (cases bs) auto

lemma head_free_acoalesce: "head_free (acoalesce bs) = head_free bs"
  by (induction bs rule: acoalesce.induct) auto

lemma coalesced_acoalesce: "coalesced (acoalesce bs)"
  by (induction bs rule: acoalesce.induct)
    (auto simp: coalesced_Cons head_free_acoalesce split: prod.splits)

lemma acoalesce_id: "coalesced bs \<Longrightarrow> acoalesce bs = bs"
  by (induction bs rule: acoalesce.induct) auto

lemma allocs_acoalesce: "allocs (acoalesce bs) = allocs bs"
  by (induction bs rule: acoalesce.induct) (auto simp: allocs_Cons)

lemma allocs_amark: "tiled lo bs hi \<Longrightarrow> allocs (amark q bs) = {(x, k) \<in> allocs bs. x \<noteq> q + 24}"
  by (induction lo bs hi rule: tiled.induct) (auto simp: amark_def allocs_Cons split: if_splits)

text \<open>
  A block cut off a coalesced heap and given back leaves the list as it was: its remainder
  merges into it again, and its neighbours, which were not free, merge with nothing.
\<close>

lemma head_free_amark:
  "tiled lo bs hi \<Longrightarrow> q \<noteq> lo \<Longrightarrow> head_free (amark q bs) = head_free bs"
  by (cases bs) (auto simp: amark_def)

lemma amark_above: "tiled lo bs hi \<Longrightarrow> q < lo \<Longrightarrow> amark q bs = bs"
  unfolding amark_def by (rule map_idI) (use tiled_in in fastforce)

lemma acoalesce_cut:
  assumes t: "tiled (p + 24 + n) bs hi" and c: "coalesced bs" "\<not> head_free bs" and "s \<le> n"
  shows "afree p (cut s (p, n, True) @ bs) = (p, n, True) # bs"
proof -
  have "amark p bs = bs"
    by (rule amark_above [OF t]) simp
  moreover have "acoalesce ((p, n, True) # bs) = (p, n, True) # bs"
    using c by (intro acoalesce_id) (simp add: coalesced_Cons)
  moreover have "s + 40 \<le> n \<Longrightarrow> s + 24 + (n - s - 24) = n" by simp
  ultimately show ?thesis
    by (simp add: afree_def cut_def amark_def)
qed

lemma amalloc_afree:
  assumes "tiled lo bs hi" "coalesced bs" "fst (amalloc s bs) \<noteq> 0"
  shows "afree (fst (amalloc s bs) - 24) (snd (amalloc s bs)) = bs"
  using assms
proof (induction s bs arbitrary: lo rule: amalloc.induct)
  case (2 s p n f bs)
  then have t: "tiled (p + 24 + n) bs hi" and c: "coalesced bs" "\<not> (f \<and> head_free bs)"
    by (auto simp: coalesced_Cons)
  show ?case
  proof (cases "f \<and> s \<le> n")
    case True
    have "cut s (p, n, f) = cut s (p, n, True)" by (simp add: cut_def)
    with True c acoalesce_cut [OF t, of s] show ?thesis by simp
  next
    case False
    obtain r bs' where rb: "amalloc s bs = (r, bs')" by (cases "amalloc s bs")
    with False "2.prems"(3) have "r \<noteq> 0" by (simp split: if_splits)
    with rb amalloc_granted [OF t, of s] have r: "p + 24 + n + 24 \<le> r"
      by (simp add: granted_def)
    from "2.IH" [OF False t c(1)] rb \<open>r \<noteq> 0\<close> have IH: "acoalesce (amark (r - 24) bs') = bs"
      by (simp add: afree_def)
    then have "head_free (amark (r - 24) bs') = head_free bs"
      using head_free_acoalesce [of "amark (r - 24) bs'"] by simp
    with c(2) have "acoalesce ((p, n, f) # amark (r - 24) bs') = (p, n, f) # bs"
      using acoalesce_Cons [of f "amark (r - 24) bs'" p n] IH by simp
    moreover have "amark (r - 24) ((p, n, f) # bs') = (p, n, f) # amark (r - 24) bs'"
      using r by (auto simp: amark_def)
    ultimately show ?thesis
      using False rb by (auto simp: afree_def)
  qed
qed simp

section \<open>The contract of the allocator\<close>

text \<open>
  \<open>heap_at h lo hi L\<close>: the heap is well formed, spans the addresses from \<open>lo\<close> to \<open>hi\<close>, and the
  ranges \<open>L\<close> (address, bytes) are in use. \<open>heap_inv h L\<close> leaves the span open.
\<close>

definition heap_at :: "'a heap_state_scheme \<Rightarrow> nat \<Rightarrow> nat \<Rightarrow> (nat \<times> nat) set \<Rightarrow> bool" where
  "heap_at h lo hi L \<longleftrightarrow> pmm_initialized h \<and> 0 < lo \<and> (\<exists>bs. heap_rel h lo hi bs \<and> L = allocs bs)"

definition heap_inv :: "'a heap_state_scheme \<Rightarrow> (nat \<times> nat) set \<Rightarrow> bool" where
  "heap_inv h L \<longleftrightarrow> (\<exists>lo hi. heap_at h lo hi L)"

lemma heap_inv_at: "heap_at h lo hi L \<Longrightarrow> heap_inv h L"
  by (auto simp: heap_inv_def)

text \<open>Ranges in use lie apart from each other, with room for a header between them.\<close>

lemma heap_at_range:
  assumes "heap_at h lo hi L" "(p, k) \<in> L"
  shows "lo + 24 \<le> p" "p + k \<le> hi" "hi + 8192 \<le> 2 ^ 64"
  using assms allocs_above by (fastforce simp: heap_at_def heap_rel_def)+

lemma heap_inv_apart:
  assumes "heap_inv h L" "(p, k) \<in> L" "(q, j) \<in> L"
  shows "(p, k) = (q, j) \<or> p + k + 24 \<le> q \<or> q + j + 24 \<le> p"
proof -
  from assms obtain lo hi bs x y where t: "tiled lo bs hi" and
    xy: "p = x + 24" "q = y + 24" "(x, k, False) \<in> set bs" "(y, j, False) \<in> set bs"
    by (auto simp: heap_inv_def heap_at_def heap_rel_def allocs_def)
  from tiled_apart [OF t xy(3,4)] xy(1,2) show ?thesis by auto
qed

lemma heap_inv_range:
  assumes "heap_inv h L" "(p, k) \<in> L"
  shows "24 < p" "p + k + 8192 \<le> 2 ^ 64"
  using assms(1) heap_at_range [OF _ assms(2)] unfolding heap_inv_def by (fastforce simp: heap_at_def)+

definition same_but_blocks :: "'a heap_state_scheme \<Rightarrow> 'a heap_state_scheme \<Rightarrow> bool" where
  "same_but_blocks h h' \<longleftrightarrow> h' = h\<lparr>hp_blocks := hp_blocks h'\<rparr>"

lemma same_but_blocks_more:
  "same_but_blocks h h' \<Longrightarrow> heap_state.more h' = heap_state.more h \<and> hp_head h' = hp_head h
     \<and> pmm_initialized h' = pmm_initialized h"
  unfolding same_but_blocks_def by (metis heap_state.surjective heap_state.update_convs(2)
      heap_state.select_convs heap_state.ext_inject)

lemma malloc_refines:
  assumes rel: "heap_rel h lo hi bs" "pmm_initialized h" and sz: "sz \<noteq> 0" "unat sz + 7 < 2 ^ 64"
  shows "\<exists>r h'. malloc sz h = Some (r, h') \<and> unat r = fst (amalloc (round_up 8 (unat sz)) bs)
           \<and> heap_rel h' lo hi (snd (amalloc (round_up 8 (unat sz)) bs)) \<and> same_but_blocks h h'"
proof -
  let ?n = "round_up 8 (unat sz)"
  from rel have c: "chain (hp_blocks h) (hp_head h) bs" and t: "tiled lo bs hi"
    and hi: "hi + 8192 \<le> 2 ^ 64" by (auto simp: heap_rel_def)
  have "unat ((sz + 7) AND NOT 7) = ?n"
    by (rule unat_round_up_8 [OF sz(2)])
  with malloc_loop_refines [OF c t hi, of "(sz + 7) AND NOT 7"] obtain r m' where
    "malloc_loop ((sz + 7) AND NOT 7) (hp_head h) (hp_blocks h) = Some (r, m')"
    "unat r = fst (amalloc ?n bs)" "chain m' (hp_head h) (snd (amalloc ?n bs))"
    by auto
  with rel sz hi tiled_amalloc [OF t, of ?n] show ?thesis
    by (auto simp: malloc_def heap_rel_def same_but_blocks_def)
qed

lemma page_alloc_refines:
  assumes rel: "heap_rel h lo hi bs" and n: "4096 * unat pages + 8192 \<le> 2 ^ 64"
  shows "\<exists>r h'. page_alloc pages h = Some (r, h') \<and> unat r = fst (apage (4096 * unat pages) bs)
           \<and> heap_rel h' lo hi (snd (apage (4096 * unat pages) bs)) \<and> same_but_blocks h h'"
proof -
  from rel have c: "chain (hp_blocks h) (hp_head h) bs" and t: "tiled lo bs hi"
    and hi: "hi + 8192 \<le> 2 ^ 64" by (auto simp: heap_rel_def)
  have sz: "unat (4096 * pages) = 4096 * unat pages"
    using n by (simp add: unat_word_ariths)
  with page_alloc_loop_refines [OF c t hi, of "4096 * pages"] n obtain r m' where
    "page_alloc_loop (4096 * pages) (hp_head h) (hp_blocks h) = Some (r, m')"
    "unat r = fst (apage (4096 * unat pages) bs)"
    "chain m' (hp_head h) (snd (apage (4096 * unat pages) bs))"
    by auto
  with rel hi tiled_apage [OF t, of "4096 * unat pages"] show ?thesis
    by (auto simp: page_alloc_def heap_rel_def same_but_blocks_def)
qed

text \<open>
  The interface the rest of the kernel uses: a request \<open>r\<close> that stands for \<open>need r\<close> bytes
  answers NULL or a range that no one uses, and a range in use can be given back.
\<close>

locale allocator =
  fixes alloc :: "'r \<Rightarrow> 's \<Rightarrow> (u64 \<times> 's) option"
    and dealloc :: "u64 \<Rightarrow> 's \<Rightarrow> 's option"
    and inv :: "'s \<Rightarrow> (nat \<times> nat) set \<Rightarrow> bool"
    and sane :: "'r \<Rightarrow> bool"
    and need :: "'r \<Rightarrow> nat"
  assumes alloc_returns: "inv s L \<Longrightarrow> sane r \<Longrightarrow> \<exists>p s'. alloc r s = Some (p, s')"
    and alloc_null: "inv s L \<Longrightarrow> sane r \<Longrightarrow> alloc r s = Some (NULL, s') \<Longrightarrow> inv s' L"
    and alloc_range: "inv s L \<Longrightarrow> sane r \<Longrightarrow> alloc r s = Some (p, s') \<Longrightarrow> p \<noteq> NULL \<Longrightarrow>
          \<exists>k \<ge> need r. inv s' (insert (unat p, k) L) \<and> unat p \<notin> fst ` L"
    and dealloc_range: "inv s L \<Longrightarrow> (unat p, k) \<in> L \<Longrightarrow>
          \<exists>s'. dealloc p s = Some s' \<and> inv s' (L - {(unat p, k)})"
    and in_use_apart: "inv s L \<Longrightarrow> (x, k) \<in> L \<Longrightarrow> (y, j) \<in> L \<Longrightarrow> (x, k) \<noteq> (y, j) \<Longrightarrow>
          x + k \<le> y \<or> y + j \<le> x"
begin

text \<open>What is handed out overlaps nothing that is in use.\<close>

lemma fresh_apart:
  assumes "inv s L" "sane r" "alloc r s = Some (p, s')" "p \<noteq> NULL" "(y, j) \<in> L"
  shows "unat p + need r \<le> y \<or> y + j \<le> unat p"
proof -
  from alloc_range [OF assms(1-4)] obtain k where k: "need r \<le> k"
    "inv s' (insert (unat p, k) L)" "unat p \<notin> fst ` L" by blast
  with assms(5) have "(unat p, k) \<noteq> (y, j)" by force
  from in_use_apart [OF k(2) _ _ this] assms(5) have "unat p + k \<le> y \<or> y + j \<le> unat p" by simp
  with k(1) show ?thesis by linarith
qed

text \<open>Handing out and giving back at once leaves the ranges in use as they were.\<close>

lemma alloc_dealloc:
  assumes "inv s L" "sane r" "alloc r s = Some (p, s')" "p \<noteq> NULL"
  shows "\<exists>s''. dealloc p s' = Some s'' \<and> inv s'' L"
proof -
  from alloc_range [OF assms] obtain k where k: "inv s' (insert (unat p, k) L)" "unat p \<notin> fst ` L"
    by blast
  then have "insert (unat p, k) L - {(unat p, k)} = L" by force
  with dealloc_range [OF k(1), of p k] show ?thesis by auto
qed

end

lemma heap_at_grant:
  assumes "0 < lo" "pmm_initialized h" "allocs bs = L" "granted lo s bs (unat p, bs')"
    and "heap_rel h' lo hi bs'" "same_but_blocks h h'"
  shows "if p = NULL then heap_at h' lo hi L
         else \<exists>k \<ge> s. heap_at h' lo hi (insert (unat p, k) L) \<and> unat p \<notin> fst ` L"
  using assms same_but_blocks_more [OF assms(6)]
  by (fastforce simp: granted_def heap_at_def unat_eq_0 split: if_splits)

lemma malloc_at:
  assumes inv: "heap_at h lo hi L" and sz: "unat sz + 7 < 2 ^ 64"
  shows "\<exists>p h'. malloc sz h = Some (p, h') \<and> same_but_blocks h h' \<and>
           (if p = NULL then heap_at h' lo hi L
            else \<exists>k \<ge> unat sz. heap_at h' lo hi (insert (unat p, k) L) \<and> unat p \<notin> fst ` L)"
proof (cases "sz = 0")
  case True
  with inv show ?thesis
    by (auto simp: malloc_def heap_at_def same_but_blocks_def)
next
  case False
  from inv obtain bs where bs: "0 < lo" "heap_rel h lo hi bs" "L = allocs bs"
    and ini: "pmm_initialized h" by (auto simp: heap_at_def)
  let ?n = "round_up 8 (unat sz)"
  from malloc_refines [OF bs(2) ini False sz] obtain p h' where
    p: "malloc sz h = Some (p, h')" "unat p = fst (amalloc ?n bs)"
    "heap_rel h' lo hi (snd (amalloc ?n bs))" "same_but_blocks h h'" by blast
  have "granted lo ?n bs (unat p, snd (amalloc ?n bs))"
    using amalloc_granted [of lo bs hi ?n] bs(2) p(2) by (simp add: heap_rel_def)
  from heap_at_grant [OF bs(1) ini bs(3) [symmetric] this p(3,4)] p(1,4)
  show ?thesis
    using round_up_ge [of 8 "unat sz"] by (fastforce split: if_splits)
qed

lemma page_alloc_at:
  assumes inv: "heap_at h lo hi L" and n: "4096 * unat pages + 8192 \<le> 2 ^ 64"
  shows "\<exists>p h'. page_alloc pages h = Some (p, h') \<and> same_but_blocks h h' \<and> 4096 dvd unat p \<and>
           (if p = NULL then heap_at h' lo hi L
            else \<exists>k \<ge> 4096 * unat pages. heap_at h' lo hi (insert (unat p, k) L) \<and> unat p \<notin> fst ` L)"
proof -
  from inv obtain bs where bs: "0 < lo" "heap_rel h lo hi bs" "L = allocs bs"
    and ini: "pmm_initialized h" by (auto simp: heap_at_def)
  let ?n = "4096 * unat pages"
  from page_alloc_refines [OF bs(2) n] obtain p h' where
    p: "page_alloc pages h = Some (p, h')" "unat p = fst (apage ?n bs)"
    "heap_rel h' lo hi (snd (apage ?n bs))" "same_but_blocks h h'" by blast
  have "granted lo ?n bs (unat p, snd (apage ?n bs))"
    using apage_granted [of lo bs hi ?n] bs(2) p(2) by (simp add: heap_rel_def)
  from heap_at_grant [OF bs(1) ini bs(3) [symmetric] this p(3,4)] p apage_aligned [of ?n bs]
  show ?thesis by auto
qed

lemma free_at:
  assumes inv: "heap_at h lo hi L" and live: "(unat ptr, k) \<in> L"
  shows "\<exists>h'. free ptr h = Some h' \<and> same_but_blocks h h' \<and> heap_at h' lo hi (L - {(unat ptr, k)})"
proof -
  from inv obtain bs where lo: "0 < lo" and rel: "heap_rel h lo hi bs" and L: "L = allocs bs"
    and ini: "pmm_initialized h" by (auto simp: heap_at_def)
  from rel have t: "tiled lo bs hi" by (simp add: heap_rel_def)
  from live L obtain q where q: "unat ptr = q + 24" "(q, k, False) \<in> set bs"
    by (auto simp: allocs_def)
  have x: "unat (ptr - hdr) = q"
    using unat_minus_no_borrow [of hdr ptr] q(1) by simp
  then have "unat (ptr - hdr) \<in> fst ` set bs"
    using q(2) by force
  from free_refines [OF rel this lo] q(1) obtain h' where h': "free ptr h = Some h'"
    "heap_rel h' lo hi (afree q bs)" "same_but_blocks h h'"
    using x by (force simp: same_but_blocks_def)
  have "allocs (afree q bs) = {(x, j) \<in> L. x \<noteq> unat ptr}"
    using allocs_amark [OF t, of q] L q(1) by (simp add: afree_def allocs_acoalesce)
  also have "\<dots> = L - {(unat ptr, k)}"
    using heap_inv_apart [OF heap_inv_at [OF inv] live] by fastforce
  finally show ?thesis
    using h' lo ini same_but_blocks_more [OF h'(3)] by (auto simp: heap_at_def)
qed

text \<open>The same contracts with the span of the heap left open.\<close>

lemma malloc_contract:
  assumes "heap_inv h L" "unat sz + 7 < 2 ^ 64"
  shows "\<exists>p h'. malloc sz h = Some (p, h') \<and> same_but_blocks h h' \<and>
           (if p = NULL then heap_inv h' L
            else \<exists>k \<ge> unat sz. heap_inv h' (insert (unat p, k) L) \<and> unat p \<notin> fst ` L)"
  using assms malloc_at heap_inv_at unfolding heap_inv_def [of h] by (metis (no_types, lifting))

lemma page_alloc_contract:
  assumes "heap_inv h L" "4096 * unat pages + 8192 \<le> 2 ^ 64"
  shows "\<exists>p h'. page_alloc pages h = Some (p, h') \<and> same_but_blocks h h' \<and> 4096 dvd unat p \<and>
           (if p = NULL then heap_inv h' L
            else \<exists>k \<ge> 4096 * unat pages. heap_inv h' (insert (unat p, k) L) \<and> unat p \<notin> fst ` L)"
  using assms page_alloc_at heap_inv_at unfolding heap_inv_def [of h] by (metis (no_types, lifting))

lemma free_contract:
  assumes "heap_inv h L" "(unat ptr, k) \<in> L"
  shows "\<exists>h'. free ptr h = Some h' \<and> same_but_blocks h h' \<and> heap_inv h' (L - {(unat ptr, k)})"
  using assms free_at heap_inv_at unfolding heap_inv_def [of h] by (metis (no_types, lifting))

interpretation bytes: allocator
  "malloc :: u64 \<Rightarrow> 'a heap_state_scheme \<Rightarrow> _" free heap_inv "\<lambda>sz. unat sz + 7 < 2 ^ 64" unat
proof (unfold_locales, goal_cases)
  case (1 s L r)
  then show ?case using malloc_contract by fastforce
next
  case (2 s L r s')
  then show ?case using malloc_contract by fastforce
next
  case (3 s L r p s')
  then show ?case using malloc_contract [of s L r] by fastforce
next
  case (4 s L p k)
  then show ?case using free_contract by fastforce
next
  case (5 s L x k y j)
  then show ?case using heap_inv_apart [of s L x k y j] by auto
qed

interpretation pages: allocator
  "page_alloc :: u64 \<Rightarrow> 'a heap_state_scheme \<Rightarrow> _" free heap_inv
  "\<lambda>n. 4096 * unat n + 8192 \<le> 2 ^ 64" "\<lambda>n. 4096 * unat n"
proof (unfold_locales, goal_cases)
  case (1 s L r)
  then show ?case using page_alloc_contract by fastforce
next
  case (2 s L r s')
  then show ?case using page_alloc_contract by fastforce
next
  case (3 s L r p s')
  then show ?case using page_alloc_contract [of s L r] by fastforce
next
  case (4 s L p k)
  then show ?case using free_contract by fastforce
next
  case (5 s L x k y j)
  then show ?case using heap_inv_apart [of s L x k y j] by auto
qed

section \<open>Properties\<close>

text \<open>A heap of one free block of 64 KiB at 1 MiB, for the witnesses.\<close>

definition example_heap :: heap_state where
  "example_heap = \<lparr>hp_head = 0x100000,
     hp_blocks = [0x100000 \<mapsto> \<lparr>hb_size = 0x10000, hb_next = NULL, hb_free = True\<rparr>],
     pmm_initialized = True\<rparr>"

lemma example_heap_rel: "heap_rel example_heap 0x100000 0x110018 [(0x100000, 0x10000, True)]"
  by (simp add: example_heap_def heap_rel_def)

lemma example_heap_at: "heap_at example_heap 0x100000 0x110018 {}"
  unfolding heap_at_def using example_heap_rel
  by (intro conjI exI [where x = "[(0x100000, 0x10000, True)]"]) (auto simp: example_heap_def)

lemma example_heap_inv: "heap_inv example_heap {}"
  by (rule heap_inv_at [OF example_heap_at])

text \<open>C1: malloc always returns on a well-formed heap. It answers NULL and changes nothing
  that is in use, or it answers memory of at least the requested size which overlaps no
  memory in use; the heap stays well formed and everything in use stays in use.\<close>

theorem malloc_fresh:
  assumes "heap_inv h L" "unat sz + 7 < 2 ^ 64"
  shows "\<exists>p h'. malloc sz h = Some (p, h') \<and>
           (p = NULL \<and> heap_inv h' L \<or>
            p \<noteq> NULL \<and> (\<exists>k \<ge> unat sz. heap_inv h' (insert (unat p, k) L)) \<and>
            (\<forall>(y, j) \<in> L. unat p + unat sz \<le> y \<or> y + j \<le> unat p))"
proof -
  from malloc_contract [OF assms] obtain p h' where p: "malloc sz h = Some (p, h')"
    "if p = NULL then heap_inv h' L
     else \<exists>k \<ge> unat sz. heap_inv h' (insert (unat p, k) L) \<and> unat p \<notin> fst ` L" by blast
  have "\<forall>(y, j) \<in> L. unat p + unat sz \<le> y \<or> y + j \<le> unat p" if "p \<noteq> NULL"
    using bytes.fresh_apart [OF assms p(1) that] by blast
  with p show ?thesis by (auto split: if_splits)
qed

theorem malloc_fresh_witness:
  "\<exists>p h'. malloc 100 example_heap = Some (p, h') \<and>
     (p = NULL \<and> heap_inv h' {} \<or>
      p \<noteq> NULL \<and> (\<exists>k \<ge> unat (100 :: u64). heap_inv h' (insert (unat p, k) {})) \<and>
      (\<forall>(y, j) \<in> {}. unat p + unat (100 :: u64) \<le> y \<or> y + j \<le> unat p))"
  by (rule malloc_fresh [OF example_heap_inv, of 100]) simp

text \<open>C2: memory handed out by malloc and given back at once leaves the list of blocks as it
  was, when no two free blocks were adjacent: the cut is undone by the merge.\<close>

theorem malloc_free_roundtrip:
  assumes "heap_rel h lo hi bs" "0 < lo" "pmm_initialized h" "coalesced bs"
    and "sz \<noteq> 0" "unat sz + 7 < 2 ^ 64" "malloc sz h = Some (p, h')" "p \<noteq> NULL"
  shows "\<exists>h''. free p h' = Some h'' \<and> heap_rel h'' lo hi bs"
proof -
  let ?n = "round_up 8 (unat sz)"
  from malloc_refines [OF assms(1,3,5,6)] assms(7)
  have p: "unat p = fst (amalloc ?n bs)" and rel: "heap_rel h' lo hi (snd (amalloc ?n bs))"
    by auto
  from assms(1) have t: "tiled lo bs hi" by (simp add: heap_rel_def)
  from p assms(8) have nz: "fst (amalloc ?n bs) \<noteq> 0" by (metis unat_eq_0)
  with amalloc_granted [OF t, of ?n] p obtain k where
    "(unat p, k) \<in> allocs (snd (amalloc ?n bs))" "24 \<le> unat p"
    by (auto simp: granted_def split: prod.splits)
  then have x: "unat (p - hdr) = unat p - 24" and "unat p - 24 \<in> fst ` set (snd (amalloc ?n bs))"
    using unat_minus_no_borrow [of hdr p] by (force simp: allocs_def)+
  with free_refines [OF rel _ assms(2,8)] amalloc_afree [OF t assms(4) nz] p show ?thesis
    by auto
qed

theorem malloc_free_roundtrip_witness:
  "\<exists>h''. free 0x100018 (snd (the (malloc 100 example_heap))) = Some h'' \<and>
     heap_rel h'' 0x100000 0x110018 [(0x100000, 0x10000, True)]"
proof -
  have "malloc 100 example_heap = Some (0x100018, snd (the (malloc 100 example_heap)))"
    by (simp add: malloc_def example_heap_def malloc_loop.simps)
  from malloc_free_roundtrip [OF example_heap_rel _ _ _ _ _ this] show ?thesis
    by (simp add: example_heap_def)
qed

text \<open>C3: free of memory in use returns, puts exactly that range out of use, and leaves no two
  adjacent free blocks anywhere in the heap.\<close>

theorem free_releases_and_coalesces:
  assumes "heap_rel h lo hi bs" "0 < lo" "(unat p, k) \<in> allocs bs"
  shows "\<exists>h' bs'. free p h = Some h' \<and> heap_rel h' lo hi bs' \<and> coalesced bs' \<and>
           allocs bs' = allocs bs - {(unat p, k)}"
proof -
  from assms(1) have t: "tiled lo bs hi" by (simp add: heap_rel_def)
  from assms(3) obtain q where q: "unat p = q + 24" "(q, k, False) \<in> set bs"
    by (auto simp: allocs_def)
  have x: "unat (p - hdr) = q"
    using unat_minus_no_borrow [of hdr p] q(1) by simp
  then have "unat (p - hdr) \<in> fst ` set bs" using q(2) by force
  from free_refines [OF assms(1) this assms(2)] q(1) x
  obtain h' where "free p h = Some h'" "heap_rel h' lo hi (afree q bs)" by force
  moreover have "j = k" if "(unat p, j) \<in> allocs bs" for j
    using tiled_apart [OF t q(2), of q j False] that q(1) by (auto simp: allocs_def)
  then have "allocs (afree q bs) = allocs bs - {(unat p, k)}"
    using allocs_amark [OF t, of q] q(1) by (auto simp: afree_def allocs_acoalesce)
  ultimately show ?thesis
    using coalesced_acoalesce [of "amark q bs"] by (auto simp: afree_def)
qed

text \<open>C4: page_alloc returns on a well-formed heap; what it hands out starts on a page
  boundary, has the requested pages, and overlaps no memory in use.\<close>

theorem page_alloc_fresh:
  assumes "heap_inv h L" "4096 * unat pages + 8192 \<le> 2 ^ 64"
  shows "\<exists>p h'. page_alloc pages h = Some (p, h') \<and> 4096 dvd unat p \<and>
           (p = NULL \<and> heap_inv h' L \<or>
            p \<noteq> NULL \<and> (\<exists>k \<ge> 4096 * unat pages. heap_inv h' (insert (unat p, k) L)) \<and>
            (\<forall>(y, j) \<in> L. unat p + 4096 * unat pages \<le> y \<or> y + j \<le> unat p))"
proof -
  from page_alloc_contract [OF assms] obtain p h' where p: "page_alloc pages h = Some (p, h')"
    "4096 dvd unat p" "if p = NULL then heap_inv h' L
     else \<exists>k \<ge> 4096 * unat pages. heap_inv h' (insert (unat p, k) L) \<and> unat p \<notin> fst ` L" by blast
  have "\<forall>(y, j) \<in> L. unat p + 4096 * unat pages \<le> y \<or> y + j \<le> unat p" if "p \<noteq> NULL"
    using pages.fresh_apart [OF assms p(1) that] by blast
  with p show ?thesis by (auto split: if_splits)
qed

theorem page_alloc_fresh_witness:
  "\<exists>p h'. page_alloc 3 example_heap = Some (p, h') \<and> 4096 dvd unat p \<and>
     (p = NULL \<and> heap_inv h' {} \<or>
      p \<noteq> NULL \<and> (\<exists>k \<ge> 4096 * unat (3 :: u64). heap_inv h' (insert (unat p, k) {})) \<and>
      (\<forall>(y, j) \<in> {}. unat p + 4096 * unat (3 :: u64) \<le> y \<or> y + j \<le> unat p))"
  by (rule page_alloc_fresh [OF example_heap_inv, of 3]) simp

text \<open>C5: malloc gives up only when it must: it answers NULL to a request for memory exactly
  when no free block of the heap holds the rounded size.\<close>

theorem malloc_first_fit_complete:
  assumes "heap_rel h lo hi bs" "pmm_initialized h" "sz \<noteq> 0" "unat sz + 7 < 2 ^ 64"
  shows "(\<exists>h'. malloc sz h = Some (NULL, h')) \<longleftrightarrow>
         (\<forall>(p, n, f) \<in> set bs. f \<longrightarrow> n < round_up 8 (unat sz))"
proof -
  from malloc_refines [OF assms] obtain r h' where r: "malloc sz h = Some (r, h')"
    "unat r = fst (amalloc (round_up 8 (unat sz)) bs)" by blast
  then have "(\<exists>h'. malloc sz h = Some (NULL, h')) \<longleftrightarrow> fst (amalloc (round_up 8 (unat sz)) bs) = 0"
    by (auto simp: unat_eq_0)
  then show ?thesis
    by (auto simp: amalloc_complete)
qed

theorem malloc_first_fit_complete_witness:
  "(\<exists>h'. malloc 0x20000 example_heap = Some (NULL, h')) \<longleftrightarrow>
   (\<forall>(p, n, f) \<in> set [(0x100000 :: nat, 0x10000, True)]. f \<longrightarrow> n < round_up 8 (unat (0x20000 :: u64)))"
  by (rule malloc_first_fit_complete [OF example_heap_rel]) (simp_all add: example_heap_def)


text \<open>
  The product does wrap: \<open>calloc\<close> of 2^61 + 1 elements of 8 bytes succeeds on a heap of 64
  KiB, and hands out 8 bytes. \<open>malloc\<close> of a size within 7 of the top of the address
  space rounds it to 0 and succeeds as well.
\<close>

lemma calloc_wraps: "\<exists>h'. calloc 0x2000000000000001 8 example_heap = Some (0x100018, 8, h')"
  by (simp add: calloc_def malloc_def example_heap_def malloc_loop.simps)

lemma malloc_rounds_to_zero: "\<exists>h'. malloc 0xFFFFFFFFFFFFFFFF example_heap = Some (0x100018, h')"
  by (simp add: malloc_def example_heap_def malloc_loop.simps)

text \<open>A heap with a block in use between two free ones.\<close>

definition example_used_heap :: heap_state where
  "example_used_heap = \<lparr>hp_head = 0x100000,
     hp_blocks = [0x100000 \<mapsto> \<lparr>hb_size = 64, hb_next = 0x100058, hb_free = True\<rparr>,
                  0x100058 \<mapsto> \<lparr>hb_size = 104, hb_next = 0x1000D8, hb_free = False\<rparr>,
                  0x1000D8 \<mapsto> \<lparr>hb_size = 0x1000, hb_next = NULL, hb_free = True\<rparr>],
     pmm_initialized = True\<rparr>"

lemma example_used_heap_rel: "heap_rel example_used_heap 0x100000 0x1010F0
    [(0x100000, 64, True), (0x100058, 104, False), (0x1000D8, 0x1000, True)]"
  by (simp add: example_used_heap_def heap_rel_def)

theorem free_releases_and_coalesces_witness:
  "\<exists>h' bs'. free 0x100070 example_used_heap = Some h' \<and> heap_rel h' 0x100000 0x1010F0 bs' \<and>
     coalesced bs' \<and>
     allocs bs' = allocs [(0x100000, 64, True), (0x100058, 104, False), (0x1000D8, 0x1000, True)]
       - {(unat (0x100070 :: u64), 104)}"
  by (rule free_releases_and_coalesces [OF example_used_heap_rel]) simp_all


end
