(* ===== verification/Machine.thy ===== *)
theory Machine
  imports Pmm
begin

text \<open>
  What the memory code assumes of the machine: the boot loader's answers, the address
  translations of \<^verbatim>\<open>src/mm/vmm.c\<close> built on them, the kernel's memory as 64-bit words, and
  the page table entries of the two architectures (\<^verbatim>\<open>src/arch/x86_64/mm/paging.c\<close> and
  \<^verbatim>\<open>src/arch/riscv64/mm/paging.c\<close>). The functions that both files define stand in a record
  \<open>arch_ops\<close>, and the locale \<open>pte_arch\<close> states the laws the architecture-independent code
  relies on; it is interpreted on both records.
\<close>

unbundle bit_operations_syntax

section \<open>Boot environment and address translation\<close>

datatype bootloader = GRUB | LIMINE

text \<open>
  The build's boot loader, the responses of the HHDM request (its offset) and of the
  executable address request (virtual and physical base), and the address of \<open>_end\<close>.
\<close>

record boot_env =
  boot_with :: bootloader
  hhdm_response :: "u64 option"
  exec_addr_response :: "(u64 \<times> u64) option"
  image_end :: u64

definition kernel_virt_to_phys :: "'b boot_env_scheme \<Rightarrow> u64 \<Rightarrow> u64" where
  "kernel_virt_to_phys K addr =
     (case (boot_with K, exec_addr_response K) of
        (LIMINE, Some (vbase, pbase)) \<Rightarrow> addr - vbase + pbase
      | _ \<Rightarrow> addr - 0xffffffff80000000 + 0x200000)"

definition hhdm_virt_to_phys :: "'b boot_env_scheme \<Rightarrow> u64 \<Rightarrow> u64" where
  "hhdm_virt_to_phys K addr =
     (case (boot_with K, hhdm_response K) of
        (LIMINE, Some offset) \<Rightarrow> addr - offset
      | _ \<Rightarrow> addr - 0xffff800000000000)"

definition phys_to_virt :: "'b boot_env_scheme \<Rightarrow> u64 \<Rightarrow> u64" where
  "phys_to_virt K phys =
     (case boot_with K of
        GRUB \<Rightarrow> phys + 0xffff800000000000
      | LIMINE \<Rightarrow> (case hhdm_response K of Some offset \<Rightarrow> offset + phys | None \<Rightarrow> phys))"

text \<open>The two translations undo each other, unless Limine gives no HHDM response.\<close>

definition hhdm_known :: "'b boot_env_scheme \<Rightarrow> bool" where
  "hhdm_known K \<longleftrightarrow> boot_with K = LIMINE \<longrightarrow> hhdm_response K \<noteq> None"

lemma virt_phys_inverse:
  assumes "hhdm_known K"
  shows "phys_to_virt K (hhdm_virt_to_phys K v) = v" "hhdm_virt_to_phys K (phys_to_virt K p) = p"
  using assms by (cases "boot_with K"; auto simp: hhdm_known_def phys_to_virt_def hhdm_virt_to_phys_def)+

text \<open>The offset of the direct map, which the boot loader puts on a page boundary.\<close>

definition hhdm_base :: "'b boot_env_scheme \<Rightarrow> u64" where
  "hhdm_base K = phys_to_virt K 0"

lemma phys_to_virt_base: "phys_to_virt K p = hhdm_base K + p"
  by (auto simp: hhdm_base_def phys_to_virt_def split: bootloader.splits option.splits)

section \<open>Kernel memory\<close>

text \<open>
  The memory behind page tables, user pages and page lists, read as 64-bit words at
  addresses divisible by 8. \<open>memset\<close> and \<open>memcpy\<close> of whole words act on it directly.
\<close>

record mem_state = heap_state +
  kmem :: "u64 \<Rightarrow> u64"

definition memset_words :: "u64 \<Rightarrow> u64 \<Rightarrow> u64 \<Rightarrow> (u64 \<Rightarrow> u64) \<Rightarrow> (u64 \<Rightarrow> u64)" where
  "memset_words d v n m = (\<lambda>x. if x - d < n then v else m x)"

definition memcpy_words :: "u64 \<Rightarrow> u64 \<Rightarrow> u64 \<Rightarrow> (u64 \<Rightarrow> u64) \<Rightarrow> (u64 \<Rightarrow> u64)" where
  "memcpy_words d s n m = (\<lambda>x. if x - d < n then m (s + (x - d)) else m x)"

section \<open>Page table entries\<close>

type_synonym vm_flags = u32

definition VMF_WRITE :: vm_flags where "VMF_WRITE = push_bit 0 1"
definition VMF_USER :: vm_flags where "VMF_USER = push_bit 1 1"
definition VMF_EXEC :: vm_flags where "VMF_EXEC = push_bit 2 1"
definition VMF_GLOBAL :: vm_flags where "VMF_GLOBAL = push_bit 3 1"

lemmas VMF_defs = VMF_WRITE_def VMF_USER_def VMF_EXEC_def VMF_GLOBAL_def

text \<open>\<open>PT_TOP_LEVEL\<close>, and the index of an address in a table of the given level.\<close>

abbreviation (input) PT_TOP_LEVEL :: nat where "PT_TOP_LEVEL \<equiv> 3"

definition pt_index :: "u64 \<Rightarrow> nat \<Rightarrow> u64" where
  "pt_index virt level = drop_bit (12 + level * 9) virt AND 0x1FF"

datatype tlb_op = Flush_Page u64 | Flush_All

record arch_ops =
  pte_table :: "u64 \<Rightarrow> u64"
  pte_leaf :: "u64 \<Rightarrow> vm_flags \<Rightarrow> bool \<Rightarrow> u64"
  pte_with_flags :: "u64 \<Rightarrow> vm_flags \<Rightarrow> u64"
  pte_set_exec :: "u64 \<Rightarrow> bool \<Rightarrow> u64"
  pte_child_leaf :: "u64 \<Rightarrow> u64 \<Rightarrow> nat \<Rightarrow> u64"
  pte_with_phys :: "u64 \<Rightarrow> u64 \<Rightarrow> u64"
  pte_present :: "u64 \<Rightarrow> bool"
  pte_is_leaf :: "u64 \<Rightarrow> nat \<Rightarrow> bool"
  pte_phys :: "u64 \<Rightarrow> u64"
  tlb_flush_range :: "u64 \<Rightarrow> u64 \<Rightarrow> tlb_op list option"
  root_phys :: "u64 \<Rightarrow> u64"

text \<open>The loop \<open>for (addr = start; addr < end; addr += 0x1000)\<close> of both flush functions.\<close>

partial_function (option) tlb_flush_loop :: "u64 \<Rightarrow> u64 \<Rightarrow> tlb_op list \<Rightarrow> tlb_op list option" where
  "tlb_flush_loop addr fin acc =
     (if addr < fin then tlb_flush_loop (addr + 0x1000) fin (acc @ [Flush_Page addr]) else Some acc)"

subsection \<open>x86-64\<close>

definition PAGE_PRESENT :: u64 where "PAGE_PRESENT = push_bit 0 1"
definition PAGE_RW :: u64 where "PAGE_RW = push_bit 1 1"
definition PAGE_USER :: u64 where "PAGE_USER = push_bit 2 1"
definition PAGE_HUGE :: u64 where "PAGE_HUGE = push_bit 7 1"
definition PAGE_NX :: u64 where "PAGE_NX = push_bit 63 1"
definition PAGE_GLOBAL :: u64 where "PAGE_GLOBAL = 0x100"
definition PAGE_PHYS_MASK :: u64 where "PAGE_PHYS_MASK = 0x000FFFFFFFFFF000"

definition x86_pte_table :: "u64 \<Rightarrow> u64" where
  "x86_pte_table child_phys = (child_phys AND PAGE_PHYS_MASK) OR PAGE_PRESENT OR PAGE_RW OR PAGE_USER"

definition x86_flag_bits :: "vm_flags \<Rightarrow> u64" where
  "x86_flag_bits flags =
     (if flags AND VMF_WRITE \<noteq> 0 then PAGE_RW else 0) OR
     (if flags AND VMF_USER \<noteq> 0 then PAGE_USER else 0) OR
     (if flags AND VMF_EXEC = 0 then PAGE_NX else 0) OR
     (if flags AND VMF_GLOBAL \<noteq> 0 then PAGE_GLOBAL else 0)"

definition x86_pte_leaf :: "u64 \<Rightarrow> vm_flags \<Rightarrow> bool \<Rightarrow> u64" where
  "x86_pte_leaf phys flags huge =
     ((phys AND PAGE_PHYS_MASK) OR PAGE_PRESENT) OR x86_flag_bits flags OR (if huge then PAGE_HUGE else 0)"

definition x86_pte_with_flags :: "u64 \<Rightarrow> vm_flags \<Rightarrow> u64" where
  "x86_pte_with_flags existing flags =
     (existing AND (PAGE_PHYS_MASK OR PAGE_HUGE OR PAGE_PRESENT)) OR x86_flag_bits flags"

definition x86_pte_set_exec :: "u64 \<Rightarrow> bool \<Rightarrow> u64" where
  "x86_pte_set_exec pte executable = (if executable then pte AND NOT PAGE_NX else pte OR PAGE_NX)"

definition x86_pte_child_leaf :: "u64 \<Rightarrow> u64 \<Rightarrow> nat \<Rightarrow> u64" where
  "x86_pte_child_leaf parent child_phys child_level =
     (let flag_bits = parent AND (0xFFF OR PAGE_NX);
          pte = (child_phys AND PAGE_PHYS_MASK) OR flag_bits
      in if 0 < child_level then pte OR PAGE_HUGE else pte AND NOT PAGE_HUGE)"

definition x86_pte_with_phys :: "u64 \<Rightarrow> u64 \<Rightarrow> u64" where
  "x86_pte_with_phys existing phys = (existing AND NOT PAGE_PHYS_MASK) OR (phys AND PAGE_PHYS_MASK)"

definition x86_pte_present :: "u64 \<Rightarrow> bool" where
  "x86_pte_present pte \<longleftrightarrow> pte AND PAGE_PRESENT \<noteq> 0"

definition x86_pte_is_leaf :: "u64 \<Rightarrow> nat \<Rightarrow> bool" where
  "x86_pte_is_leaf pte level \<longleftrightarrow> level = 0 \<or> pte AND PAGE_HUGE \<noteq> 0"

definition x86_pte_phys :: "u64 \<Rightarrow> u64" where
  "x86_pte_phys pte = pte AND PAGE_PHYS_MASK"

definition x86_tlb_flush_range :: "u64 \<Rightarrow> u64 \<Rightarrow> tlb_op list option" where
  "x86_tlb_flush_range virt_start sz = tlb_flush_loop (virt_start AND NOT 0xFFF) (virt_start + sz) []"

text \<open>The physical address of the root table in \<open>cr3\<close>, and below in \<open>satp\<close>.\<close>

definition x86_root_phys :: "u64 \<Rightarrow> u64" where
  "x86_root_phys cr3 = cr3 AND 0x000FFFFFFFFFF000"

definition x86_64 :: arch_ops where
  "x86_64 = \<lparr>pte_table = x86_pte_table, pte_leaf = x86_pte_leaf, pte_with_flags = x86_pte_with_flags,
     pte_set_exec = x86_pte_set_exec, pte_child_leaf = x86_pte_child_leaf,
     pte_with_phys = x86_pte_with_phys, pte_present = x86_pte_present,
     pte_is_leaf = x86_pte_is_leaf, pte_phys = x86_pte_phys, tlb_flush_range = x86_tlb_flush_range,
     root_phys = x86_root_phys\<rparr>"

subsection \<open>RISC-V\<close>

definition RV_PTE_V :: u64 where "RV_PTE_V = push_bit 0 1"
definition RV_PTE_R :: u64 where "RV_PTE_R = push_bit 1 1"
definition RV_PTE_W :: u64 where "RV_PTE_W = push_bit 2 1"
definition RV_PTE_X :: u64 where "RV_PTE_X = push_bit 3 1"
definition RV_PTE_U :: u64 where "RV_PTE_U = push_bit 4 1"
definition RV_PTE_G :: u64 where "RV_PTE_G = push_bit 5 1"
definition RV_PTE_A :: u64 where "RV_PTE_A = push_bit 6 1"
definition RV_PTE_D :: u64 where "RV_PTE_D = push_bit 7 1"

definition rv_phys_to_ppn :: "u64 \<Rightarrow> u64" where
  "rv_phys_to_ppn phys = push_bit 10 (drop_bit 12 phys)"

definition rv_ppn_to_phys :: "u64 \<Rightarrow> u64" where
  "rv_ppn_to_phys pte = push_bit 12 (drop_bit 10 pte)"

definition rv_pte_table :: "u64 \<Rightarrow> u64" where
  "rv_pte_table child_phys = rv_phys_to_ppn child_phys OR RV_PTE_V"

definition rv_flag_bits :: "vm_flags \<Rightarrow> u64" where
  "rv_flag_bits flags =
     (if flags AND VMF_WRITE \<noteq> 0 then RV_PTE_W else 0) OR
     (if flags AND VMF_EXEC \<noteq> 0 then RV_PTE_X else 0) OR
     (if flags AND VMF_USER \<noteq> 0 then RV_PTE_U else 0) OR
     (if flags AND VMF_GLOBAL \<noteq> 0 then RV_PTE_G else 0)"

definition rv_pte_leaf :: "u64 \<Rightarrow> vm_flags \<Rightarrow> bool \<Rightarrow> u64" where
  "rv_pte_leaf phys flags huge =
     (rv_phys_to_ppn phys OR RV_PTE_V OR RV_PTE_A OR RV_PTE_D OR RV_PTE_R) OR rv_flag_bits flags"

definition rv_pte_with_flags :: "u64 \<Rightarrow> vm_flags \<Rightarrow> u64" where
  "rv_pte_with_flags existing flags =
     ((existing AND NOT (RV_PTE_R OR RV_PTE_W OR RV_PTE_X OR RV_PTE_U OR RV_PTE_G))
       OR RV_PTE_V OR RV_PTE_A OR RV_PTE_D OR RV_PTE_R) OR rv_flag_bits flags"

definition rv_pte_set_exec :: "u64 \<Rightarrow> bool \<Rightarrow> u64" where
  "rv_pte_set_exec pte executable = (if executable then pte OR RV_PTE_X else pte AND NOT RV_PTE_X)"

definition rv_pte_child_leaf :: "u64 \<Rightarrow> u64 \<Rightarrow> nat \<Rightarrow> u64" where
  "rv_pte_child_leaf parent child_phys child_level = rv_phys_to_ppn child_phys OR (parent AND 0x3FF)"

definition rv_pte_with_phys :: "u64 \<Rightarrow> u64 \<Rightarrow> u64" where
  "rv_pte_with_phys existing phys = (existing AND (push_bit 10 1 - 1)) OR rv_phys_to_ppn phys"

definition rv_pte_present :: "u64 \<Rightarrow> bool" where
  "rv_pte_present pte \<longleftrightarrow> pte AND RV_PTE_V \<noteq> 0"

definition rv_pte_is_leaf :: "u64 \<Rightarrow> nat \<Rightarrow> bool" where
  "rv_pte_is_leaf pte level \<longleftrightarrow> level = 0 \<or> pte AND (RV_PTE_R OR RV_PTE_W OR RV_PTE_X) \<noteq> 0"

definition rv_tlb_flush_range :: "u64 \<Rightarrow> u64 \<Rightarrow> tlb_op list option" where
  "rv_tlb_flush_range virt_start sz =
     (if 0x40000 < sz then Some [Flush_All]
      else tlb_flush_loop (virt_start AND NOT 0xFFF) (virt_start + sz) [])"

definition rv_root_phys :: "u64 \<Rightarrow> u64" where
  "rv_root_phys satp = push_bit 12 (satp AND 0x00000FFFFFFFFFFF)"

definition riscv64 :: arch_ops where
  "riscv64 = \<lparr>pte_table = rv_pte_table, pte_leaf = rv_pte_leaf, pte_with_flags = rv_pte_with_flags,
     pte_set_exec = rv_pte_set_exec, pte_child_leaf = rv_pte_child_leaf,
     pte_with_phys = rv_pte_with_phys, pte_present = rv_pte_present,
     pte_is_leaf = rv_pte_is_leaf, pte_phys = rv_ppn_to_phys, tlb_flush_range = rv_tlb_flush_range,
     root_phys = rv_root_phys\<rparr>"

section \<open>Laws of the page table entries\<close>

lemma bit_push_bit_1: "bit (push_bit k (1 :: 'a::len word)) n \<longleftrightarrow> n = k \<and> k < LENGTH('a)"
  by (simp only: bit_push_bit_iff bit_1_iff) (auto simp: not_le)

lemma word_zero_bit: "(x :: 'a::len word) = 0 \<longleftrightarrow> (\<forall>n. \<not> bit x n)"
  by (auto intro!: bit_word_eqI)

lemma and_push_bit_1: "(x :: 'a::len word) AND push_bit k 1 = 0 \<longleftrightarrow> \<not> bit x k"
proof -
  have "\<And>n. bit (x AND push_bit k 1) n \<longleftrightarrow> bit x k \<and> n = k"
    by (simp only: bit_and_iff bit_push_bit_1) (auto dest: bit_imp_le_length)
  then show ?thesis unfolding word_zero_bit [of "x AND push_bit k 1"] by blast
qed

lemma bit_x86 [simp]:
  "bit PAGE_PRESENT n \<longleftrightarrow> n = 0" "bit PAGE_RW n \<longleftrightarrow> n = 1" "bit PAGE_USER n \<longleftrightarrow> n = 2"
  "bit PAGE_HUGE n \<longleftrightarrow> n = 7" "bit PAGE_NX n \<longleftrightarrow> n = 63" "bit PAGE_GLOBAL n \<longleftrightarrow> n = 8"
  "bit PAGE_PHYS_MASK n \<longleftrightarrow> 12 \<le> n \<and> n < 52"
proof -
  have g: "PAGE_GLOBAL = push_bit 8 1" and p: "PAGE_PHYS_MASK = push_bit 12 (mask 40)"
    by (simp_all add: PAGE_GLOBAL_def PAGE_PHYS_MASK_def mask_numeral)
  show "bit PAGE_GLOBAL n \<longleftrightarrow> n = 8" by (simp only: g bit_push_bit_1) simp
  show "bit PAGE_PHYS_MASK n \<longleftrightarrow> 12 \<le> n \<and> n < 52"
    by (simp only: p bit_push_bit_iff bit_mask_iff) auto
qed (simp_all only: PAGE_PRESENT_def PAGE_RW_def PAGE_USER_def PAGE_HUGE_def PAGE_NX_def
    bit_push_bit_1, simp_all)

lemma bit_riscv [simp]:
  "bit RV_PTE_V n \<longleftrightarrow> n = 0" "bit RV_PTE_R n \<longleftrightarrow> n = 1" "bit RV_PTE_W n \<longleftrightarrow> n = 2"
  "bit RV_PTE_X n \<longleftrightarrow> n = 3" "bit RV_PTE_U n \<longleftrightarrow> n = 4" "bit RV_PTE_G n \<longleftrightarrow> n = 5"
  "bit RV_PTE_A n \<longleftrightarrow> n = 6" "bit RV_PTE_D n \<longleftrightarrow> n = 7"
  by (simp_all only: RV_PTE_V_def RV_PTE_R_def RV_PTE_W_def RV_PTE_X_def RV_PTE_U_def RV_PTE_G_def
      RV_PTE_A_def RV_PTE_D_def bit_push_bit_1, simp_all)

lemma bit_low_masks:
  "bit (0xFFF :: u64) n \<longleftrightarrow> n < 12" "bit (0x3FF :: u64) n \<longleftrightarrow> n < 10" "bit (0x1FF :: u64) n \<longleftrightarrow> n < 9"
proof -
  have m: "(0xFFF :: u64) = mask 12" "(0x3FF :: u64) = mask 10" "(0x1FF :: u64) = mask 9"
    by (simp_all add: mask_numeral)
  show "bit (0xFFF :: u64) n \<longleftrightarrow> n < 12" "bit (0x3FF :: u64) n \<longleftrightarrow> n < 10"
    "bit (0x1FF :: u64) n \<longleftrightarrow> n < 9"
    by (simp_all only: m bit_mask_iff, auto)
qed

text \<open>What the hardware grants through an entry, and what a set of flags asks for.\<close>

record page_perm =
  p_write :: bool
  p_user :: bool
  p_exec :: bool
  p_global :: bool

definition flags_perm :: "vm_flags \<Rightarrow> page_perm" where
  "flags_perm fl = \<lparr>p_write = bit fl 0, p_user = bit fl 1, p_exec = bit fl 2, p_global = bit fl 3\<rparr>"

definition x86_perm :: "u64 \<Rightarrow> page_perm" where
  "x86_perm e = \<lparr>p_write = bit e 1, p_user = bit e 2, p_exec = (\<not> bit e 63), p_global = bit e 8\<rparr>"

definition rv_perm :: "u64 \<Rightarrow> page_perm" where
  "rv_perm e = \<lparr>p_write = bit e 2, p_user = bit e 4, p_exec = bit e 3, p_global = bit e 5\<rparr>"

text \<open>A physical address that both formats can hold: page aligned and below 2^52.\<close>

definition pa_ok :: "u64 \<Rightarrow> bool" where
  "pa_ok p \<longleftrightarrow> p AND PAGE_PHYS_MASK = p"

lemma pa_ok_bit: "pa_ok p \<Longrightarrow> bit p n \<Longrightarrow> 12 \<le> n \<and> n < 52"
  by (metis pa_ok_def bit_and_iff bit_x86(7))

lemma flag_tests:
  "fl AND VMF_WRITE = 0 \<longleftrightarrow> \<not> bit fl 0" "fl AND VMF_USER = 0 \<longleftrightarrow> \<not> bit fl 1"
  "fl AND VMF_EXEC = 0 \<longleftrightarrow> \<not> bit fl 2" "fl AND VMF_GLOBAL = 0 \<longleftrightarrow> \<not> bit fl 3"
  by (simp_all only: VMF_defs and_push_bit_1)

lemma bit_x86_flag_bits: "bit (x86_flag_bits fl) n \<longleftrightarrow>
    (n = 1 \<and> bit fl 0) \<or> (n = 2 \<and> bit fl 1) \<or> (n = 63 \<and> \<not> bit fl 2) \<or> (n = 8 \<and> bit fl 3)"
  by (simp add: x86_flag_bits_def flag_tests bit_or_iff)

lemma bit_rv_flag_bits: "bit (rv_flag_bits fl) n \<longleftrightarrow>
    (n = 2 \<and> bit fl 0) \<or> (n = 3 \<and> bit fl 2) \<or> (n = 4 \<and> bit fl 1) \<or> (n = 5 \<and> bit fl 3)"
  by (simp add: rv_flag_bits_def flag_tests bit_or_iff)

lemma x86_tests:
  "x86_pte_present e \<longleftrightarrow> bit e 0" "x86_pte_is_leaf e l \<longleftrightarrow> l = 0 \<or> bit e 7"
  unfolding x86_pte_present_def x86_pte_is_leaf_def PAGE_PRESENT_def PAGE_HUGE_def and_push_bit_1
  by simp_all

lemma rv_tests:
  "rv_pte_present e \<longleftrightarrow> bit e 0" "rv_pte_is_leaf e l \<longleftrightarrow> l = 0 \<or> bit e 1 \<or> bit e 2 \<or> bit e 3"
proof -
  show "rv_pte_present e \<longleftrightarrow> bit e 0"
    unfolding rv_pte_present_def RV_PTE_V_def and_push_bit_1 by simp
  have "\<And>n. bit (e AND (RV_PTE_R OR RV_PTE_W OR RV_PTE_X)) n \<longleftrightarrow> bit e n \<and> (n = 1 \<or> n = 2 \<or> n = 3)"
    by (simp only: bit_and_iff bit_or_iff bit_riscv)
  then have "e AND (RV_PTE_R OR RV_PTE_W OR RV_PTE_X) = 0 \<longleftrightarrow> \<not> (bit e 1 \<or> bit e 2 \<or> bit e 3)"
    by (simp only: word_zero_bit) auto
  then show "rv_pte_is_leaf e l \<longleftrightarrow> l = 0 \<or> bit e 1 \<or> bit e 2 \<or> bit e 3"
    by (simp add: rv_pte_is_leaf_def)
qed

lemmas x86_bits = x86_pte_table_def x86_pte_leaf_def x86_pte_with_flags_def x86_pte_set_exec_def
  x86_pte_child_leaf_def x86_pte_with_phys_def x86_pte_phys_def x86_perm_def flags_perm_def
  x86_tests bit_x86_flag_bits bit_and_iff bit_or_iff bit_not_iff bit_low_masks Let_def

lemmas rv_bits = rv_pte_table_def rv_pte_leaf_def rv_pte_with_flags_def rv_pte_set_exec_def
  rv_pte_child_leaf_def rv_pte_with_phys_def rv_ppn_to_phys_def rv_phys_to_ppn_def rv_perm_def
  flags_perm_def rv_tests bit_rv_flag_bits bit_and_iff bit_or_iff bit_not_iff bit_low_masks
  bit_push_bit_iff bit_drop_bit_eq

text \<open>
  The flush loop visits every page from a page-aligned start up to the end, provided the
  end is page aligned too; it visits none when the end wraps around to 0.
\<close>

lemma tlb_flush_loop_pages:
  "unat fin = unat addr + 4096 * k \<Longrightarrow> tlb_flush_loop addr fin acc =
     Some (acc @ map (\<lambda>i. Flush_Page (addr + 0x1000 * of_nat i)) [0..<k])"
proof (induction k arbitrary: addr acc)
  case 0
  then show ?case by (simp add: tlb_flush_loop.simps [of addr] word_less_nat_alt)
next
  case (Suc k)
  then have u: "unat (addr + 0x1000) = unat addr + 4096"
    using unat_plus_no_wrap [of addr "0x1000"] unat_u64_less [of fin] by simp
  have "addr < fin" using Suc.prems by (simp add: word_less_nat_alt)
  moreover have "map (\<lambda>i. Flush_Page (addr + 0x1000 + 0x1000 * of_nat i)) [0..<k] =
      map (\<lambda>i. Flush_Page (addr + 0x1000 * of_nat i)) [Suc 0..<Suc k]"
    by (simp add: map_Suc_upt [symmetric] comp_def ring_distribs add.assoc del: upt_Suc)
  ultimately show ?case
    using Suc.IH [of "addr + 0x1000" "acc @ [Flush_Page addr]"] Suc.prems u
    by (simp add: tlb_flush_loop.simps [of addr] upt_conv_Cons [of 0] del: upt_Suc)
qed

lemma tlb_flush_loop_aligned:
  assumes "4096 dvd unat addr" "4096 dvd unat fin"
  shows "tlb_flush_loop addr fin acc =
     Some (acc @ map (\<lambda>i. Flush_Page (addr + 0x1000 * of_nat i)) [0..<(unat fin - unat addr) div 4096])"
proof (cases "unat addr \<le> unat fin")
  case True
  then have "unat fin = unat addr + 4096 * ((unat fin - unat addr) div 4096)"
    using assms by (simp add: dvd_diff_nat)
  then show ?thesis by (rule tlb_flush_loop_pages)
next
  case False
  then show ?thesis by (simp add: tlb_flush_loop.simps [of addr] word_less_nat_alt)
qed

text \<open>The region a level-\<open>l\<close> entry spans, and its first address.\<close>

definition span :: "nat \<Rightarrow> u64" where
  "span level = push_bit (12 + level * 9) 1"

definition region_base :: "u64 \<Rightarrow> nat \<Rightarrow> u64" where
  "region_base virt level = virt AND NOT (span level - 1)"

lemma span_mask: "span level - 1 = mask (12 + level * 9)"
  by (simp add: span_def mask_eq_exp_minus_1)

lemma unat_span: "level \<le> 3 \<Longrightarrow> unat (span level) = 2 ^ (12 + level * 9)"
  by (auto simp: span_def le_Suc_eq numeral_3_eq_3)

lemma unat_region_base: "unat (region_base virt level) = unat virt div 2 ^ (12 + level * 9) * 2 ^ (12 + level * 9)"
  unfolding region_base_def span_mask by (rule unat_and_not_mask)

lemma span_dvd: "4096 dvd (2 :: nat) ^ (12 + level * 9)"
  by (simp add: power_add)

lemma page_dvd_region_end: "level \<le> 3 \<Longrightarrow> 4096 dvd unat (region_base virt level + span level)"
proof -
  assume "level \<le> 3"
  then have "unat (region_base virt level + span level) =
      (unat (region_base virt level) + 2 ^ (12 + level * 9)) mod 2 ^ 64"
    by (simp add: unat_word_ariths unat_span)
  moreover have "4096 dvd unat (region_base virt level) + 2 ^ (12 + level * 9)"
    unfolding unat_region_base by (intro dvd_add dvd_mult span_dvd)
  ultimately show ?thesis by (simp add: dvd_mod)
qed

lemma region_base_dvd: "4096 dvd unat (region_base virt level)"
  unfolding unat_region_base by (rule dvd_mult [OF span_dvd])

lemma region_base_page: "region_base virt level AND NOT 0xFFF = region_base virt level"
proof (rule unsigned_word_eqI)
  have "unat (x AND NOT 0xFFF) = unat x div 4096 * 4096" for x :: u64
    using unat_and_not_mask [of x 12] by (simp add: mask_numeral)
  from this [of "region_base virt level"]
  show "unat (region_base virt level AND NOT 0xFFF) = unat (region_base virt level)"
    using region_base_dvd [of virt level] by (simp only: dvd_div_mult_self)
qed

lemma flush_region_returns:
  assumes "level \<le> 3"
  shows "\<exists>ops. tlb_flush_loop (region_base virt level AND NOT 0xFFF)
           (region_base virt level + span level) acc = Some ops"
  using tlb_flush_loop_aligned [OF region_base_dvd page_dvd_region_end [OF assms]]
  unfolding region_base_page by blast

text \<open>
  The contract between the architecture-independent code and an architecture: what each
  function of \<^verbatim>\<open>include/arch/memory.h\<close> makes of presence, leaf bit, physical address and
  permissions. \<open>perm\<close> reads the permissions the way the hardware does.
\<close>

locale pte_arch =
  fixes A :: arch_ops and perm :: "u64 \<Rightarrow> page_perm"
  assumes zero_absent: "\<not> pte_present A 0"
    and level0_leaf: "pte_is_leaf A e 0"
    and table_entry: "pa_ok p \<Longrightarrow> pte_present A (pte_table A p) \<and> pte_phys A (pte_table A p) = p \<and>
          (0 < l \<longrightarrow> \<not> pte_is_leaf A (pte_table A p) l)"
    and leaf_entry: "pa_ok p \<Longrightarrow> pte_present A (pte_leaf A p fl huge) \<and>
          pte_phys A (pte_leaf A p fl huge) = p \<and> perm (pte_leaf A p fl huge) = flags_perm fl \<and>
          (huge \<longrightarrow> pte_is_leaf A (pte_leaf A p fl huge) l)"
    and with_flags: "pte_present A e \<Longrightarrow> pte_is_leaf A e l \<Longrightarrow> pte_present A (pte_with_flags A e fl) \<and>
          pte_is_leaf A (pte_with_flags A e fl) l \<and>
          pte_phys A (pte_with_flags A e fl) = pte_phys A e \<and> perm (pte_with_flags A e fl) = flags_perm fl"
    and set_exec: "perm (pte_set_exec A e x) = (perm e)\<lparr>p_exec := x\<rparr> \<and>
          pte_phys A (pte_set_exec A e x) = pte_phys A e \<and>
          pte_present A (pte_set_exec A e x) = pte_present A e"
    and child_leaf: "pte_present A e \<Longrightarrow> pte_is_leaf A e (Suc l) \<Longrightarrow> pa_ok p \<Longrightarrow>
          pte_present A (pte_child_leaf A e p l) \<and> pte_is_leaf A (pte_child_leaf A e p l) l \<and>
          pte_phys A (pte_child_leaf A e p l) = p \<and> perm (pte_child_leaf A e p l) = perm e"
    and with_phys: "pa_ok p \<Longrightarrow> pte_phys A (pte_with_phys A e p) = p \<and>
          pte_present A (pte_with_phys A e p) = pte_present A e \<and> perm (pte_with_phys A e p) = perm e"
    and flush_returns: "l \<le> 3 \<Longrightarrow> \<exists>ops. tlb_flush_range A (region_base v l) (span l) = Some ops"

text \<open>The bits of the entries the code builds.\<close>

lemma bit_x86_child: "bit (x86_pte_child_leaf e p l) n \<longleftrightarrow>
    (if n = 7 then 0 < l else bit p n \<and> 12 \<le> n \<and> n < 52 \<or> bit e n \<and> (n < 12 \<or> n = 63))"
  unfolding x86_pte_child_leaf_def Let_def
  by (cases "0 < l"; simp only: if_True if_False bit_and_iff bit_or_iff bit_not_iff bit_low_masks
      bit_x86 possible_bit_word) (auto dest: bit_imp_le_length)

lemma bit_rv_ppn: "bit (rv_phys_to_ppn p) n \<longleftrightarrow> 10 \<le> n \<and> bit p (n + 2) \<and> n < 64"
  by (auto simp: rv_phys_to_ppn_def bit_push_bit_iff bit_drop_bit_eq)

lemma bit_rv_phys: "bit (rv_ppn_to_phys e) n \<longleftrightarrow> 12 \<le> n \<and> bit e (n - 2) \<and> n < 64"
  by (auto simp: rv_ppn_to_phys_def bit_push_bit_iff bit_drop_bit_eq)

lemma bit_rv_child: "bit (rv_pte_child_leaf e p l) n \<longleftrightarrow>
    10 \<le> n \<and> bit p (n + 2) \<and> n < 64 \<or> bit e n \<and> n < 10"
  unfolding rv_pte_child_leaf_def by (simp only: bit_or_iff bit_and_iff bit_rv_ppn bit_low_masks)

lemma bit_rv_with_phys: "bit (rv_pte_with_phys e p) n \<longleftrightarrow>
    bit e n \<and> n < 10 \<or> 10 \<le> n \<and> bit p (n + 2) \<and> n < 64"
proof -
  have "push_bit 10 1 - 1 = (0x3FF :: u64)" by simp
  then show ?thesis
    unfolding rv_pte_with_phys_def by (simp only: bit_or_iff bit_and_iff bit_rv_ppn bit_low_masks)
qed

lemma x86_phys_eqI: "(\<And>n. 12 \<le> n \<Longrightarrow> n < 52 \<Longrightarrow> bit e n = bit p n) \<Longrightarrow> pa_ok p \<Longrightarrow> x86_pte_phys e = p"
  unfolding x86_pte_phys_def pa_ok_def
  by (rule bit_word_eqI) (metis bit_and_iff bit_x86(7))

lemma rv_phys_eqI:
  assumes "\<And>n. 10 \<le> n \<Longrightarrow> n < 62 \<Longrightarrow> bit e n = bit p (n + 2)" "pa_ok p"
  shows "rv_ppn_to_phys e = p"
proof (rule bit_word_eqI)
  fix n assume "n < LENGTH(64)"
  then have "12 \<le> n \<Longrightarrow> bit e (n - 2) = bit p n"
    using assms(1) [of "n - 2"] by (simp add: numeral_2_eq_2 Suc_diff_Suc)
  then show "bit (rv_ppn_to_phys e) n = bit p n"
    using pa_ok_bit [OF assms(2), of n] \<open>n < LENGTH(64)\<close> by (auto simp: bit_rv_phys)
qed

interpretation x86: pte_arch x86_64 x86_perm
proof (unfold_locales, goal_cases)
  case (7 e l p)
  then show ?case
    by (auto simp: x86_64_def bit_x86_child x86_tests x86_perm_def intro!: x86_phys_eqI)
next
  case (9 l v)
  then show ?case
    using flush_region_returns by (simp add: x86_64_def x86_tlb_flush_range_def)
qed (auto simp: x86_64_def x86_bits dest: pa_ok_bit intro!: bit_word_eqI)

lemma rv_table: "pa_ok p \<Longrightarrow> bit (rv_pte_table p) n = (n = 0 \<or> 10 \<le> n \<and> n < 64 \<and> bit p (n + 2))"
  by (auto simp: rv_pte_table_def bit_or_iff bit_rv_ppn)

lemma rv_leaf: "bit (rv_pte_leaf p fl huge) n = (n \<in> {0, 1, 6, 7} \<or> n = 2 \<and> bit fl 0 \<or>
    n = 3 \<and> bit fl 2 \<or> n = 4 \<and> bit fl 1 \<or> n = 5 \<and> bit fl 3 \<or> 10 \<le> n \<and> n < 64 \<and> bit p (n + 2))"
  unfolding rv_pte_leaf_def bit_or_iff bit_rv_ppn bit_rv_flag_bits bit_riscv by auto

lemma rv_with_flags: "bit (rv_pte_with_flags e fl) n = (n \<in> {0, 1, 6, 7} \<or> n = 2 \<and> bit fl 0 \<or>
    n = 3 \<and> bit fl 2 \<or> n = 4 \<and> bit fl 1 \<or> n = 5 \<and> bit fl 3 \<or> 6 \<le> n \<and> bit e n)"
  unfolding rv_pte_with_flags_def bit_or_iff bit_and_iff bit_not_iff bit_rv_flag_bits bit_riscv
  by (auto dest: bit_imp_le_length)

lemma rv_set_exec: "bit (rv_pte_set_exec e x) n = (if n = 3 then x else bit e n)"
  unfolding rv_pte_set_exec_def by (cases x) (auto simp: bit_or_iff bit_and_iff bit_not_iff dest: bit_imp_le_length)

lemma rv_phys_cong: "(\<And>n. 10 \<le> n \<Longrightarrow> bit e n = bit e' n) \<Longrightarrow> rv_ppn_to_phys e = rv_ppn_to_phys e'"
  by (rule bit_word_eqI) (auto simp: bit_rv_phys)

interpretation riscv: pte_arch riscv64 rv_perm
proof (unfold_locales, goal_cases)
  case (3 p l)
  have "rv_ppn_to_phys (rv_pte_table p) = p"
    using 3 by (intro rv_phys_eqI) (auto simp: rv_table)
  with 3 show ?case by (simp add: riscv64_def rv_tests rv_table)
next
  case (4 p fl huge l)
  then have "rv_ppn_to_phys (rv_pte_leaf p fl huge) = p"
    by (intro rv_phys_eqI) (auto simp: rv_leaf)
  then show ?case by (simp add: riscv64_def rv_tests rv_leaf rv_perm_def flags_perm_def)
next
  case (5 e l fl)
  have "rv_ppn_to_phys (rv_pte_with_flags e fl) = rv_ppn_to_phys e"
    by (rule rv_phys_cong) (auto simp: rv_with_flags)
  then show ?case by (simp add: riscv64_def rv_tests rv_with_flags rv_perm_def flags_perm_def)
next
  case (6 e x)
  have "rv_ppn_to_phys (rv_pte_set_exec e x) = rv_ppn_to_phys e"
    by (rule rv_phys_cong) (auto simp: rv_set_exec)
  then show ?case by (simp add: riscv64_def rv_tests rv_set_exec rv_perm_def)
next
  case (7 e l p)
  then have "rv_ppn_to_phys (rv_pte_child_leaf e p l) = p"
    by (intro rv_phys_eqI) (auto simp: bit_rv_child)
  with 7 show ?case by (simp add: riscv64_def rv_tests bit_rv_child rv_perm_def)
next
  case (8 p e)
  then have "rv_ppn_to_phys (rv_pte_with_phys e p) = p"
    by (intro rv_phys_eqI) (auto simp: bit_rv_with_phys)
  then show ?case by (simp add: riscv64_def rv_tests bit_rv_with_phys rv_perm_def)
next
  case (9 l v)
  then show ?case
    using flush_region_returns by (simp add: riscv64_def rv_tlb_flush_range_def)
qed (simp_all add: riscv64_def rv_tests)

text \<open>The last huge page of the address space: its end wraps to 0, and no page is flushed.\<close>

lemma x86_flush_top_region: "x86_tlb_flush_range 0xFFFFFFFFFFE00000 0x200000 = Some []"
  by (simp add: x86_tlb_flush_range_def tlb_flush_loop.simps)

end
