(* ===== verification/Vmm.thy ===== *)
theory Vmm
  imports Machine
begin

text \<open>
  The page table code of \<^verbatim>\<open>src/mm/vmm.c\<close>: building, changing, sharing, copying and freeing
  the four-level tables, over the entries of either architecture.

  Tables, user pages and page lists live in \<open>kmem\<close>, at the virtual addresses the kernel
  uses for them. A C \<open>int\<close> status is an \<open>int\<close>; a walk that can leave its function early
  answers \<open>Inl\<close> of the status, or \<open>Inr\<close> of the table it reached. The flushes of the TLB
  are recorded in \<open>tlb_log\<close>.
\<close>

unbundle bit_operations_syntax

section \<open>The code\<close>

record kernel_build = boot_env +
  arch :: arch_ops

record vm_state = mem_state +
  page_table_l4 :: u64
  tlb_log :: "tlb_op list"

definition vmm_init :: "'b kernel_build_scheme \<Rightarrow> u64 \<Rightarrow> 'a vm_state_scheme \<Rightarrow> 'a vm_state_scheme" where
  "vmm_init K root_reg s =
     (if boot_with K = LIMINE
      then s\<lparr>page_table_l4 := phys_to_virt K (root_phys (arch K) root_reg)\<rparr> else s)"

definition kernel_page_table_phys :: "'b boot_env_scheme \<Rightarrow> 'a vm_state_scheme \<Rightarrow> u64" where
  "kernel_page_table_phys K s =
     (case boot_with K of
        GRUB \<Rightarrow> kernel_virt_to_phys K (page_table_l4 s)
      | LIMINE \<Rightarrow> hhdm_virt_to_phys K (page_table_l4 s))"

definition pt_pool_alloc :: "'a mem_state_scheme \<Rightarrow> (u64 \<times> 'a mem_state_scheme) option" where
  "pt_pool_alloc s = do {
     (page, s) \<leftarrow> page_alloc 1 s;
     Some (page, if page = NULL then s else s\<lparr>kmem := memset_words page 0 4096 (kmem s)\<rparr>)
   }"

text \<open>The address of entry \<open>i\<close> of a table.\<close>

definition slot :: "u64 \<Rightarrow> u64 \<Rightarrow> u64" where
  "slot table i = table + 8 * i"

abbreviation store :: "u64 \<Rightarrow> u64 \<Rightarrow> 'a mem_state_scheme \<Rightarrow> 'a mem_state_scheme" where
  "store a v s \<equiv> s\<lparr>kmem := (kmem s)(a := v)\<rparr>"

definition flush_page :: "u64 \<Rightarrow> 'a vm_state_scheme \<Rightarrow> 'a vm_state_scheme" where
  "flush_page virt s = s\<lparr>tlb_log := tlb_log s @ [Flush_Page virt]\<rparr>"

definition flush_range :: "arch_ops \<Rightarrow> u64 \<Rightarrow> u64 \<Rightarrow> 'a vm_state_scheme \<Rightarrow> 'a vm_state_scheme option" where
  "flush_range A start sz s = do {
     ops \<leftarrow> tlb_flush_range A start sz;
     Some (s\<lparr>tlb_log := tlb_log s @ ops\<rparr>)
   }"

text \<open>\<open>split_leaf\<close> replaces the huge page of a slot by a table of smaller leaves.\<close>

definition fill_table :: "u64 \<Rightarrow> (nat \<Rightarrow> u64) \<Rightarrow> (u64 \<Rightarrow> u64) \<Rightarrow> (u64 \<Rightarrow> u64)" where
  "fill_table table f m = fold (\<lambda>i m. m(slot table (of_nat i) := f i)) [0..<512] m"

definition split_leaf ::
  "'b kernel_build_scheme \<Rightarrow> u64 \<Rightarrow> nat \<Rightarrow> 'a vm_state_scheme \<Rightarrow> (int \<times> 'a vm_state_scheme) option" where
  "split_leaf K entry_slot level s = do {
     let old = kmem s entry_slot;
     let base_phys = pte_phys (arch K) old;
     let child_level = level - 1;
     let child_span = push_bit (12 + child_level * 9) 1;
     (new_table, s) \<leftarrow> pt_pool_alloc s;
     if new_table = NULL then Some (- 1, s)
     else do {
       let s = s\<lparr>kmem := fill_table new_table
         (\<lambda>i. pte_child_leaf (arch K) old (base_phys + of_nat i * child_span) child_level) (kmem s)\<rparr>;
       Some (0, store entry_slot (pte_table (arch K) (hhdm_virt_to_phys K new_table)) s)
     }
   }"

text \<open>
  \<open>map_physical_range\<close> maps 2 MiB pages on identical addresses. \<open>n + 1\<close> is the level of the
  table that the inner loop has reached.
\<close>

fun phys_range_walk ::
  "'b kernel_build_scheme \<Rightarrow> u64 \<Rightarrow> nat \<Rightarrow> u64 \<Rightarrow> 'a vm_state_scheme \<Rightarrow> ((int + u64) \<times> 'a vm_state_scheme) option" where
  "phys_range_walk K addr 0 table s = Some (Inr table, s)"
| "phys_range_walk K addr (Suc n) table s =
     (let idx = pt_index addr (n + 2);
          entry = kmem s (slot table idx)
      in if \<not> pte_present (arch K) entry then do {
           (child, s) \<leftarrow> pt_pool_alloc s;
           if child = NULL then Some (Inl (- 1), s)
           else phys_range_walk K addr n child
                  (store (slot table idx) (pte_table (arch K) (hhdm_virt_to_phys K child)) s)
         }
         else phys_range_walk K addr n (phys_to_virt K (pte_phys (arch K) entry)) s)"

partial_function (option) phys_range_loop ::
  "'b kernel_build_scheme \<Rightarrow> u64 \<Rightarrow> u64 \<Rightarrow> vm_flags \<Rightarrow> 'a vm_state_scheme \<Rightarrow> (int \<times> 'a vm_state_scheme) option" where
  "phys_range_loop K addr fin flags s =
     (if addr < fin
      then case phys_range_walk K addr 2 (page_table_l4 s) s of
        None \<Rightarrow> None
      | Some (Inl r, s) \<Rightarrow> Some (r, s)
      | Some (Inr table, s) \<Rightarrow>
          phys_range_loop K (addr + 0x200000) fin flags
            (store (slot table (pt_index addr 1)) (pte_leaf (arch K) (addr AND NOT (0x200000 - 1)) flags True) s)
      else Some (0, s))"

definition map_physical_range ::
  "'b kernel_build_scheme \<Rightarrow> u64 \<Rightarrow> u64 \<Rightarrow> vm_flags \<Rightarrow> 'a vm_state_scheme \<Rightarrow> (int \<times> 'a vm_state_scheme) option" where
  "map_physical_range K phys_start sz flags s = phys_range_loop K phys_start (phys_start + sz) flags s"

text \<open>
  The common body of \<open>set_page_permissions\<close> and \<open>set_page_executable\<close>: the leaf that maps
  \<open>virt\<close>, huge or not, is replaced by \<open>f\<close> of it.
\<close>

fun update_leaf ::
  "'b kernel_build_scheme \<Rightarrow> (u64 \<Rightarrow> u64) \<Rightarrow> u64 \<Rightarrow> nat \<Rightarrow> u64 \<Rightarrow> 'a vm_state_scheme \<Rightarrow> 'a vm_state_scheme" where
  "update_leaf K f virt level table s =
     (let idx = pt_index virt level;
          entry = kmem s (slot table idx)
      in if \<not> pte_present (arch K) entry then s
         else case level of
           0 \<Rightarrow> flush_page virt (store (slot table idx) (f entry) s)
         | Suc l \<Rightarrow>
             if pte_is_leaf (arch K) entry level
             then flush_page virt (store (slot table idx) (f entry) s)
             else update_leaf K f virt l (phys_to_virt K (pte_phys (arch K) entry)) s)"

declare update_leaf.simps [simp del]

definition set_page_permissions ::
  "'b kernel_build_scheme \<Rightarrow> u64 \<Rightarrow> vm_flags \<Rightarrow> 'a vm_state_scheme \<Rightarrow> 'a vm_state_scheme" where
  "set_page_permissions K virt flags s =
     update_leaf K (\<lambda>e. pte_with_flags (arch K) e flags) virt PT_TOP_LEVEL (page_table_l4 s) s"

definition set_page_executable ::
  "'b kernel_build_scheme \<Rightarrow> u64 \<Rightarrow> bool \<Rightarrow> 'a vm_state_scheme \<Rightarrow> 'a vm_state_scheme" where
  "set_page_executable K virt executable s =
     update_leaf K (\<lambda>e. pte_set_exec (arch K) e executable) virt PT_TOP_LEVEL (page_table_l4 s) s"

text \<open>Freeing tables: the tables below \<open>table\<close>, then the table itself; never the pages mapped.\<close>

primrec free_table_level ::
  "nat \<Rightarrow> 'b kernel_build_scheme \<Rightarrow> u64 \<Rightarrow> 'a vm_state_scheme \<Rightarrow> 'a vm_state_scheme option" where
  "free_table_level 0 K table s = free table s"
| "free_table_level (Suc l) K table s = do {
     s \<leftarrow> for_each (\<lambda>i s.
            let entry = kmem s (slot table (of_nat i)) in
            if \<not> pte_present (arch K) entry \<or> pte_is_leaf (arch K) entry (Suc l) then Some s
            else free_table_level l K (phys_to_virt K (pte_phys (arch K) entry)) s) [0..<512] s;
     free table s
   }"

definition free_page_table ::
  "'b kernel_build_scheme \<Rightarrow> u64 \<Rightarrow> 'a vm_state_scheme \<Rightarrow> 'a vm_state_scheme option" where
  "free_page_table K l4_table s =
     (if l4_table = NULL then Some s
      else do {
        s \<leftarrow> for_each (\<lambda>i s.
               let entry = kmem s (slot l4_table (of_nat i)) in
               if \<not> pte_present (arch K) entry \<or> pte_is_leaf (arch K) entry PT_TOP_LEVEL then Some s
               else free_table_level (PT_TOP_LEVEL - 1) K (phys_to_virt K (pte_phys (arch K) entry)) s)
             [0..<256] s;
        free l4_table s
      })"

section \<open>Page lists\<close>

record vm_page_list =
  pl_pages :: u64
  pl_count :: u64
  pl_cap :: u64

definition vm_page_list_add ::
  "vm_page_list \<Rightarrow> u64 \<Rightarrow> 'a mem_state_scheme \<Rightarrow> (int \<times> vm_page_list \<times> 'a mem_state_scheme) option" where
  "vm_page_list_add l page s = do {
     (r, l, s) \<leftarrow>
       (if pl_count l = pl_cap l then do {
          let new_cap = (if pl_cap l \<noteq> 0 then pl_cap l * 2 else 64);
          (np, s) \<leftarrow> malloc (new_cap * 8) s;
          if np = NULL then Some (- 1 :: int, l, s)
          else do {
            s \<leftarrow> (if pl_pages l \<noteq> NULL
                  then free (pl_pages l) (s\<lparr>kmem := memcpy_words np (pl_pages l) (pl_count l * 8) (kmem s)\<rparr>)
                  else Some s);
            Some (0, l\<lparr>pl_pages := np, pl_cap := new_cap\<rparr>, s)
          }
        }
        else Some (0, l, s));
     if r \<noteq> 0 then Some (- 1, l, s)
     else Some (0, l\<lparr>pl_count := pl_count l + 1\<rparr>, store (slot (pl_pages l) (pl_count l)) page s)
   }"

partial_function (option) page_list_free_loop ::
  "u64 \<Rightarrow> vm_page_list \<Rightarrow> 'a mem_state_scheme \<Rightarrow> 'a mem_state_scheme option" where
  "page_list_free_loop i l s =
     (if i < pl_count l
      then case free (kmem s (slot (pl_pages l) i)) s of
             None \<Rightarrow> None
           | Some s' \<Rightarrow> page_list_free_loop (i + 1) l s'
      else Some s)"

definition vm_page_list_free ::
  "vm_page_list \<Rightarrow> 'a mem_state_scheme \<Rightarrow> (vm_page_list \<times> 'a mem_state_scheme) option" where
  "vm_page_list_free l s = do {
     s \<leftarrow> page_list_free_loop 0 l s;
     s \<leftarrow> (if pl_pages l \<noteq> NULL then free (pl_pages l) s else Some s);
     Some (\<lparr>pl_pages = NULL, pl_count = 0, pl_cap = 0\<rparr>, s)
   }"

section \<open>Address spaces\<close>

definition level_entries :: "nat \<Rightarrow> nat" where
  "level_entries level = (if level = PT_TOP_LEVEL then 512 div 2 else 512)"

primrec clone_user_level ::
  "nat \<Rightarrow> 'b kernel_build_scheme \<Rightarrow> u64 \<Rightarrow> u64 \<Rightarrow> u64 \<Rightarrow> u64 \<Rightarrow> u64 \<Rightarrow>
   vm_page_list \<times> 'a vm_state_scheme \<Rightarrow> (int \<times> vm_page_list \<times> 'a vm_state_scheme) option" where
  "clone_user_level 0 K src dst va_base skip_lo skip_hi st =
     try_each (\<lambda>i (owned, s).
       let entry = kmem s (slot src (of_nat i));
           va = va_base OR push_bit 12 (of_nat i)
       in if \<not> pte_present (arch K) entry then Some (0, owned, s)
          else if skip_lo \<le> va \<and> va < skip_hi then Some (0, owned, s)
          else do {
            (page, s) \<leftarrow> pt_pool_alloc s;
            if page = NULL then Some (- 1, owned, s)
            else do {
              (r, owned, s) \<leftarrow> vm_page_list_add owned page s;
              if r \<noteq> 0 then do { s \<leftarrow> free page s; Some (- 1, owned, s) }
              else do {
                let s = s\<lparr>kmem := memcpy_words page (phys_to_virt K (pte_phys (arch K) entry)) 0x1000 (kmem s)\<rparr>;
                Some (0, owned, store (slot dst (of_nat i))
                                  (pte_with_phys (arch K) entry (hhdm_virt_to_phys K page)) s)
              }
            }
          }) [0..<level_entries 0] st"
| "clone_user_level (Suc l) K src dst va_base skip_lo skip_hi st =
     try_each (\<lambda>i (owned, s).
       let level = Suc l;
           entry = kmem s (slot src (of_nat i));
           va = va_base OR push_bit (12 + level * 9) (of_nat i);
           span = push_bit (12 + level * 9) 1
       in if \<not> pte_present (arch K) entry then Some (0, owned, s)
          else if pte_is_leaf (arch K) entry level then Some (- 1, owned, s)
          else if skip_lo \<le> va \<and> va + span \<le> skip_hi then Some (0, owned, s)
          else do {
            (child, s) \<leftarrow> pt_pool_alloc s;
            if child = NULL then Some (- 1, owned, s)
            else do {
              let s = store (slot dst (of_nat i)) (pte_table (arch K) (hhdm_virt_to_phys K child)) s;
              (r, owned, s) \<leftarrow> clone_user_level l K (phys_to_virt K (pte_phys (arch K) entry)) child va
                                 skip_lo skip_hi (owned, s);
              if r \<noteq> 0 then Some (- 1, owned, s) else Some (0, owned, s)
            }
          }) [0..<level_entries (Suc l)] st"

primrec collect_user_level ::
  "nat \<Rightarrow> 'b kernel_build_scheme \<Rightarrow> u64 \<Rightarrow> u64 \<Rightarrow> u64 \<Rightarrow> u64 \<Rightarrow>
   vm_page_list \<times> 'a vm_state_scheme \<Rightarrow> (int \<times> vm_page_list \<times> 'a vm_state_scheme) option" where
  "collect_user_level 0 K table va_base skip_lo skip_hi st =
     try_each (\<lambda>i (out, s).
       let entry = kmem s (slot table (of_nat i));
           va = va_base OR push_bit 12 (of_nat i)
       in if \<not> pte_present (arch K) entry then Some (0, out, s)
          else if skip_lo \<le> va \<and> va < skip_hi then Some (0, out, s)
          else do {
            (r, out, s) \<leftarrow> vm_page_list_add out (phys_to_virt K (pte_phys (arch K) entry)) s;
            Some (if r \<noteq> 0 then - 1 else 0, out, s)
          }) [0..<level_entries 0] st"
| "collect_user_level (Suc l) K table va_base skip_lo skip_hi st =
     try_each (\<lambda>i (out, s).
       let level = Suc l;
           entry = kmem s (slot table (of_nat i));
           va = va_base OR push_bit (12 + level * 9) (of_nat i)
       in if \<not> pte_present (arch K) entry \<or> pte_is_leaf (arch K) entry level then Some (0, out, s)
          else do {
            (r, out, s) \<leftarrow> collect_user_level l K (phys_to_virt K (pte_phys (arch K) entry)) va
                             skip_lo skip_hi (out, s);
            Some (if r \<noteq> 0 then - 1 else 0, out, s)
          }) [0..<level_entries (Suc l)] st"

definition vm_collect_user_pages ::
  "'b kernel_build_scheme \<Rightarrow> u64 \<Rightarrow> u64 \<Rightarrow> u64 \<Rightarrow> vm_page_list \<Rightarrow> 'a vm_state_scheme \<Rightarrow>
   (int \<times> vm_page_list \<times> 'a vm_state_scheme) option" where
  "vm_collect_user_pages K l4 skip_lo skip_hi out s =
     collect_user_level PT_TOP_LEVEL K l4 0 skip_lo skip_hi (out, s)"

fun user_to_kernel_walk :: "'b kernel_build_scheme \<Rightarrow> (u64 \<Rightarrow> u64) \<Rightarrow> u64 \<Rightarrow> nat \<Rightarrow> u64 \<Rightarrow> u64" where
  "user_to_kernel_walk K m va level table =
     (let entry = m (slot table (pt_index va level)) in
      if \<not> pte_present (arch K) entry then NULL
      else if level = 0 \<or> pte_is_leaf (arch K) entry level
      then phys_to_virt K (pte_phys (arch K) entry) + (va AND (push_bit (12 + level * 9) 1 - 1))
      else user_to_kernel_walk K m va (level - 1) (phys_to_virt K (pte_phys (arch K) entry)))"

declare user_to_kernel_walk.simps [simp del]

definition vm_user_to_kernel :: "'b kernel_build_scheme \<Rightarrow> u64 \<Rightarrow> u64 \<Rightarrow> 'a mem_state_scheme \<Rightarrow> u64" where
  "vm_user_to_kernel K l4 va s = user_to_kernel_walk K (kmem s) va PT_TOP_LEVEL l4"

definition clone_page_table :: "'a vm_state_scheme \<Rightarrow> (u64 \<times> 'a vm_state_scheme) option" where
  "clone_page_table s = do {
     (new_l4, s) \<leftarrow> pt_pool_alloc s;
     if new_l4 = NULL then Some (NULL, s)
     else Some (new_l4, s\<lparr>kmem :=
            fold (\<lambda>i m. m(slot new_l4 (of_nat i) := m (slot (page_table_l4 s) (of_nat i)))) [256..<512]
              (fold (\<lambda>i m. m(slot new_l4 (of_nat i) := 0)) [0..<256] (kmem s))\<rparr>)
   }"

definition clone_user_address_space ::
  "'b kernel_build_scheme \<Rightarrow> u64 \<Rightarrow> u64 \<Rightarrow> u64 \<Rightarrow> vm_page_list \<Rightarrow> 'a vm_state_scheme \<Rightarrow>
   (u64 \<times> vm_page_list \<times> 'a vm_state_scheme) option" where
  "clone_user_address_space K src_l4 skip_lo skip_hi owned s = do {
     (new_l4, s) \<leftarrow> clone_page_table s;
     if new_l4 = NULL then Some (NULL, owned, s)
     else do {
       (r, owned, s) \<leftarrow> clone_user_level PT_TOP_LEVEL K src_l4 new_l4 0 skip_lo skip_hi (owned, s);
       if r \<noteq> 0 then do {
         s \<leftarrow> free_page_table K new_l4 s;
         (owned, s) \<leftarrow> vm_page_list_free owned s;
         Some (NULL, owned, s)
       }
       else Some (new_l4, owned, s)
     }
   }"

section \<open>Single pages\<close>

text \<open>Splitting the huge page a walk meets, with the flush of its region.\<close>

definition split_and_flush ::
  "'b kernel_build_scheme \<Rightarrow> u64 \<Rightarrow> u64 \<Rightarrow> nat \<Rightarrow> 'a vm_state_scheme \<Rightarrow> (int \<times> 'a vm_state_scheme) option" where
  "split_and_flush K virt entry_slot level s = do {
     let region = push_bit (12 + level * 9) 1;
     let region_base = virt AND NOT (region - 1);
     (r, s) \<leftarrow> split_leaf K entry_slot level s;
     if r \<noteq> 0 then Some (- 1, s)
     else do { s \<leftarrow> flush_range (arch K) region_base region s; Some (0, s) }
   }"

fun map_walk ::
  "'b kernel_build_scheme \<Rightarrow> u64 \<Rightarrow> nat \<Rightarrow> u64 \<Rightarrow> 'a vm_state_scheme \<Rightarrow> ((int + u64) \<times> 'a vm_state_scheme) option" where
  "map_walk K virt 0 table s = Some (Inr table, s)"
| "map_walk K virt (Suc l) table s =
     (let idx = pt_index virt (Suc l);
          entry = kmem s (slot table idx)
      in if \<not> pte_present (arch K) entry then do {
           (child, s) \<leftarrow> pt_pool_alloc s;
           if child = NULL then Some (Inl (- 1), s)
           else map_walk K virt l child
                  (store (slot table idx) (pte_table (arch K) (hhdm_virt_to_phys K child)) s)
         }
         else if pte_is_leaf (arch K) entry (Suc l) then do {
           (r, s) \<leftarrow> split_and_flush K virt (slot table idx) (Suc l) s;
           if r \<noteq> 0 then Some (Inl (- 1), s)
           else map_walk K virt l (phys_to_virt K (pte_phys (arch K) (kmem s (slot table idx)))) s
         }
         else map_walk K virt l (phys_to_virt K (pte_phys (arch K) entry)) s)"

definition map_page_4k ::
  "'b kernel_build_scheme \<Rightarrow> u64 \<Rightarrow> u64 \<Rightarrow> u64 \<Rightarrow> vm_flags \<Rightarrow> 'a vm_state_scheme \<Rightarrow> (int \<times> 'a vm_state_scheme) option" where
  "map_page_4k K l4_table virt phys flags s =
     (case map_walk K virt PT_TOP_LEVEL (if l4_table = NULL then page_table_l4 s else l4_table) s of
        None \<Rightarrow> None
      | Some (Inl r, s) \<Rightarrow> Some (r, s)
      | Some (Inr table, s) \<Rightarrow>
          Some (0, flush_page virt (store (slot table (pt_index virt 0)) (pte_leaf (arch K) phys flags False) s)))"

text \<open>\<open>protect_page_4k\<close> and \<open>unmap_page_4k\<close> leave with \<open>absent\<close> where nothing is mapped.\<close>

fun edit_walk ::
  "'b kernel_build_scheme \<Rightarrow> int \<Rightarrow> u64 \<Rightarrow> nat \<Rightarrow> u64 \<Rightarrow> 'a vm_state_scheme \<Rightarrow> ((int + u64) \<times> 'a vm_state_scheme) option" where
  "edit_walk K absent virt 0 table s = Some (Inr table, s)"
| "edit_walk K absent virt (Suc l) table s =
     (let idx = pt_index virt (Suc l);
          entry = kmem s (slot table idx)
      in if \<not> pte_present (arch K) entry then Some (Inl absent, s)
         else if pte_is_leaf (arch K) entry (Suc l) then do {
           (r, s) \<leftarrow> split_and_flush K virt (slot table idx) (Suc l) s;
           if r \<noteq> 0 then Some (Inl (- 1), s)
           else edit_walk K absent virt l (phys_to_virt K (pte_phys (arch K) (kmem s (slot table idx)))) s
         }
         else edit_walk K absent virt l (phys_to_virt K (pte_phys (arch K) entry)) s)"

definition protect_page_4k ::
  "'b kernel_build_scheme \<Rightarrow> u64 \<Rightarrow> u64 \<Rightarrow> vm_flags \<Rightarrow> 'a vm_state_scheme \<Rightarrow> (int \<times> 'a vm_state_scheme) option" where
  "protect_page_4k K l4_table virt flags s =
     (if l4_table = NULL then Some (- 1, s)
      else case edit_walk K (- 1) virt PT_TOP_LEVEL l4_table s of
        None \<Rightarrow> None
      | Some (Inl r, s) \<Rightarrow> Some (r, s)
      | Some (Inr table, s) \<Rightarrow>
          (let leaf = slot table (pt_index virt 0) in
           if \<not> pte_present (arch K) (kmem s leaf) then Some (- 1, s)
           else Some (0, flush_page virt
                  (store leaf (pte_leaf (arch K) (pte_phys (arch K) (kmem s leaf)) flags False) s))))"

definition unmap_page_4k ::
  "'b kernel_build_scheme \<Rightarrow> u64 \<Rightarrow> u64 \<Rightarrow> 'a vm_state_scheme \<Rightarrow> (int \<times> 'a vm_state_scheme) option" where
  "unmap_page_4k K l4_table virt s =
     (if l4_table = NULL then Some (- 1, s)
      else case edit_walk K 0 virt PT_TOP_LEVEL l4_table s of
        None \<Rightarrow> None
      | Some (Inl r, s) \<Rightarrow> Some (r, s)
      | Some (Inr table, s) \<Rightarrow> Some (0, flush_page virt (store (slot table (pt_index virt 0)) 0 s)))"

end
