(* ===== verification/Translation.thy ===== *)
theory Translation
  imports Vmm
begin

text \<open>
  What the page table code of \<^theory_text>\<open>Vmm\<close> does to the address space: the walk of the hardware
  as a specification, the well-formedness of a tree of tables, and the effect of mapping,
  protecting and unmapping one page on the translation of every address.
\<close>

unbundle bit_operations_syntax

section \<open>Pages and slots\<close>

definition page_of :: "u64 \<Rightarrow> u64" where
  "page_of a = a AND NOT (mask 12)"

lemma unat_page_of: "unat (page_of a) = unat a div 4096 * 4096"
  using unat_and_not_mask [of a 12] by (simp add: page_of_def)

lemma page_aligned_iff: "page_of t = t \<longleftrightarrow> 4096 dvd unat t"
  unfolding u64_eq_iff unat_page_of by (metis dvd_div_mult_self dvd_triv_right)

lemma page_offset_less:
  assumes "page_of t = t" "unat x < 4096"
  shows "unat (t + x) = unat t + unat x"
proof (rule unat_plus_no_wrap)
  from assms(1) obtain k where "unat t = 4096 * k"
    unfolding page_aligned_iff by (auto simp: dvd_def)
  with unat_u64_less [of t] assms(2) show "unat t + unat x < 2 ^ 64" by simp
qed

lemma page_of_offset: "page_of t = t \<Longrightarrow> unat x < 4096 \<Longrightarrow> page_of (t + x) = t"
  using page_offset_less [of t x] unfolding page_aligned_iff
  by (auto simp: u64_eq_iff unat_page_of dvd_def)

lemma in_page_iff: "page_of t = t \<Longrightarrow> a - t < 4096 \<longleftrightarrow> page_of a = t"
proof
  assume t: "page_of t = t" and "a - t < 4096"
  then have "unat (a - t) < 4096" by (simp add: word_less_nat_alt)
  from page_of_offset [OF t this] show "page_of a = t" by simp
next
  assume "page_of a = t"
  then have "unat a div 4096 * 4096 = unat t" by (simp add: unat_page_of [symmetric])
  moreover from this have "unat t \<le> unat a" by (metis div_times_less_eq_dividend)
  ultimately show "a - t < 4096"
    by (simp add: word_less_nat_alt unat_minus_no_borrow)
qed

lemma unat_index: "(i :: u64) < 512 \<Longrightarrow> unat (8 * i) = 8 * unat i \<and> unat i < 512"
  by (simp add: word_less_nat_alt unat_word_ariths)

lemma page_of_slot [simp]: "page_of t = t \<Longrightarrow> i < 512 \<Longrightarrow> page_of (slot t i) = t"
  using unat_index [of i] by (simp add: slot_def page_of_offset)

lemma slot_inj [simp]: "i < 512 \<Longrightarrow> j < 512 \<Longrightarrow> slot t i = slot t j \<longleftrightarrow> i = j"
proof -
  assume "i < 512" "j < 512"
  then have "8 * i = 8 * j \<Longrightarrow> i = j"
    using unat_index [of i] unat_index [of j] by (metis mult_cancel1 u64_eq_iff zero_neq_numeral)
  then show ?thesis by (auto simp: slot_def)
qed

lemma slot_eq_iff:
  "page_of t = t \<Longrightarrow> page_of t' = t' \<Longrightarrow> i < 512 \<Longrightarrow> j < 512 \<Longrightarrow>
   slot t i = slot t' j \<longleftrightarrow> t = t' \<and> i = j"
  by (metis page_of_slot slot_inj)

lemma pt_index_less [simp]: "pt_index virt l < 512"
  unfolding pt_index_def by (rule le_less_trans [OF word_and_le1]) simp

section \<open>The tree of tables\<close>

text \<open>
  The hardware's walk: the level and the value of the leaf that maps \<open>va\<close>, starting in a
  table of the given level.
\<close>

primrec mmu_walk :: "nat \<Rightarrow> 'b kernel_build_scheme \<Rightarrow> (u64 \<Rightarrow> u64) \<Rightarrow> u64 \<Rightarrow> u64 \<Rightarrow> (nat \<times> u64) option" where
  "mmu_walk 0 K m table va =
     (let e = m (slot table (pt_index va 0)) in if pte_present (arch K) e then Some (0, e) else None)"
| "mmu_walk (Suc l) K m table va =
     (let e = m (slot table (pt_index va (Suc l))) in
      if \<not> pte_present (arch K) e then None
      else if pte_is_leaf (arch K) e (Suc l) then Some (Suc l, e)
      else mmu_walk l K m (phys_to_virt K (pte_phys (arch K) e)) va)"

text \<open>The translation: physical address and permissions of an address.\<close>

definition leaf_view ::
  "'b kernel_build_scheme \<Rightarrow> (u64 \<Rightarrow> page_perm) \<Rightarrow> u64 \<Rightarrow> nat \<times> u64 \<Rightarrow> u64 \<times> page_perm" where
  "leaf_view K perm va le = (pte_phys (arch K) (snd le) + (va AND (span (fst le) - 1)), perm (snd le))"

definition view_at ::
  "nat \<Rightarrow> 'b kernel_build_scheme \<Rightarrow> (u64 \<Rightarrow> page_perm) \<Rightarrow> (u64 \<Rightarrow> u64) \<Rightarrow> u64 \<Rightarrow> u64 \<Rightarrow> (u64 \<times> page_perm) option" where
  "view_at l K perm m table va = map_option (leaf_view K perm va) (mmu_walk l K m table va)"

text \<open>The entry of a table points to a further table.\<close>

definition branch :: "'b kernel_build_scheme \<Rightarrow> u64 \<Rightarrow> nat \<Rightarrow> bool" where
  "branch K e l \<longleftrightarrow> pte_present (arch K) e \<and> \<not> pte_is_leaf (arch K) e l"

definition child :: "'b kernel_build_scheme \<Rightarrow> u64 \<Rightarrow> u64" where
  "child K e = phys_to_virt K (pte_phys (arch K) e)"

primrec tables_of :: "nat \<Rightarrow> 'b kernel_build_scheme \<Rightarrow> (u64 \<Rightarrow> u64) \<Rightarrow> u64 \<Rightarrow> u64 set" where
  "tables_of 0 K m t = {t}"
| "tables_of (Suc l) K m t = insert t (\<Union>i \<in> {i. i < 512 \<and> branch K (m (slot t i)) (Suc l)}.
     tables_of l K m (child K (m (slot t i))))"

text \<open>
  A well-formed tree: tables lie on page boundaries, no table is reached twice, and a huge
  page is a physical range of its own size and alignment.
\<close>

definition huge_ok :: "'b kernel_build_scheme \<Rightarrow> u64 \<Rightarrow> nat \<Rightarrow> bool" where
  "huge_ok K e l \<longleftrightarrow> pa_ok (pte_phys (arch K) e) \<and> pte_phys (arch K) e AND (span l - 1) = 0"

primrec pt_wf :: "nat \<Rightarrow> 'b kernel_build_scheme \<Rightarrow> (u64 \<Rightarrow> u64) \<Rightarrow> u64 \<Rightarrow> bool" where
  "pt_wf 0 K m t \<longleftrightarrow> page_of t = t"
| "pt_wf (Suc l) K m t \<longleftrightarrow> page_of t = t \<and>
     (\<forall>i < 512. pte_present (arch K) (m (slot t i)) \<longrightarrow>
        (if pte_is_leaf (arch K) (m (slot t i)) (Suc l) then huge_ok K (m (slot t i)) (Suc l)
         else pt_wf l K m (child K (m (slot t i))) \<and> t \<notin> tables_of l K m (child K (m (slot t i))))) \<and>
     (\<forall>i < 512. \<forall>j < 512. i \<noteq> j \<and> branch K (m (slot t i)) (Suc l) \<and> branch K (m (slot t j)) (Suc l) \<longrightarrow>
        tables_of l K m (child K (m (slot t i))) \<inter> tables_of l K m (child K (m (slot t j))) = {})"

lemma pt_wf_page: "pt_wf l K m t \<Longrightarrow> page_of t = t"
  by (cases l) auto

lemma tables_root [simp]: "t \<in> tables_of l K m t"
  by (cases l) auto

lemma pt_wf_child:
  "pt_wf (Suc l) K m t \<Longrightarrow> i < 512 \<Longrightarrow> branch K (m (slot t i)) (Suc l) \<Longrightarrow>
   pt_wf l K m (child K (m (slot t i))) \<and> t \<notin> tables_of l K m (child K (m (slot t i)))"
  by (auto simp: branch_def)

lemma tables_cases:
  assumes "x \<in> tables_of (Suc l) K m t"
  obtains "x = t" | i where "i < 512" "branch K (m (slot t i)) (Suc l)"
    "x \<in> tables_of l K m (child K (m (slot t i)))"
  using assms by auto

lemma tables_page: "pt_wf l K m t \<Longrightarrow> x \<in> tables_of l K m t \<Longrightarrow> page_of x = x"
proof (induction l arbitrary: t)
  case (Suc l)
  from Suc.prems(2) show ?case
  proof (cases rule: tables_cases)
    case 1
    then show ?thesis using Suc.prems(1) by simp
  next
    case (2 i)
    then show ?thesis using pt_wf_child [OF Suc.prems(1)] Suc.IH by blast
  qed
qed simp

text \<open>Only the words of its own tables matter to a tree.\<close>

definition agree :: "u64 set \<Rightarrow> (u64 \<Rightarrow> u64) \<Rightarrow> (u64 \<Rightarrow> u64) \<Rightarrow> bool" where
  "agree T m m' \<longleftrightarrow> (\<forall>t \<in> T. \<forall>i < 512. m' (slot t i) = m (slot t i))"

lemma agree_slot: "agree T m m' \<Longrightarrow> t \<in> T \<Longrightarrow> i < 512 \<Longrightarrow> m' (slot t i) = m (slot t i)"
  by (simp add: agree_def)

lemma agree_subset: "agree T m m' \<Longrightarrow> S \<subseteq> T \<Longrightarrow> agree S m m'"
  by (auto simp: agree_def)

lemma agree_child:
  "agree (tables_of (Suc l) K m t) m m' \<Longrightarrow> i < 512 \<Longrightarrow> branch K (m (slot t i)) (Suc l) \<Longrightarrow>
   agree (tables_of l K m (child K (m (slot t i)))) m m'"
  by (erule agree_subset) auto

lemma tables_frame: "agree (tables_of l K m t) m m' \<Longrightarrow> tables_of l K m' t = tables_of l K m t"
proof (induction l arbitrary: t)
  case (Suc l)
  have e: "i < 512 \<Longrightarrow> m' (slot t i) = m (slot t i)" for i
    using agree_slot [OF Suc.prems] by simp
  have "i < 512 \<Longrightarrow> branch K (m (slot t i)) (Suc l) \<Longrightarrow>
      tables_of l K m' (child K (m (slot t i))) = tables_of l K m (child K (m (slot t i)))" for i
    using Suc.IH [OF agree_child [OF Suc.prems]] .
  with e show ?case by auto
qed simp

lemma wf_frame: "agree (tables_of l K m t) m m' \<Longrightarrow> pt_wf l K m t \<Longrightarrow> pt_wf l K m' t"
proof (induction l arbitrary: t)
  case (Suc l)
  have e: "i < 512 \<Longrightarrow> m' (slot t i) = m (slot t i)" for i
    using agree_slot [OF Suc.prems(1)] by simp
  have c: "i < 512 \<Longrightarrow> branch K (m (slot t i)) (Suc l) \<Longrightarrow>
      tables_of l K m' (child K (m (slot t i))) = tables_of l K m (child K (m (slot t i)))" for i
    using tables_frame [OF agree_child [OF Suc.prems(1)]] .
  have w: "i < 512 \<Longrightarrow> branch K (m (slot t i)) (Suc l) \<Longrightarrow> pt_wf l K m (child K (m (slot t i))) \<Longrightarrow>
      pt_wf l K m' (child K (m (slot t i)))" for i
    using Suc.IH [OF agree_child [OF Suc.prems(1)]] .
  show ?case
    using Suc.prems(2) e c w by (auto simp: branch_def)
qed simp

lemma walk_frame: "agree (tables_of l K m t) m m' \<Longrightarrow> mmu_walk l K m' t va = mmu_walk l K m t va"
proof (induction l arbitrary: t)
  case 0
  then show ?case using agree_slot [OF 0, of t] by simp
next
  case (Suc l)
  let ?e = "m (slot t (pt_index va (Suc l)))"
  have "m' (slot t (pt_index va (Suc l))) = ?e"
    using agree_slot [OF Suc.prems] by simp
  moreover have "branch K ?e (Suc l) \<Longrightarrow> mmu_walk l K m' (child K ?e) va = mmu_walk l K m (child K ?e) va"
    using Suc.IH [OF agree_child [OF Suc.prems]] by simp
  ultimately show ?case by (simp add: Let_def branch_def child_def)
qed

lemma view_frame: "agree (tables_of l K m t) m m' \<Longrightarrow> view_at l K perm m' t va = view_at l K perm m t va"
  by (simp add: view_at_def walk_frame)

text \<open>Writing outside the tables of a tree.\<close>

lemma agree_upd:
  assumes "page_of a \<notin> T" "\<And>t. t \<in> T \<Longrightarrow> page_of t = t"
  shows "agree T m (m(a := v))"
  unfolding agree_def using assms page_of_slot by fastforce

lemma agree_trans: "agree T m m' \<Longrightarrow> agree T m' m'' \<Longrightarrow> agree T m m''"
  by (simp add: agree_def)

section \<open>Replacing a subtree\<close>

text \<open>
  The tree below \<open>t\<close> after its entry \<open>i\<close> leads to a tree at \<open>c\<close> that shares no table with
  the rest: well formed again, with the translation of \<open>c\<close> on the addresses of entry \<open>i\<close>.
\<close>

lemma pt_wf_huge:
  "pt_wf (Suc l) K m t \<Longrightarrow> i < 512 \<Longrightarrow> pte_present (arch K) (m (slot t i)) \<Longrightarrow>
   pte_is_leaf (arch K) (m (slot t i)) (Suc l) \<Longrightarrow> huge_ok K (m (slot t i)) (Suc l)"
  by auto

lemma pt_wf_apart:
  "pt_wf (Suc l) K m t \<Longrightarrow> i < 512 \<Longrightarrow> j < 512 \<Longrightarrow> i \<noteq> j \<Longrightarrow>
   branch K (m (slot t i)) (Suc l) \<Longrightarrow> branch K (m (slot t j)) (Suc l) \<Longrightarrow>
   tables_of l K m (child K (m (slot t i))) \<inter> tables_of l K m (child K (m (slot t j))) = {}"
  by simp

lemma pt_wf_SucI:
  assumes "page_of t = t"
    and "\<And>i. i < 512 \<Longrightarrow> pte_present (arch K) (m (slot t i)) \<Longrightarrow>
           pte_is_leaf (arch K) (m (slot t i)) (Suc l) \<Longrightarrow> huge_ok K (m (slot t i)) (Suc l)"
    and "\<And>i. i < 512 \<Longrightarrow> branch K (m (slot t i)) (Suc l) \<Longrightarrow>
           pt_wf l K m (child K (m (slot t i))) \<and> t \<notin> tables_of l K m (child K (m (slot t i)))"
    and "\<And>i j. i < 512 \<Longrightarrow> j < 512 \<Longrightarrow> i \<noteq> j \<Longrightarrow>
           branch K (m (slot t i)) (Suc l) \<Longrightarrow> branch K (m (slot t j)) (Suc l) \<Longrightarrow>
           tables_of l K m (child K (m (slot t i))) \<inter> tables_of l K m (child K (m (slot t j))) = {}"
  shows "pt_wf (Suc l) K m t"
  using assms by (auto simp: branch_def)

declare pt_wf.simps(2) [simp del] tables_of.simps(2) [simp del] mmu_walk.simps(2) [simp del]

definition siblings :: "nat \<Rightarrow> 'b kernel_build_scheme \<Rightarrow> (u64 \<Rightarrow> u64) \<Rightarrow> u64 \<Rightarrow> u64 \<Rightarrow> u64 set" where
  "siblings l K m t i = (\<Union>j \<in> {j. j < 512 \<and> j \<noteq> i \<and> branch K (m (slot t j)) (Suc l)}.
     tables_of l K m (child K (m (slot t j))))"

lemma tables_siblings:
  "i < 512 \<Longrightarrow> tables_of (Suc l) K m t = insert t (siblings l K m t i \<union>
     (if branch K (m (slot t i)) (Suc l) then tables_of l K m (child K (m (slot t i))) else {}))"
  unfolding siblings_def tables_of.simps by auto

lemma siblings_apart:
  assumes "pt_wf (Suc l) K m t" "i < 512" "branch K (m (slot t i)) (Suc l)"
  shows "siblings l K m t i \<inter> tables_of l K m (child K (m (slot t i))) = {}"
  using pt_wf_apart [OF assms(1)] assms(2,3) unfolding siblings_def by blast

lemma siblings_root: "pt_wf (Suc l) K m t \<Longrightarrow> t \<notin> siblings l K m t i"
  using pt_wf_child unfolding siblings_def by blast

lemma siblings_member:
  "j < 512 \<Longrightarrow> j \<noteq> i \<Longrightarrow> branch K (m (slot t j)) (Suc l) \<Longrightarrow>
   tables_of l K m (child K (m (slot t j))) \<subseteq> siblings l K m t i"
  unfolding siblings_def by blast

lemma replace_subtree:
  assumes wf: "pt_wf (Suc l) K m t" and i: "i < 512"
    and e: "\<forall>j < 512. j \<noteq> i \<longrightarrow> m' (slot t j) = m (slot t j)"
    and sib: "agree (siblings l K m t i) m m'"
    and b: "branch K (m' (slot t i)) (Suc l)" "child K (m' (slot t i)) = c"
    and c: "pt_wf l K m' c" "t \<notin> tables_of l K m' c" "siblings l K m t i \<inter> tables_of l K m' c = {}"
  shows "pt_wf (Suc l) K m' t"
    and "tables_of (Suc l) K m' t = insert t (siblings l K m t i \<union> tables_of l K m' c)"
    and "view_at (Suc l) K perm m' t va =
      (if pt_index va (Suc l) = i then view_at l K perm m' c va else view_at (Suc l) K perm m t va)"
proof -
  have fr: "agree (tables_of l K m (child K (m (slot t j)))) m m'"
    if "j < 512" "j \<noteq> i" "branch K (m (slot t j)) (Suc l)" for j
    using that by (intro agree_subset [OF sib]) (auto simp: siblings_def)
  note tf = tables_frame [OF fr] and wff = wf_frame [OF fr]
  have s: "siblings l K m' t i = siblings l K m t i"
    using e tf unfolding siblings_def by auto
  show tables: "tables_of (Suc l) K m' t = insert t (siblings l K m t i \<union> tables_of l K m' c)"
    using tables_siblings [OF i, of l K m' t] b s by simp
  show "pt_wf (Suc l) K m' t"
  proof (rule pt_wf_SucI)
    show "page_of t = t" by (rule pt_wf_page [OF wf])
  next
    fix j :: u64 assume j: "j < 512" "pte_present (arch K) (m' (slot t j))"
      "pte_is_leaf (arch K) (m' (slot t j)) (Suc l)"
    with b have "j \<noteq> i" by (auto simp: branch_def)
    with j e pt_wf_huge [OF wf j(1)] show "huge_ok K (m' (slot t j)) (Suc l)" by simp
  next
    fix j :: u64 assume j: "j < 512" "branch K (m' (slot t j)) (Suc l)"
    show "pt_wf l K m' (child K (m' (slot t j))) \<and> t \<notin> tables_of l K m' (child K (m' (slot t j)))"
    proof (cases "j = i")
      case True
      then show ?thesis using b c by simp
    next
      case False
      with j e have "branch K (m (slot t j)) (Suc l)" "m' (slot t j) = m (slot t j)" by auto
      with pt_wf_child [OF wf j(1)] tf [OF j(1) False] wff [OF j(1) False] show ?thesis by simp
    qed
  next
    fix j k :: u64 assume jk: "j < 512" "k < 512" "j \<noteq> k"
      "branch K (m' (slot t j)) (Suc l)" "branch K (m' (slot t k)) (Suc l)"
    have sub: "tables_of l K m' (child K (m' (slot t n))) \<subseteq> siblings l K m t i"
      if "n < 512" "n \<noteq> i" "branch K (m' (slot t n)) (Suc l)" for n
      using siblings_member [of n i K m' t l] that s by simp
    consider "j = i" | "k = i" | "j \<noteq> i" "k \<noteq> i" by blast
    then show "tables_of l K m' (child K (m' (slot t j))) \<inter> tables_of l K m' (child K (m' (slot t k))) = {}"
    proof cases
      case 1
      then show ?thesis using jk sub [of k] b(2) c(3) by blast
    next
      case 2
      then show ?thesis using jk sub [of j] b(2) c(3) by blast
    next
      case 3
      then have "m' (slot t j) = m (slot t j)" "m' (slot t k) = m (slot t k)" using jk e by auto
      then show ?thesis
        using 3 jk pt_wf_apart [OF wf jk(1-3)] tf [of j] tf [of k] by simp
    qed
  qed
  show "view_at (Suc l) K perm m' t va =
      (if pt_index va (Suc l) = i then view_at l K perm m' c va else view_at (Suc l) K perm m t va)"
  proof (cases "pt_index va (Suc l) = i")
    case True
    then show ?thesis using b by (simp add: view_at_def mmu_walk.simps Let_def branch_def child_def)
  next
    case False
    let ?j = "pt_index va (Suc l)"
    have "m' (slot t ?j) = m (slot t ?j)" using e False by simp
    moreover have "branch K (m (slot t ?j)) (Suc l) \<Longrightarrow>
        mmu_walk l K m' (child K (m (slot t ?j))) va = mmu_walk l K m (child K (m (slot t ?j))) va"
      using walk_frame [OF fr [OF _ False]] by simp
    ultimately show ?thesis
      using False by (simp add: view_at_def mmu_walk.simps Let_def branch_def child_def)
  qed
qed

section \<open>Setting the entry of one page\<close>

text \<open>The level-0 table that holds the entry of \<open>virt\<close>, if tables lead there.\<close>

primrec leaf_table :: "nat \<Rightarrow> 'b kernel_build_scheme \<Rightarrow> (u64 \<Rightarrow> u64) \<Rightarrow> u64 \<Rightarrow> u64 \<Rightarrow> u64 option" where
  "leaf_table 0 K m t virt = Some t"
| "leaf_table (Suc l) K m t virt =
     (let e = m (slot t (pt_index virt (Suc l))) in
      if branch K e (Suc l) then leaf_table l K m (child K e) virt else None)"

definition same_page :: "nat \<Rightarrow> u64 \<Rightarrow> u64 \<Rightarrow> bool" where
  "same_page l va virt \<longleftrightarrow> (\<forall>k \<le> l. pt_index va k = pt_index virt k)"

lemma same_page_Suc: "same_page (Suc l) va virt \<longleftrightarrow> pt_index va (Suc l) = pt_index virt (Suc l) \<and> same_page l va virt"
  by (auto simp: same_page_def le_Suc_eq)

lemma leaf_table_in: "leaf_table l K m t virt = Some t0 \<Longrightarrow> t0 \<in> tables_of l K m t"
proof (induction l arbitrary: t)
  case (Suc l)
  then show ?case
    using tables_siblings [of "pt_index virt (Suc l)" l K m t] by (auto simp: Let_def split: if_splits)
qed simp

lemma agree_upd_slot:
  assumes "pt_wf l K m t" "S \<subseteq> tables_of l K m t" "t0 \<notin> S" "page_of t0 = t0" "i < 512"
  shows "agree S m (m(slot t0 i := e))"
  by (rule agree_upd) (use assms tables_page [OF assms(1)] in auto)

lemma set_leaf:
  fixes e :: u64
  assumes "pt_wf l K m t" "leaf_table l K m t virt = Some t0"
  defines "m' \<equiv> m(slot t0 (pt_index virt 0) := e)"
  shows "pt_wf l K m' t \<and> tables_of l K m' t = tables_of l K m t \<and>
    view_at l K perm m' t va =
      (if same_page l va virt then (if pte_present (arch K) e then Some (leaf_view K perm va (0, e)) else None)
       else view_at l K perm m t va)"
  using assms(1,2)
proof (induction l arbitrary: t)
  case 0
  then show ?case
    by (auto simp: m'_def view_at_def same_page_def Let_def)
next
  case (Suc l)
  let ?i = "pt_index virt (Suc l)"
  let ?e = "m (slot t ?i)"
  let ?c = "child K ?e"
  have i: "?i < 512" by simp
  from Suc.prems(2) have b: "branch K ?e (Suc l)" and lt: "leaf_table l K m ?c virt = Some t0"
    by (auto simp: Let_def split: if_splits)
  from pt_wf_child [OF Suc.prems(1) i b] have c: "pt_wf l K m ?c" "t \<notin> tables_of l K m ?c" by auto
  have t0: "t0 \<in> tables_of l K m ?c" by (rule leaf_table_in [OF lt])
  then have "page_of t0 = t0" "t0 \<noteq> t" using tables_page [OF c(1)] c(2) by auto
  then have e: "m' (slot t j) = m (slot t j)" if "j < 512" for j
    using that pt_wf_page [OF Suc.prems(1)] by (auto simp: m'_def slot_eq_iff)
  have sib: "agree (siblings l K m t ?i) m m'"
    unfolding m'_def
  proof (rule agree_upd_slot [OF Suc.prems(1)])
    show "siblings l K m t ?i \<subseteq> tables_of (Suc l) K m t"
      using tables_siblings [OF i, of l K m t] by auto
    show "t0 \<notin> siblings l K m t ?i"
      using siblings_apart [OF Suc.prems(1) i b] t0 by blast
  qed (simp_all add: \<open>page_of t0 = t0\<close>)
  from Suc.IH [OF c(1) lt] have IH: "pt_wf l K m' ?c" "tables_of l K m' ?c = tables_of l K m ?c"
    "view_at l K perm m' ?c va =
      (if same_page l va virt then (if pte_present (arch K) e then Some (leaf_view K perm va (0, e)) else None)
       else view_at l K perm m ?c va)" by auto
  have b': "branch K (m' (slot t ?i)) (Suc l)" "child K (m' (slot t ?i)) = ?c"
    using e [OF i] b by auto
  have e': "\<forall>j < 512. j \<noteq> ?i \<longrightarrow> m' (slot t j) = m (slot t j)" using e by blast
  note r = replace_subtree [OF Suc.prems(1) i e' sib b' IH(1)]
  have d: "siblings l K m t ?i \<inter> tables_of l K m' ?c = {}"
    using siblings_apart [OF Suc.prems(1) i b] IH(2) by simp
  have v: "pt_index va (Suc l) = ?i \<Longrightarrow> view_at (Suc l) K perm m t va = view_at l K perm m ?c va"
    using b by (simp add: view_at_def mmu_walk.simps Let_def branch_def child_def)
  show ?case
    using r(1) r(2) r(3) [of perm va] e c(2) d IH(2,3) v tables_siblings [OF i, of l K m t] b
    by (simp add: same_page_Suc)
qed

section \<open>New tables\<close>

text \<open>
  The heap lies in the direct map, at physical addresses the entries can hold. A page is
  \<open>kept\<close> when the heap will not hand it out: it lies outside the heap or inside a range
  in use.
\<close>

definition direct_map :: "'b boot_env_scheme \<Rightarrow> nat \<Rightarrow> nat \<Rightarrow> bool" where
  "direct_map K lo hi \<longleftrightarrow> hhdm_known K \<and> page_of (hhdm_base K) = hhdm_base K \<and>
     unat (hhdm_base K) \<le> lo \<and> hi \<le> unat (hhdm_base K) + 2 ^ 52"

definition kept :: "nat \<Rightarrow> nat \<Rightarrow> (nat \<times> nat) set \<Rightarrow> u64 \<Rightarrow> bool" where
  "kept lo hi L t \<longleftrightarrow> unat t + 4096 \<le> lo \<or> hi \<le> unat t \<or>
     (\<exists>(p, k) \<in> L. p \<le> unat t \<and> unat t + 4096 \<le> p + k)"

lemma kept_mono: "kept lo hi L t \<Longrightarrow> L \<subseteq> L' \<Longrightarrow> kept lo hi L' t"
  unfolding kept_def by blast

lemma hhdm_virt_to_phys_base: "hhdm_known K \<Longrightarrow> hhdm_virt_to_phys K v = v - hhdm_base K"
  by (auto simp: hhdm_base_def phys_to_virt_def hhdm_virt_to_phys_def hhdm_known_def
      split: bootloader.splits option.splits)

lemma pa_okI:
  assumes "page_of x = x" "unat x < 2 ^ 52"
  shows "pa_ok x"
proof -
  have m: "PAGE_PHYS_MASK = mask 52 AND NOT (mask 12)"
    by (simp add: PAGE_PHYS_MASK_def mask_numeral)
  have "x AND mask 52 = x"
    using unat_and_mask [of x 52] assms(2) by (simp only: u64_eq_iff) simp
  with assms(1) show ?thesis
    unfolding pa_ok_def m page_of_def by (simp add: and.assoc [symmetric])
qed

lemma table_pa_ok:
  assumes "direct_map K lo hi" "page_of p = p" "lo \<le> unat p" "unat p + 4096 \<le> hi"
  shows "pa_ok (hhdm_virt_to_phys K p)"
proof -
  let ?b = "hhdm_base K"
  from assms have le: "unat ?b \<le> unat p" and hk: "hhdm_known K" by (auto simp: direct_map_def)
  then have u: "unat (p - ?b) = unat p - unat ?b" by (simp add: unat_minus_no_borrow)
  have "page_of (p - ?b) = p - ?b"
    using assms(1,2) unfolding page_aligned_iff direct_map_def u by (simp add: dvd_diff_nat)
  moreover have "unat (p - ?b) < 2 ^ 52"
    using assms unfolding u direct_map_def by linarith
  ultimately show ?thesis
    unfolding hhdm_virt_to_phys_base [OF hk] by (rule pa_okI)
qed

lemma pt_pool_alloc_fresh:
  assumes "heap_at s lo hi L"
  shows "\<exists>p s'. pt_pool_alloc s = Some (p, s') \<and> mem_state.more s' = mem_state.more s \<and>
    (if p = NULL then heap_at s' lo hi L \<and> kmem s' = kmem s
     else \<exists>k. heap_at s' lo hi (insert (unat p, k) L) \<and> page_of p = p \<and> lo \<le> unat p \<and>
       unat p + 4096 \<le> hi \<and> \<not> kept lo hi L p \<and> kept lo hi (insert (unat p, k) L) p \<and>
       kmem s' = (\<lambda>a. if page_of a = p then 0 else kmem s a))"
proof -
  have "4096 * unat (1 :: u64) + 8192 \<le> 2 ^ 64" by simp
  from page_alloc_at [OF assms this, unfolded unsigned_1 mult_1_right] obtain p h where p: "page_alloc 1 s = Some (p, h)"
    "same_but_blocks s h" "4096 dvd unat p" "if p = NULL then heap_at h lo hi L
     else \<exists>k \<ge> 4096. heap_at h lo hi (insert (unat p, k) L) \<and> unat p \<notin> fst ` L" by blast
  from same_but_blocks_more [OF p(2)] have more: "heap_state.more h = heap_state.more s" by simp
  then have km: "kmem h = kmem s" "mem_state.more h = mem_state.more s"
    by (metis mem_state.select_convs mem_state.surjective heap_state.select_convs(4) heap_state.surjective)+
  show ?thesis
  proof (cases "p = NULL")
    case True
    with p km show ?thesis by (simp add: pt_pool_alloc_def)
  next
    case False
    with p obtain k where k: "4096 \<le> k" "heap_at h lo hi (insert (unat p, k) L)" "unat p \<notin> fst ` L"
      by auto
    have pp: "page_of p = p" using p(3) by (simp add: page_aligned_iff)
    from heap_at_range [OF k(2), of "unat p" k] k(1) have r: "lo \<le> unat p" "unat p + 4096 \<le> hi" by auto
    have "\<not> kept lo hi L p"
    proof
      assume "kept lo hi L p"
      with r obtain y j where y: "(y, j) \<in> L" "y \<le> unat p" "unat p + 4096 \<le> y + j"
        by (auto simp: kept_def)
      with heap_inv_apart [OF heap_inv_at [OF k(2)], of "unat p" k y j] k(1,3) show False by force
    qed
    moreover have "kept lo hi (insert (unat p, k) L) p" using k(1) by (auto simp: kept_def)
    moreover have "memset_words p 0 4096 (kmem h) = (\<lambda>a. if page_of a = p then 0 else kmem s a)"
      by (rule ext) (simp add: memset_words_def in_page_iff [OF pp] km)
    ultimately show ?thesis
      using False p(1) pp r k(2) km
      by (auto simp: pt_pool_alloc_def heap_at_def heap_rel_def)
  qed
qed

section \<open>Growth of a tree\<close>

text \<open>
  \<open>grown\<close> relates the state before and after an operation on the tree at \<open>t\<close> that adds
  tables without changing the translation of any address: new tables are pages the heap was
  free to hand out, and kept pages outside the tree keep their words.
\<close>

definition tree_inv ::
  "nat \<Rightarrow> 'b kernel_build_scheme \<Rightarrow> nat \<Rightarrow> nat \<Rightarrow> (nat \<times> nat) set \<Rightarrow> 'a mem_state_scheme \<Rightarrow> u64 \<Rightarrow> bool" where
  "tree_inv l K lo hi L s t \<longleftrightarrow> heap_at s lo hi L \<and> pt_wf l K (kmem s) t \<and>
     (\<forall>x \<in> tables_of l K (kmem s) t. kept lo hi L x)"

definition only_heap_outside ::
  "nat \<Rightarrow> 'b kernel_build_scheme \<Rightarrow> nat \<Rightarrow> nat \<Rightarrow> u64 \<Rightarrow> 'a mem_state_scheme \<Rightarrow> (nat \<times> nat) set \<Rightarrow> 'a mem_state_scheme \<Rightarrow> bool" where
  "only_heap_outside l K lo hi t s L s' \<longleftrightarrow>
     (\<forall>x \<in> tables_of l K (kmem s') t. x \<in> tables_of l K (kmem s) t \<or> \<not> kept lo hi L x) \<and>
     (\<forall>a. kept lo hi L (page_of a) \<longrightarrow> page_of a \<notin> tables_of l K (kmem s) t \<longrightarrow> kmem s' a = kmem s a)"

definition same_vm :: "'a vm_state_scheme \<Rightarrow> 'a vm_state_scheme \<Rightarrow> bool" where
  "same_vm s s' \<longleftrightarrow> page_table_l4 s' = page_table_l4 s \<and> vm_state.more s' = vm_state.more s"

definition grown ::
  "(u64 \<Rightarrow> page_perm) \<Rightarrow> nat \<Rightarrow> 'b kernel_build_scheme \<Rightarrow> nat \<Rightarrow> nat \<Rightarrow> u64 \<Rightarrow>
   'a vm_state_scheme \<Rightarrow> (nat \<times> nat) set \<Rightarrow> 'a vm_state_scheme \<Rightarrow> (nat \<times> nat) set \<Rightarrow> bool" where
  "grown perm l K lo hi t s L s' L' \<longleftrightarrow> L \<subseteq> L' \<and> tree_inv l K lo hi L' s' t \<and>
     only_heap_outside l K lo hi t s L s' \<and> same_vm s s' \<and>
     (\<forall>va. view_at l K perm (kmem s') t va = view_at l K perm (kmem s) t va)"

lemma grown_refl: "tree_inv l K lo hi L s t \<Longrightarrow> grown perm l K lo hi t s L s L"
  by (simp add: grown_def only_heap_outside_def same_vm_def)

lemma only_heap_outside_trans:
  assumes "only_heap_outside l K lo hi t s L s'" "only_heap_outside l K lo hi t s' L' s''" "L \<subseteq> L'"
  shows "only_heap_outside l K lo hi t s L s''"
  using assms kept_mono [OF _ assms(3)] unfolding only_heap_outside_def by metis

lemma grown_trans:
  "grown perm l K lo hi t s L s' L' \<Longrightarrow> grown perm l K lo hi t s' L' s'' L'' \<Longrightarrow>
   grown perm l K lo hi t s L s'' L''"
  using only_heap_outside_trans unfolding grown_def same_vm_def by fastforce

text \<open>Growth of the subtree below an entry is growth of the tree.\<close>

lemma kept_tables: "tree_inv l K lo hi L s t \<Longrightarrow> x \<in> tables_of l K (kmem s) t \<Longrightarrow> kept lo hi L x \<and> page_of x = x"
  unfolding tree_inv_def using tables_page by blast

lemma grown_child:
  assumes inv: "tree_inv (Suc l) K lo hi L s t" and i: "i < 512"
    and b: "branch K (kmem s (slot t i)) (Suc l)" and c: "child K (kmem s (slot t i)) = c"
    and g: "grown perm l K lo hi c s L s' L'"
  shows "grown perm (Suc l) K lo hi t s L s' L'"
    and "kmem s' (slot t i) = kmem s (slot t i)"
proof -
  let ?m = "kmem s" and ?m' = "kmem s'"
  from inv have wf: "pt_wf (Suc l) K ?m t" by (simp add: tree_inv_def)
  from g have out: "only_heap_outside l K lo hi c s L s'" and sub: "L \<subseteq> L'" and inv': "tree_inv l K lo hi L' s' c"
    by (simp_all add: grown_def)
  from pt_wf_child [OF wf i b] c have ct: "t \<notin> tables_of l K ?m c" by simp
  note kt = kept_tables [OF inv]
  have sib_in: "x \<in> tables_of (Suc l) K ?m t" if "x \<in> siblings l K ?m t i" for x
    using tables_siblings [OF i, of l K "?m" t] that by simp
  have sib_c: "siblings l K ?m t i \<inter> tables_of l K ?m c = {}"
    using siblings_apart [OF wf i b] c by simp
  have t: "kept lo hi L t" "page_of t = t" using kt [of t] by auto
  have e: "?m' (slot t j) = ?m (slot t j)" if "j < 512" for j
    using out ct t that unfolding only_heap_outside_def by simp
  then show "?m' (slot t i) = ?m (slot t i)" using i by simp
  have sib: "agree (siblings l K ?m t i) ?m ?m'"
    unfolding agree_def
  proof (intro ballI allI impI)
    fix x j assume x: "x \<in> siblings l K ?m t i" "(j :: u64) < 512"
    with kt [OF sib_in] sib_c have "kept lo hi L (page_of (slot x j))" "page_of (slot x j) \<notin> tables_of l K ?m c"
      by auto
    then show "?m' (slot x j) = ?m (slot x j)" using out unfolding only_heap_outside_def by blast
  qed
  have b': "branch K (?m' (slot t i)) (Suc l)" "child K (?m' (slot t i)) = c"
    using e [OF i] b c by auto
  have new: "x \<in> tables_of l K ?m c \<or> \<not> kept lo hi L x" if "x \<in> tables_of l K ?m' c" for x
    using out that unfolding only_heap_outside_def by blast
  have c': "pt_wf l K ?m' c" "t \<notin> tables_of l K ?m' c" "siblings l K ?m t i \<inter> tables_of l K ?m' c = {}"
    using inv' new t ct kt sib_in sib_c unfolding tree_inv_def by blast+
  have e': "\<forall>j < 512. j \<noteq> i \<longrightarrow> ?m' (slot t j) = ?m (slot t j)" using e by blast
  note r = replace_subtree [OF wf i e' sib b' c']
  have v: "pt_index va (Suc l) = i \<Longrightarrow> view_at (Suc l) K perm ?m t va = view_at l K perm ?m c va" for va
    using b c by (auto simp: view_at_def mmu_walk.simps Let_def branch_def child_def)
  have "kept lo hi L' x" if "x = t \<or> x \<in> siblings l K ?m t i" for x
    using that kt [OF sib_in] t kept_mono [OF _ sub] by blast
  then have "tree_inv (Suc l) K lo hi L' s' t"
    using inv' r(1) unfolding tree_inv_def r(2) by blast
  moreover have "only_heap_outside (Suc l) K lo hi t s L s'"
    unfolding only_heap_outside_def r(2)
    using new out tables_siblings [OF i, of l K ?m t] b c unfolding only_heap_outside_def by auto
  moreover have "view_at (Suc l) K perm ?m' t va = view_at (Suc l) K perm ?m t va" for va
    using r(3) [of perm va] v g unfolding grown_def by simp
  ultimately show "grown perm (Suc l) K lo hi t s L s' L'"
    using g unfolding grown_def by blast
qed

text \<open>Linking a page of fresh memory as a table, with the translation the entry had.\<close>

lemma grown_link:
  fixes s s' :: "'a vm_state_scheme"
  assumes inv: "tree_inv (Suc l) K lo hi L s t" and i: "i < 512"
    and nb: "\<not> branch K (kmem s (slot t i)) (Suc l)"
    and p: "page_of p = p" "\<not> kept lo hi L p" "kept lo hi L' p" "L \<subseteq> L'"
    and s': "heap_at s' lo hi L'" "same_vm s s'"
    and m: "\<forall>a. page_of a \<noteq> p \<longrightarrow> a \<noteq> slot t i \<longrightarrow> kmem s' a = kmem s a"
    and b: "branch K (kmem s' (slot t i)) (Suc l)" "child K (kmem s' (slot t i)) = p"
    and c: "pt_wf l K (kmem s') p" "tables_of l K (kmem s') p = {p}"
    and v: "\<forall>va. pt_index va (Suc l) = i \<longrightarrow>
              view_at l K perm (kmem s') p va = view_at (Suc l) K perm (kmem s) t va"
  shows "grown perm (Suc l) K lo hi t s L s' L'"
proof -
  let ?m = "kmem s" and ?m' = "kmem s'"
  from inv have wf: "pt_wf (Suc l) K ?m t" by (simp add: tree_inv_def)
  note kt = kept_tables [OF inv]
  have tables: "tables_of (Suc l) K ?m t = insert t (siblings l K ?m t i)"
    using tables_siblings [OF i, of l K ?m t] nb by simp
  have t: "kept lo hi L t" "page_of t = t" "t \<noteq> p" using kt [of t] p(2) by auto
  have e: "\<forall>j < 512. j \<noteq> i \<longrightarrow> ?m' (slot t j) = ?m (slot t j)"
    using m t i by simp
  have sib: "agree (siblings l K ?m t i) ?m ?m'"
    unfolding agree_def
  proof (intro ballI allI impI)
    fix x j assume x: "x \<in> siblings l K ?m t i" "(j :: u64) < 512"
    with kt [of x] tables p(2) siblings_root [OF wf] have "page_of x = x" "x \<noteq> p" "x \<noteq> t" by auto
    then show "?m' (slot x j) = ?m (slot x j)" using m x(2) i t by (simp add: slot_eq_iff)
  qed
  have ps: "p \<notin> siblings l K ?m t i" using kt tables p(2) by auto
  have d: "t \<notin> tables_of l K ?m' p" "siblings l K ?m t i \<inter> tables_of l K ?m' p = {}"
    using c(2) t(3) ps by auto
  note r = replace_subtree [OF wf i e sib b c(1) d]
  have kp: "kept lo hi L' x" if "x \<in> tables_of (Suc l) K ?m t" for x
    using kt [OF that] kept_mono [OF _ p(4)] by blast
  have "tree_inv (Suc l) K lo hi L' s' t"
    using s' r(1) kp p(3) tables unfolding tree_inv_def r(2) c(2) by auto
  moreover have "only_heap_outside (Suc l) K lo hi t s L s'"
  proof -
    have "?m' a = ?m a" if "kept lo hi L (page_of a)" "page_of a \<notin> tables_of (Suc l) K ?m t" for a
    proof -
      have "page_of a \<noteq> p" "a \<noteq> slot t i" using that p(2) i t by auto
      with m show ?thesis by blast
    qed
    then show ?thesis
      unfolding only_heap_outside_def r(2) c(2) tables using p(2) by blast
  qed
  moreover have "view_at (Suc l) K perm ?m' t va = view_at (Suc l) K perm ?m t va" for va
    using r(3) [of perm va] v by simp
  ultimately show ?thesis
    using s'(2) p(4) unfolding grown_def by blast
qed

text \<open>A table without further tables below it.\<close>

lemma flat_table:
  assumes "page_of p = p" "\<And>j. j < 512 \<Longrightarrow> \<not> branch K (m (slot p j)) l"
    and "\<And>j. j < 512 \<Longrightarrow> 0 < l \<Longrightarrow> pte_present (arch K) (m (slot p j)) \<Longrightarrow> huge_ok K (m (slot p j)) l"
  shows "pt_wf l K m p" "tables_of l K m p = {p}"
  using assms by (cases l; auto simp: tables_of.simps intro!: pt_wf_SucI)+

lemma fill_table_upto:
  assumes t: "page_of t = t" and "n \<le> 512"
  shows "(\<forall>j < 512. fold (\<lambda>i m. m(slot t (of_nat i) := f i)) [0..<n] m (slot t j) =
            (if unat j < n then f (unat j) else m (slot t j))) \<and>
         (\<forall>a. page_of a \<noteq> t \<longrightarrow> fold (\<lambda>i m. m(slot t (of_nat i) := f i)) [0..<n] m a = m a)"
  using assms(2)
proof (induction n)
  case (Suc n)
  let ?m = "fold (\<lambda>i m. m(slot t (of_nat i) := f i)) [0..<n] m"
  have i: "(of_nat n :: u64) < 512" "unat (of_nat n :: u64) = n"
    using Suc.prems by (simp_all add: word_less_nat_alt unat_of_nat)
  have "j = of_nat n \<longleftrightarrow> unat j = n" for j :: u64
    using i(2) by (simp add: u64_eq_iff)
  with Suc i t show ?case by (auto simp: less_Suc_eq)
qed simp

lemma fill_table_slot: "page_of t = t \<Longrightarrow> j < 512 \<Longrightarrow> fill_table t f m (slot t j) = f (unat j)"
  using fill_table_upto [of t 512 f m] by (simp add: fill_table_def word_less_nat_alt)

lemma fill_table_other: "page_of t = t \<Longrightarrow> page_of a \<noteq> t \<Longrightarrow> fill_table t f m a = m a"
  using fill_table_upto [of t 512 f m] by (simp add: fill_table_def)

lemma aligned_bits:
  assumes b: "b AND (span (Suc l) - 1) = 0" and n: "bit b n"
  shows "21 + l * 9 \<le> n"
proof (rule ccontr)
  assume "\<not> 21 + l * 9 \<le> n"
  with n have "bit (b AND (span (Suc l) - 1)) n"
    unfolding span_mask by (auto simp: bit_and_iff bit_mask_iff dest: bit_imp_le_length)
  with b show False by simp
qed

text \<open>The physical ranges of the 512 entries that replace a huge page make up its range.\<close>

lemma split_bits:
  assumes b: "b AND (span (Suc l) - 1) = 0" and j: "j < 512" and l: "l < 3"
  shows "b + of_nat (unat j) * push_bit (12 + l * 9) 1 = b OR push_bit (12 + l * 9) j"
    and "bit (b OR push_bit (12 + l * 9) j) n \<longleftrightarrow>
      bit b n \<and> 21 + l * 9 \<le> n \<or> 12 + l * 9 \<le> n \<and> n < 21 + l * 9 \<and> bit j (n - (12 + l * 9))"
proof -
  have j9: "n < 9" if "bit j n" for n
  proof -
    have "j = take_bit 9 j"
      using j by (simp add: u64_eq_iff unsigned_take_bit_eq take_bit_nat_eq_self word_less_nat_alt)
    then have "bit (take_bit 9 j) n" using that by simp
    then show ?thesis by (simp add: bit_take_bit_iff)
  qed
  note hi = aligned_bits [OF b]
  have "b AND push_bit (12 + l * 9) j = 0"
    by (rule bit_word_eqI) (use j9 hi in \<open>fastforce simp: bit_and_iff bit_push_bit_iff\<close>)
  then have "b + push_bit (12 + l * 9) j = b OR push_bit (12 + l * 9) j"
    by (simp add: disjunctive_add_eq_or)
  then show "b + of_nat (unat j) * push_bit (12 + l * 9) 1 = b OR push_bit (12 + l * 9) j"
    by (simp add: push_bit_eq_mult [of "12 + l * 9" j] push_bit_eq_mult [of "12 + l * 9" 1])
  show "bit (b OR push_bit (12 + l * 9) j) n \<longleftrightarrow>
      bit b n \<and> 21 + l * 9 \<le> n \<or> 12 + l * 9 \<le> n \<and> n < 21 + l * 9 \<and> bit j (n - (12 + l * 9))"
    using j9 [of "n - (12 + l * 9)"] hi [of n] l by (auto simp: bit_or_iff bit_push_bit_iff)
qed

lemma bit_pt_index: "bit (pt_index va l) n \<longleftrightarrow> n < 9 \<and> bit va (12 + l * 9 + n)"
  unfolding pt_index_def by (simp only: bit_and_iff bit_low_masks bit_drop_bit_eq comp_apply) auto

lemma split_phys:
  assumes b: "b AND (span (Suc l) - 1) = 0" and l: "l < 3"
  shows "(b + of_nat (unat (pt_index va l)) * push_bit (12 + l * 9) 1) + (va AND (span l - 1)) =
    b + (va AND (span (Suc l) - 1))"
proof -
  let ?j = "pt_index va l"
  note sb = split_bits [OF b pt_index_less [of va l] l]
  let ?B = "b OR push_bit (12 + l * 9) ?j"
  have "?B AND (va AND (span l - 1)) = 0"
    unfolding span_mask
    by (rule bit_word_eqI) (auto simp: bit_and_iff bit_mask_iff sb(2))
  then have 1: "?B + (va AND (span l - 1)) = ?B OR (va AND (span l - 1))"
    by (rule disjunctive_add_eq_or)
  have "b AND (va AND (span (Suc l) - 1)) = 0"
    using b by (metis and.left_commute and_zero_eq)
  then have 2: "b + (va AND (span (Suc l) - 1)) = b OR (va AND (span (Suc l) - 1))"
    by (rule disjunctive_add_eq_or)
  have "?B OR (va AND (span l - 1)) = b OR (va AND (span (Suc l) - 1))"
  proof (rule bit_word_eqI)
    fix n assume "n < LENGTH(64)"
    have "bit (?B OR (va AND (span l - 1))) n \<longleftrightarrow> bit ?B n \<or> bit va n \<and> n < 12 + l * 9"
      using \<open>n < LENGTH(64)\<close> unfolding span_mask bit_or_iff [of ?B] bit_and_iff bit_mask_iff by auto
    also have "\<dots> \<longleftrightarrow> bit b n \<or> bit va n \<and> n < 21 + l * 9"
      using aligned_bits [OF b, of n] unfolding sb(2) bit_pt_index by (auto simp: not_less)
    also have "\<dots> \<longleftrightarrow> bit (b OR (va AND (span (Suc l) - 1))) n"
      using \<open>n < LENGTH(64)\<close> unfolding span_mask bit_or_iff bit_and_iff bit_mask_iff by auto
    finally show "bit (?B OR (va AND (span l - 1))) n \<longleftrightarrow> bit (b OR (va AND (span (Suc l) - 1))) n" .
  qed
  with 1 2 sb(1) show ?thesis by simp
qed

lemma huge_child_pa_ok:
  assumes "huge_ok K e (Suc l)" "(j :: u64) < 512" "l < 3"
  shows "pa_ok (pte_phys (arch K) e + of_nat (unat j) * push_bit (12 + l * 9) 1)"
    and "(pte_phys (arch K) e + of_nat (unat j) * push_bit (12 + l * 9) 1) AND (span l - 1) = 0"
proof -
  let ?b = "pte_phys (arch K) e"
  from assms(1) have b: "pa_ok ?b" "?b AND (span (Suc l) - 1) = 0" by (auto simp: huge_ok_def)
  note sb = split_bits [OF b(2) assms(2,3)]
  have r: "bit (?b OR push_bit (12 + l * 9) j) n \<Longrightarrow> 12 + l * 9 \<le> n \<and> n < 52" for n
    using pa_ok_bit [OF b(1), of n] assms(3) unfolding sb(2) by auto
  show "pa_ok (?b + of_nat (unat j) * push_bit (12 + l * 9) 1)"
    unfolding sb(1) pa_ok_def using r
    by (intro bit_word_eqI) (fastforce simp only: bit_and_iff bit_x86)
  show "(?b + of_nat (unat j) * push_bit (12 + l * 9) 1) AND (span l - 1) = 0"
    unfolding sb(1) span_mask using r
    by (intro bit_word_eqI) (fastforce simp add: bit_and_iff bit_mask_iff)
qed

lemma same_vm_more: "mem_state.more s' = mem_state.more s \<Longrightarrow> same_vm s s' \<and> tlb_log s' = tlb_log s"
  unfolding same_vm_def
  by (metis vm_state.ext_inject vm_state.surjective mem_state.select_convs(2))

lemma same_vm_trans: "same_vm s s' \<Longrightarrow> same_vm s' s'' \<Longrightarrow> same_vm s s''"
  by (simp add: same_vm_def)

lemma grown_same_mem:
  "tree_inv l K lo hi L s t \<Longrightarrow> heap_at s' lo hi L \<Longrightarrow> kmem s' = kmem s \<Longrightarrow> same_vm s s' \<Longrightarrow>
   grown perm l K lo hi t s L s' L"
  by (simp add: grown_def tree_inv_def only_heap_outside_def)

lemma grown_flush: "grown perm l K lo hi t s L s' L' \<Longrightarrow> grown perm l K lo hi t s L (s'\<lparr>tlb_log := ops\<rparr>) L'"
  by (simp add: grown_def tree_inv_def only_heap_outside_def same_vm_def heap_at_def heap_rel_def)

lemma heap_at_kmem [simp]: "heap_at (s\<lparr>kmem := m\<rparr>) lo hi L = heap_at s lo hi L"
  by (simp add: heap_at_def heap_rel_def)

lemma same_vm_kmem [simp]: "same_vm s (s'\<lparr>kmem := m\<rparr>) = same_vm s s'"
  by (simp add: same_vm_def)

lemma walk_leaf:
  assumes "m (slot t (pt_index va l)) = e" "pte_present (arch K) e" "pte_is_leaf (arch K) e l"
  shows "mmu_walk l K m t va = Some (l, e)"
  using assms by (cases l) (simp_all add: mmu_walk.simps)

context pte_arch
begin

lemma table_branch:
  assumes "arch K = A" "direct_map K lo hi" "page_of p = p" "lo \<le> unat p" "unat p + 4096 \<le> hi"
  shows "branch K (pte_table A (hhdm_virt_to_phys K p)) (Suc l)"
    and "child K (pte_table A (hhdm_virt_to_phys K p)) = p"
proof -
  have "pa_ok (hhdm_virt_to_phys K p)" by (rule table_pa_ok [OF assms(2-5)])
  note te = table_entry [OF this]
  show "branch K (pte_table A (hhdm_virt_to_phys K p)) (Suc l)"
    using te [of "Suc l"] by (simp add: branch_def assms(1))
  show "child K (pte_table A (hhdm_virt_to_phys K p)) = p"
    using te assms(2) by (simp add: child_def assms(1) direct_map_def virt_phys_inverse)
qed

text \<open>An absent entry gets a new table.\<close>

lemma new_table_grown:
  fixes s :: "'a vm_state_scheme"
  assumes K: "arch K = A" "direct_map K lo hi" and inv: "tree_inv (Suc l) K lo hi L s t" and i: "i < 512"
    and e: "\<not> pte_present A (kmem s (slot t i))"
  shows "\<exists>p s'. pt_pool_alloc s = Some (p, s') \<and>
    (if p = NULL then grown perm (Suc l) K lo hi t s L s' L
     else \<exists>L'. grown perm (Suc l) K lo hi t s L
                 (store (slot t i) (pte_table A (hhdm_virt_to_phys K p)) s') L' \<and>
               branch K (pte_table A (hhdm_virt_to_phys K p)) (Suc l) \<and>
               child K (pte_table A (hhdm_virt_to_phys K p)) = p)"
proof -
  from inv have h: "heap_at s lo hi L" by (simp add: tree_inv_def)
  from pt_pool_alloc_fresh [OF h] obtain p s' where p: "pt_pool_alloc s = Some (p, s')"
    "mem_state.more s' = mem_state.more s" and ps: "if p = NULL then heap_at s' lo hi L \<and> kmem s' = kmem s
     else \<exists>k. heap_at s' lo hi (insert (unat p, k) L) \<and> page_of p = p \<and> lo \<le> unat p \<and>
       unat p + 4096 \<le> hi \<and> \<not> kept lo hi L p \<and> kept lo hi (insert (unat p, k) L) p \<and>
       kmem s' = (\<lambda>a. if page_of a = p then 0 else kmem s a)" by blast
  from same_vm_more [OF p(2)] have sv: "same_vm s s'" by simp
  show ?thesis
  proof (cases "p = NULL")
    case True
    with ps p(1) grown_same_mem [OF inv _ _ sv] show ?thesis by simp
  next
    case False
    with ps obtain k where k: "heap_at s' lo hi (insert (unat p, k) L)" "page_of p = p" "lo \<le> unat p"
      "unat p + 4096 \<le> hi" "\<not> kept lo hi L p" "kept lo hi (insert (unat p, k) L) p"
      "kmem s' = (\<lambda>a. if page_of a = p then 0 else kmem s a)" by auto
    note tb = table_branch [OF K k(2-4)]
    let ?s = "store (slot t i) (pte_table A (hhdm_virt_to_phys K p)) s'"
    from kept_tables [OF inv, of t] k(5) have t: "page_of t = t" "t \<noteq> p" by auto
    have z: "kmem ?s (slot p j) = 0" if "j < 512" for j
      using that k(2,7) t i by (simp add: slot_eq_iff)
    have flat: "pt_wf l K (kmem ?s) p" "tables_of l K (kmem ?s) p = {p}"
      using z zero_absent K(1) k(2) by (intro flat_table; simp add: branch_def)+
    have "view_at l K perm (kmem ?s) p va = None" for va
      using z zero_absent K(1) by (cases l) (simp_all add: view_at_def mmu_walk.simps)
    moreover have "pt_index va (Suc l) = i \<Longrightarrow> view_at (Suc l) K perm (kmem s) t va = None" for va
      using e K(1) by (auto simp: view_at_def mmu_walk.simps)
    ultimately have v: "\<forall>va. pt_index va (Suc l) = i \<longrightarrow>
        view_at l K perm (kmem ?s) p va = view_at (Suc l) K perm (kmem s) t va" by simp
    have nb: "\<not> branch K (kmem s (slot t i)) (Suc l)" using e K(1) by (simp add: branch_def)
    have "grown perm (Suc l) K lo hi t s L ?s (insert (unat p, k) L)"
      by (rule grown_link [OF inv i nb k(2,5,6) _ _ _ _ _ _ flat v]) (use k tb sv in auto)
    with False p(1) tb show ?thesis by auto
  qed
qed

end

context pte_arch
begin

text \<open>The entries of the table that replaces a huge page translate as the huge page did.\<close>

lemma split_view:
  assumes K: "arch K = A" and l: "l < 3"
    and e: "pte_present A e" "pte_is_leaf A e (Suc l)" "huge_ok K e (Suc l)"
    and m: "m (slot p (pt_index va l)) =
      pte_child_leaf A e (pte_phys A e + of_nat (unat (pt_index va l)) * push_bit (12 + l * 9) 1) l"
  shows "view_at l K perm m p va = Some (leaf_view K perm va (Suc l, e))"
proof -
  note cl = child_leaf [OF e(1,2) huge_child_pa_ok(1) [OF e(3) pt_index_less l, unfolded K]]
  have "mmu_walk l K m p va = Some (l, m (slot p (pt_index va l)))"
    by (rule walk_leaf) (use cl K m in auto)
  moreover from e(3) have "pte_phys A e AND (span (Suc l) - 1) = 0" by (simp add: huge_ok_def K)
  note split_phys [OF this l, of va]
  ultimately show ?thesis
    using cl K m by (simp add: view_at_def leaf_view_def)
qed

lemma split_table_flat:
  assumes K: "arch K = A" and l: "l < 3" and p: "page_of p = p"
    and e: "pte_present A e" "pte_is_leaf A e (Suc l)" "huge_ok K e (Suc l)"
    and m: "\<forall>j < 512. m (slot p j) =
      pte_child_leaf A e (pte_phys A e + of_nat (unat j) * push_bit (12 + l * 9) 1) l"
  shows "pt_wf l K m p" "tables_of l K m p = {p}"
proof -
  have leaf: "pte_present A (m (slot p j)) \<and> pte_is_leaf A (m (slot p j)) l \<and> huge_ok K (m (slot p j)) l"
    if j: "j < 512" for j
  proof -
    note ok = huge_child_pa_ok [OF e(3) j l, unfolded K]
    from child_leaf [OF e(1,2) ok(1)] m j ok show ?thesis
      by (simp add: huge_ok_def K)
  qed
  show "pt_wf l K m p" "tables_of l K m p = {p}"
    by (rule flat_table; use p leaf K in \<open>auto simp: branch_def\<close>)+
qed

lemma split_leaf_grown:
  fixes s :: "'a vm_state_scheme"
  assumes K: "arch K = A" "direct_map K lo hi" and inv: "tree_inv (Suc l) K lo hi L s t" and i: "i < 512"
    and l: "l < 3"
    and e: "pte_present A (kmem s (slot t i))" "pte_is_leaf A (kmem s (slot t i)) (Suc l)"
  shows "\<exists>r s' L'. split_leaf K (slot t i) (Suc l) s = Some (r, s') \<and>
    grown perm (Suc l) K lo hi t s L s' L' \<and> tlb_log s' = tlb_log s \<and>
    (r = - 1 \<or> r = 0 \<and> branch K (kmem s' (slot t i)) (Suc l))"
proof -
  let ?e = "kmem s (slot t i)"
  let ?f = "\<lambda>n. pte_child_leaf A ?e (pte_phys A ?e + of_nat n * push_bit (12 + l * 9) 1) l"
  from inv have h: "heap_at s lo hi L" and wf: "pt_wf (Suc l) K (kmem s) t" by (auto simp: tree_inv_def)
  have huge: "huge_ok K ?e (Suc l)" using pt_wf_huge [OF wf i] e K(1) by simp
  from pt_pool_alloc_fresh [OF h] obtain p s' where p: "pt_pool_alloc s = Some (p, s')"
    "mem_state.more s' = mem_state.more s" and ps: "if p = NULL then heap_at s' lo hi L \<and> kmem s' = kmem s
     else \<exists>k. heap_at s' lo hi (insert (unat p, k) L) \<and> page_of p = p \<and> lo \<le> unat p \<and>
       unat p + 4096 \<le> hi \<and> \<not> kept lo hi L p \<and> kept lo hi (insert (unat p, k) L) p \<and>
       kmem s' = (\<lambda>a. if page_of a = p then 0 else kmem s a)" by blast
  from same_vm_more [OF p(2)] have sv: "same_vm s s'" "tlb_log s' = tlb_log s" by auto
  show ?thesis
  proof (cases "p = NULL")
    case True
    with ps p(1) sv grown_same_mem [OF inv _ _ sv(1)] show ?thesis
      by (auto simp: split_leaf_def Let_def)
  next
    case False
    with ps obtain k where k: "heap_at s' lo hi (insert (unat p, k) L)" "page_of p = p" "lo \<le> unat p"
      "unat p + 4096 \<le> hi" "\<not> kept lo hi L p" "kept lo hi (insert (unat p, k) L) p"
      "kmem s' = (\<lambda>a. if page_of a = p then 0 else kmem s a)" by auto
    note tb = table_branch [OF K k(2-4)]
    let ?s = "store (slot t i) (pte_table A (hhdm_virt_to_phys K p)) (s'\<lparr>kmem := fill_table p ?f (kmem s')\<rparr>)"
    from kept_tables [OF inv, of t] k(5) have t: "page_of t = t" "t \<noteq> p" by auto
    have z: "\<forall>j < 512. kmem ?s (slot p j) = ?f (unat j)"
      using k(2) t i by (simp add: slot_eq_iff fill_table_slot)
    note flat = split_table_flat [OF K(1) l k(2) e huge z]
    have v: "\<forall>va. pt_index va (Suc l) = i \<longrightarrow>
        view_at l K perm (kmem ?s) p va = view_at (Suc l) K perm (kmem s) t va"
    proof (intro allI impI)
      fix va assume va: "pt_index va (Suc l) = i"
      have "mmu_walk (Suc l) K (kmem s) t va = Some (Suc l, ?e)"
        by (rule walk_leaf) (use va e K in auto)
      with split_view [OF K(1) l e huge, of "kmem ?s" p va] z
      show "view_at l K perm (kmem ?s) p va = view_at (Suc l) K perm (kmem s) t va"
        by (simp add: view_at_def)
    qed
    have nb: "\<not> branch K ?e (Suc l)" using e K(1) by (simp add: branch_def)
    have m: "\<forall>a. page_of a \<noteq> p \<longrightarrow> a \<noteq> slot t i \<longrightarrow> kmem ?s a = kmem s a"
      using k(2,7) by (simp add: fill_table_other)
    have "grown perm (Suc l) K lo hi t s L ?s (insert (unat p, k) L)"
      by (rule grown_link [OF inv i nb k(2,5,6) _ _ _ m _ _ flat v]) (use k(1) tb sv in auto)
    moreover have "split_leaf K (slot t i) (Suc l) s = Some (0, ?s)"
      using p(1) False K(1) by (simp add: split_leaf_def Let_def)
    ultimately show ?thesis
      using tb sv(2) by fastforce
  qed
qed

end

section \<open>The walks of the three page operations\<close>

lemma tree_inv_child:
  assumes "tree_inv (Suc l) K lo hi L s t" "i < 512" "branch K (kmem s (slot t i)) (Suc l)"
  shows "tree_inv l K lo hi L s (child K (kmem s (slot t i)))"
  using assms tables_siblings [OF assms(2), of l K "kmem s" t] pt_wf_child [of l K "kmem s" t i]
  by (auto simp: tree_inv_def)

context pte_arch
begin

text \<open>
  What one walk may do: grow the tree, and either stop with a status or reach the level-0
  table of \<open>virt\<close>.
\<close>

definition walked ::
  "int set \<Rightarrow> nat \<Rightarrow> 'b kernel_build_scheme \<Rightarrow> nat \<Rightarrow> nat \<Rightarrow> u64 \<Rightarrow> u64 \<Rightarrow> 'a vm_state_scheme \<Rightarrow> (nat \<times> nat) set \<Rightarrow>
   ((int + u64) \<times> 'a vm_state_scheme) option \<Rightarrow> bool" where
  "walked R l K lo hi virt t s L res \<longleftrightarrow> (\<exists>r s' L'. res = Some (r, s') \<and> grown perm l K lo hi t s L s' L' \<and>
     (case r of Inl x \<Rightarrow> x \<in> R | Inr t0 \<Rightarrow> leaf_table l K (kmem s') t virt = Some t0))"

lemma walked_stop: "grown perm l K lo hi t s L s' L' \<Longrightarrow> x \<in> R \<Longrightarrow> walked R l K lo hi virt t s L (Some (Inl x, s'))"
  unfolding walked_def by auto

lemma walked_step:
  assumes g: "grown perm (Suc l) K lo hi t s L s' L'" and b: "branch K (kmem s' (slot t (pt_index virt (Suc l)))) (Suc l)"
    and c: "child K (kmem s' (slot t (pt_index virt (Suc l)))) = c"
    and w: "walked R l K lo hi virt c s' L' res"
  shows "walked R (Suc l) K lo hi virt t s L res"
proof -
  have i: "pt_index virt (Suc l) < 512" by simp
  from w obtain r s'' L'' where r: "res = Some (r, s'')" "grown perm l K lo hi c s' L' s'' L''"
    "case r of Inl x \<Rightarrow> x \<in> R | Inr t0 \<Rightarrow> leaf_table l K (kmem s'') c virt = Some t0"
    unfolding walked_def by blast
  from g have "tree_inv (Suc l) K lo hi L' s' t" by (simp add: grown_def)
  note gc = grown_child [OF this i b c r(2)]
  have "grown perm (Suc l) K lo hi t s L s'' L''" by (rule grown_trans [OF g gc(1)])
  moreover have "leaf_table (Suc l) K (kmem s'') t virt = leaf_table l K (kmem s'') c virt"
    using gc(2) b c by (simp add: Let_def)
  ultimately show ?thesis using r unfolding walked_def by (auto split: sum.splits)
qed

lemma split_and_flush_grown:
  fixes s :: "'a vm_state_scheme"
  assumes K: "arch K = A" "direct_map K lo hi" and inv: "tree_inv (Suc l) K lo hi L s t" and i: "i < 512"
    and l: "l < 3" and e: "pte_present A (kmem s (slot t i))" "pte_is_leaf A (kmem s (slot t i)) (Suc l)"
  shows "\<exists>r s' L'. split_and_flush K virt (slot t i) (Suc l) s = Some (r, s') \<and>
    grown perm (Suc l) K lo hi t s L s' L' \<and>
    (r = - 1 \<or> r = 0 \<and> branch K (kmem s' (slot t i)) (Suc l))"
proof -
  from split_leaf_grown [OF K inv i l e] obtain r s' L' where s': "split_leaf K (slot t i) (Suc l) s = Some (r, s')"
    "grown perm (Suc l) K lo hi t s L s' L'" "r = - 1 \<or> r = 0 \<and> branch K (kmem s' (slot t i)) (Suc l)"
    by blast
  have "\<exists>ops. flush_range A (virt AND NOT (push_bit (12 + Suc l * 9) 1 - 1)) (push_bit (12 + Suc l * 9) 1) s' =
      Some (s'\<lparr>tlb_log := tlb_log s' @ ops\<rparr>)"
    using flush_returns [of "Suc l" virt] l unfolding flush_range_def region_base_def span_def
    by auto
  then obtain ops where "flush_range A (virt AND NOT (push_bit (12 + Suc l * 9) 1 - 1)) (push_bit (12 + Suc l * 9) 1) s' =
      Some (s'\<lparr>tlb_log := tlb_log s' @ ops\<rparr>)" by blast
  with s' K(1) grown_flush [OF s'(2)] show ?thesis
    unfolding split_and_flush_def Let_def by (auto simp del: push_bit_of_1 push_bit_numeral)
qed

lemma map_walk_walked:
  assumes K: "arch K = A" "direct_map K lo hi" and "tree_inv l K lo hi L s t" "l \<le> 3"
  shows "walked {- 1} l K lo hi virt t s L (map_walk K virt l t s)"
  using assms(3,4)
proof (induction l arbitrary: t s L)
  case 0
  then show ?case unfolding walked_def using grown_refl by fastforce
next
  case (Suc l)
  let ?i = "pt_index virt (Suc l)"
  let ?e = "kmem s (slot t ?i)"
  have i: "?i < 512" and l: "l < 3" "l \<le> 3" using Suc.prems(2) by auto
  have go: "walked {- 1} l K lo hi virt (child K (kmem s' (slot t ?i))) s' L'
      (map_walk K virt l (child K (kmem s' (slot t ?i))) s')"
    if "grown perm (Suc l) K lo hi t s L s' L'" "branch K (kmem s' (slot t ?i)) (Suc l)" for s' L'
    using that Suc.IH [OF tree_inv_child [OF _ i] l(2)] by (simp add: grown_def)
  consider "\<not> pte_present A ?e" | "pte_present A ?e" "pte_is_leaf A ?e (Suc l)" | "branch K ?e (Suc l)"
    using K(1) by (auto simp: branch_def)
  then show ?case
  proof cases
    case 1
    from new_table_grown [OF K Suc.prems(1) i 1] obtain p s' where p: "pt_pool_alloc s = Some (p, s')"
      and ps: "if p = NULL then grown perm (Suc l) K lo hi t s L s' L
       else \<exists>L'. grown perm (Suc l) K lo hi t s L (store (slot t ?i) (pte_table A (hhdm_virt_to_phys K p)) s') L' \<and>
         branch K (pte_table A (hhdm_virt_to_phys K p)) (Suc l) \<and>
         child K (pte_table A (hhdm_virt_to_phys K p)) = p" by blast
    show ?thesis
    proof (cases "p = NULL")
      case True
      with ps p 1 K(1) show ?thesis by (auto simp: Let_def intro!: walked_stop)
    next
      case False
      let ?s = "store (slot t ?i) (pte_table A (hhdm_virt_to_phys K p)) s'"
      from ps False obtain L' where g: "grown perm (Suc l) K lo hi t s L ?s L'"
        "branch K (kmem ?s (slot t ?i)) (Suc l)" "child K (kmem ?s (slot t ?i)) = p" by auto
      from walked_step [OF g go [OF g(1,2), unfolded g(3)]] p False 1 K(1) show ?thesis
        by (simp add: Let_def)
    qed
  next
    case 2
    from split_and_flush_grown [OF K Suc.prems(1) i l(1) 2, of virt] obtain r s' L' where
      r: "split_and_flush K virt (slot t ?i) (Suc l) s = Some (r, s')" "grown perm (Suc l) K lo hi t s L s' L'"
      "r = - 1 \<or> r = 0 \<and> branch K (kmem s' (slot t ?i)) (Suc l)" by blast
    show ?thesis
    proof (cases "r = 0")
      case True
      with r(3) have b: "branch K (kmem s' (slot t ?i)) (Suc l)" by simp
      from walked_step [OF r(2) b refl go [OF r(2) b]] r(1) True 2 K(1) show ?thesis
        by (simp add: Let_def child_def)
    next
      case False
      with r 2 K(1) show ?thesis by (auto simp: Let_def intro!: walked_stop)
    qed
  next
    case 3
    note g = grown_refl [OF Suc.prems(1)]
    from walked_step [OF g 3 refl go [OF g 3]] 3 show ?thesis
      by (simp add: Let_def branch_def child_def)
  qed
qed

lemma edit_walk_walked:
  assumes K: "arch K = A" "direct_map K lo hi" and "tree_inv l K lo hi L s t" "l \<le> 3"
  shows "walked {absent, - 1} l K lo hi virt t s L (edit_walk K absent virt l t s)"
  using assms(3,4)
proof (induction l arbitrary: t s L)
  case 0
  then show ?case unfolding walked_def using grown_refl by fastforce
next
  case (Suc l)
  let ?i = "pt_index virt (Suc l)"
  let ?e = "kmem s (slot t ?i)"
  have i: "?i < 512" and l: "l < 3" "l \<le> 3" using Suc.prems(2) by auto
  have go: "walked {absent, - 1} l K lo hi virt (child K (kmem s' (slot t ?i))) s' L'
      (edit_walk K absent virt l (child K (kmem s' (slot t ?i))) s')"
    if "grown perm (Suc l) K lo hi t s L s' L'" "branch K (kmem s' (slot t ?i)) (Suc l)" for s' L'
    using that Suc.IH [OF tree_inv_child [OF _ i] l(2)] by (simp add: grown_def)
  note g = grown_refl [OF Suc.prems(1)]
  consider "\<not> pte_present A ?e" | "pte_present A ?e" "pte_is_leaf A ?e (Suc l)" | "branch K ?e (Suc l)"
    using K(1) by (auto simp: branch_def)
  then show ?case
  proof cases
    case 1
    with g K(1) show ?thesis by (auto simp: Let_def intro!: walked_stop)
  next
    case 2
    from split_and_flush_grown [OF K Suc.prems(1) i l(1) 2, of virt] obtain r s' L' where
      r: "split_and_flush K virt (slot t ?i) (Suc l) s = Some (r, s')" "grown perm (Suc l) K lo hi t s L s' L'"
      "r = - 1 \<or> r = 0 \<and> branch K (kmem s' (slot t ?i)) (Suc l)" by blast
    show ?thesis
    proof (cases "r = 0")
      case True
      with r(3) have b: "branch K (kmem s' (slot t ?i)) (Suc l)" by simp
      from walked_step [OF r(2) b refl go [OF r(2) b]] r(1) True 2 K(1) show ?thesis
        by (simp add: Let_def child_def)
    next
      case False
      with r 2 K(1) show ?thesis by (auto simp: Let_def intro!: walked_stop)
    qed
  next
    case 3
    from walked_step [OF g 3 refl go [OF g 3]] 3 show ?thesis
      by (simp add: Let_def branch_def child_def)
  qed
qed

text \<open>Absent entries end the walk only where nothing is mapped.\<close>

lemma edit_walk_absent:
  "edit_walk K absent virt l t s = Some (Inl r, s') \<Longrightarrow> absent \<noteq> - 1 \<Longrightarrow> r = absent \<Longrightarrow>
   arch K = A \<Longrightarrow> direct_map K lo hi \<Longrightarrow> tree_inv l K lo hi L s t \<Longrightarrow> l \<le> 3 \<Longrightarrow>
   view_at l K perm (kmem s) t virt = None"
proof (induction l arbitrary: t s L)
  case (Suc l)
  let ?i = "pt_index virt (Suc l)"
  let ?e = "kmem s (slot t ?i)"
  have i: "?i < 512" and l: "l < 3" "l \<le> 3" using Suc.prems(7) by auto
  note g = grown_refl [OF Suc.prems(6)]
  consider "\<not> pte_present A ?e" | "pte_present A ?e" "pte_is_leaf A ?e (Suc l)" | "branch K ?e (Suc l)"
    using Suc.prems(4) by (auto simp: branch_def)
  then show ?case
  proof cases
    case 1
    then show ?thesis using Suc.prems(4) by (simp add: view_at_def mmu_walk.simps)
  next
    case 2
    from split_and_flush_grown [OF Suc.prems(4-6) i l(1) 2, of virt] obtain r1 s1 L1 where
      r: "split_and_flush K virt (slot t ?i) (Suc l) s = Some (r1, s1)" "grown perm (Suc l) K lo hi t s L s1 L1"
      "r1 = - 1 \<or> r1 = 0 \<and> branch K (kmem s1 (slot t ?i)) (Suc l)" by blast
    with Suc.prems(1-4) 2 have b: "branch K (kmem s1 (slot t ?i)) (Suc l)" and
      "edit_walk K absent virt l (child K (kmem s1 (slot t ?i))) s1 = Some (Inl r, s')"
      by (auto simp: Let_def child_def)
    from Suc.IH [OF this(2) Suc.prems(2-5) tree_inv_child [OF _ i b] l(2)] r(2)
    have "view_at l K perm (kmem s1) (child K (kmem s1 (slot t ?i))) virt = None" unfolding grown_def by blast
    then have "view_at (Suc l) K perm (kmem s1) t virt = None"
      using b by (simp add: view_at_def mmu_walk.simps Let_def branch_def child_def)
    then show ?thesis using r(2) by (simp add: grown_def)
  next
    case 3
    with Suc.prems(1) have "edit_walk K absent virt l (child K ?e) s = Some (Inl r, s')"
      by (simp add: Let_def branch_def child_def)
    from Suc.IH [OF this Suc.prems(2-5) tree_inv_child [OF Suc.prems(6) i 3] l(2)] 3
    show ?thesis by (simp add: view_at_def mmu_walk.simps Let_def branch_def child_def)
  qed
qed simp

end

section \<open>Mapping, protecting and unmapping a page\<close>

text \<open>Setting the entry of \<open>virt\<close> in the level-0 table a walk has reached.\<close>

definition edited ::
  "'b kernel_build_scheme \<Rightarrow> (u64 \<Rightarrow> page_perm) \<Rightarrow> nat \<Rightarrow> nat \<Rightarrow> u64 \<Rightarrow> u64 \<Rightarrow> u64 \<Rightarrow>
   'a vm_state_scheme \<Rightarrow> (nat \<times> nat) set \<Rightarrow> 'a vm_state_scheme \<Rightarrow> bool" where
  "edited K perm lo hi t virt e s L s' \<longleftrightarrow> tlb_log s' \<noteq> [] \<and> last (tlb_log s') = Flush_Page virt \<and>
     (\<exists>L'. L \<subseteq> L' \<and> tree_inv 3 K lo hi L' s' t) \<and> only_heap_outside 3 K lo hi t s L s' \<and> same_vm s s' \<and>
     (\<forall>va. view_at 3 K perm (kmem s') t va =
        (if same_page 3 va virt then (if pte_present (arch K) e then Some (leaf_view K perm va (0, e)) else None)
         else view_at 3 K perm (kmem s) t va))"

lemma same_page_refl [simp]: "same_page l va va"
  by (simp add: same_page_def)

lemma grown_edited:
  assumes g: "grown perm 3 K lo hi t s L s' L'" and lt: "leaf_table 3 K (kmem s') t virt = Some t0"
  shows "edited K perm lo hi t virt e s L (flush_page virt (store (slot t0 (pt_index virt 0)) e s'))"
proof -
  let ?m = "(kmem s')(slot t0 (pt_index virt 0) := e)"
  from g have inv: "tree_inv 3 K lo hi L' s' t" by (simp add: grown_def)
  then have wf: "pt_wf 3 K (kmem s') t" by (simp add: tree_inv_def)
  note sl = set_leaf [OF wf lt, of e perm]
  from leaf_table_in [OF lt] kept_tables [OF inv] have t0: "t0 \<in> tables_of 3 K (kmem s') t" "page_of t0 = t0"
    by auto
  have "tree_inv 3 K lo hi L' (flush_page virt (store (slot t0 (pt_index virt 0)) e s')) t"
    using inv sl by (simp add: tree_inv_def flush_page_def heap_at_def heap_rel_def)
  moreover have "only_heap_outside 3 K lo hi t s L (flush_page virt (store (slot t0 (pt_index virt 0)) e s'))"
  proof -
    have o: "only_heap_outside 3 K lo hi t s L s'" using g by (simp add: grown_def)
    have "kmem s' a = ?m a" if "kept lo hi L (page_of a)" "page_of a \<notin> tables_of 3 K (kmem s) t" for a
    proof -
      have "page_of a \<noteq> t0" using that o t0(1) unfolding only_heap_outside_def by blast
      then have "a \<noteq> slot t0 (pt_index virt 0)" using t0(2) by auto
      then show ?thesis by simp
    qed
    with o sl show ?thesis by (simp add: only_heap_outside_def flush_page_def)
  qed
  ultimately show ?thesis
    using g sl unfolding edited_def by (auto simp: grown_def same_vm_def flush_page_def)
qed

text \<open>The page a level-0 entry maps.\<close>

lemma leaf_table_view:
  assumes "leaf_table l K m t virt = Some t0" "pte_present (arch K) (m (slot t0 (pt_index virt 0)))"
    and "same_page l va virt"
  shows "view_at l K perm m t va = Some (leaf_view K perm va (0, m (slot t0 (pt_index virt 0))))"
  using assms
proof (induction l arbitrary: t)
  case 0
  then show ?case by (simp add: view_at_def same_page_def)
next
  case (Suc l)
  then show ?case
    by (auto simp: view_at_def mmu_walk.simps same_page_Suc Let_def branch_def child_def split: if_splits)
qed

context pte_arch
begin

lemma map_page_4k_edited:
  assumes K: "arch K = A" "direct_map K lo hi" and inv: "tree_inv 3 K lo hi L s t" and t: "t \<noteq> NULL"
  shows "\<exists>r s'. map_page_4k K t virt phys flags s = Some (r, s') \<and>
    (r = 0 \<and> edited K perm lo hi t virt (pte_leaf A phys flags False) s L s' \<or>
     r = - 1 \<and> (\<exists>L'. grown perm 3 K lo hi t s L s' L'))"
proof -
  from map_walk_walked [OF K inv, of virt] obtain r s' L' where w: "map_walk K virt 3 t s = Some (r, s')"
    "grown perm 3 K lo hi t s L s' L'"
    "case r of Inl x \<Rightarrow> x \<in> {- 1} | Inr t0 \<Rightarrow> leaf_table 3 K (kmem s') t virt = Some t0"
    unfolding walked_def by auto
  show ?thesis
  proof (cases r)
    case (Inl x)
    with w t show ?thesis by (auto simp: map_page_4k_def)
  next
    case (Inr t0)
    with w(3) have "leaf_table 3 K (kmem s') t virt = Some t0" by simp
    from grown_edited [OF w(2) this] w(1) Inr t K(1) show ?thesis by (simp add: map_page_4k_def)
  qed
qed

lemma unmap_page_4k_edited:
  assumes K: "arch K = A" "direct_map K lo hi" and inv: "tree_inv 3 K lo hi L s t" and t: "t \<noteq> NULL"
  shows "\<exists>r s'. unmap_page_4k K t virt s = Some (r, s') \<and>
    (r = 0 \<and> (edited K perm lo hi t virt 0 s L s' \<or>
              view_at 3 K perm (kmem s) t virt = None \<and> (\<exists>L'. grown perm 3 K lo hi t s L s' L')) \<or>
     r = - 1 \<and> (\<exists>L'. grown perm 3 K lo hi t s L s' L'))"
proof -
  from edit_walk_walked [OF K inv, of 0 virt] obtain r s' L' where w: "edit_walk K 0 virt 3 t s = Some (r, s')"
    "grown perm 3 K lo hi t s L s' L'"
    "case r of Inl x \<Rightarrow> x \<in> {0, - 1} | Inr t0 \<Rightarrow> leaf_table 3 K (kmem s') t virt = Some t0"
    unfolding walked_def by auto
  show ?thesis
  proof (cases r)
    case (Inl x)
    then have "x = 0 \<Longrightarrow> view_at 3 K perm (kmem s) t virt = None"
      using edit_walk_absent [OF w(1) [unfolded Inl] _ _ K inv] by simp
    with w Inl t show ?thesis by (auto simp: unmap_page_4k_def)
  next
    case (Inr t0)
    with w(3) have "leaf_table 3 K (kmem s') t virt = Some t0" by simp
    from grown_edited [OF w(2) this] w(1) Inr t K(1) show ?thesis by (simp add: unmap_page_4k_def)
  qed
qed

lemma protect_page_4k_edited:
  assumes K: "arch K = A" "direct_map K lo hi" and inv: "tree_inv 3 K lo hi L s t" and t: "t \<noteq> NULL"
  shows "\<exists>r s'. protect_page_4k K t virt flags s = Some (r, s') \<and>
    (r = 0 \<and> (\<exists>old. edited K perm lo hi t virt (pte_leaf A (pte_phys A old) flags False) s L s' \<and>
        (\<forall>va. same_page 3 va virt \<longrightarrow> view_at 3 K perm (kmem s) t va = Some (leaf_view K perm va (0, old)))) \<or>
     r = - 1 \<and> (\<exists>L'. grown perm 3 K lo hi t s L s' L'))"
proof -
  from edit_walk_walked [OF K inv, of "- 1" virt] obtain r s' L' where w: "edit_walk K (- 1) virt 3 t s = Some (r, s')"
    "grown perm 3 K lo hi t s L s' L'"
    "case r of Inl x \<Rightarrow> x \<in> {- 1, - 1} | Inr t0 \<Rightarrow> leaf_table 3 K (kmem s') t virt = Some t0"
    unfolding walked_def by auto
  show ?thesis
  proof (cases r)
    case (Inl x)
    with w t show ?thesis by (auto simp: protect_page_4k_def)
  next
    case (Inr t0)
    with w(3) have lt: "leaf_table 3 K (kmem s') t virt = Some t0" by simp
    let ?old = "kmem s' (slot t0 (pt_index virt 0))"
    show ?thesis
    proof (cases "pte_present A ?old")
      case True
      with leaf_table_view [OF lt, of _ perm] K(1) w(2)
      have "\<forall>va. same_page 3 va virt \<longrightarrow> view_at 3 K perm (kmem s) t va = Some (leaf_view K perm va (0, ?old))"
        by (simp add: grown_def)
      with grown_edited [OF w(2) lt] w(1) Inr t K(1) True show ?thesis
        by (auto simp: protect_page_4k_def Let_def)
    next
      case False
      with w Inr t K(1) show ?thesis by (auto simp: protect_page_4k_def Let_def)
    qed
  qed
qed

end

section \<open>Properties\<close>

text \<open>
  An address space: a well-formed four-level tree on one of the two architectures, in a
  direct map that holds the heap. Its translation maps an address to the physical address
  and the permissions of its page.
\<close>

definition supported :: "'b kernel_build_scheme \<Rightarrow> (u64 \<Rightarrow> page_perm) \<Rightarrow> bool" where
  "supported K perm \<longleftrightarrow> arch K = x86_64 \<and> perm = x86_perm \<or> arch K = riscv64 \<and> perm = rv_perm"

lemma supported_arch: "supported K perm \<Longrightarrow> pte_arch (arch K) perm"
  using x86.pte_arch_axioms riscv.pte_arch_axioms by (auto simp: supported_def)

definition address_space ::
  "'b kernel_build_scheme \<Rightarrow> (u64 \<Rightarrow> page_perm) \<Rightarrow> nat \<Rightarrow> nat \<Rightarrow> (nat \<times> nat) set \<Rightarrow> 'a vm_state_scheme \<Rightarrow> u64 \<Rightarrow> bool" where
  "address_space K perm lo hi L s t \<longleftrightarrow>
     supported K perm \<and> direct_map K lo hi \<and> tree_inv 3 K lo hi L s t \<and> t \<noteq> NULL"

definition translate ::
  "'b kernel_build_scheme \<Rightarrow> (u64 \<Rightarrow> page_perm) \<Rightarrow> 'a vm_state_scheme \<Rightarrow> u64 \<Rightarrow> u64 \<Rightarrow> (u64 \<times> page_perm) option" where
  "translate K perm s t va = view_at 3 K perm (kmem s) t va"

lemma address_space_grown:
  "address_space K perm lo hi L s t \<Longrightarrow> grown perm 3 K lo hi t s L s' L' \<Longrightarrow>
   L \<subseteq> L' \<and> address_space K perm lo hi L' s' t \<and> translate K perm s' t va = translate K perm s t va"
  by (auto simp: address_space_def grown_def translate_def)

lemma address_space_edited:
  "address_space K perm lo hi L s t \<Longrightarrow> edited K perm lo hi t virt e s L s' \<Longrightarrow>
   (\<exists>L'. L \<subseteq> L' \<and> address_space K perm lo hi L' s' t) \<and> translate K perm s' t va =
     (if same_page 3 va virt then (if pte_present (arch K) e then Some (leaf_view K perm va (0, e)) else None)
      else translate K perm s t va)"
  by (auto simp: address_space_def edited_def translate_def)

lemma page_offset_mask: "span 0 - 1 = 0xFFF"
  by (simp add: span_mask mask_numeral)


text \<open>C8: unmap_page_4k returns; on success no address of the page translates any more, on failure
  nothing translates differently, and in either case every other address translates as before.\<close>

theorem unmap_page_4k_translates:
  assumes "address_space K perm lo hi L s t"
  shows "\<exists>r s' L'. unmap_page_4k K t virt s = Some (r, s') \<and> (r = 0 \<or> r = - 1) \<and>
    L \<subseteq> L' \<and> address_space K perm lo hi L' s' t \<and> (r = 0 \<longrightarrow> translate K perm s' t virt = None) \<and>
    (\<forall>va. r = - 1 \<or> \<not> same_page 3 va virt \<longrightarrow> translate K perm s' t va = translate K perm s t va)"
proof -
  from assms(1) have sp: "pte_arch (arch K) perm" and dm: "direct_map K lo hi"
    and inv: "tree_inv 3 K lo hi L s t" and t: "t \<noteq> NULL"
    by (simp_all add: address_space_def supported_arch)
  from pte_arch.unmap_page_4k_edited [OF sp refl dm inv t, of virt] obtain r s' where
    r: "unmap_page_4k K t virt s = Some (r, s')"
    "r = 0 \<and> (edited K perm lo hi t virt 0 s L s' \<or>
        view_at 3 K perm (kmem s) t virt = None \<and> (\<exists>L'. grown perm 3 K lo hi t s L s' L')) \<or>
     r = - 1 \<and> (\<exists>L'. grown perm 3 K lo hi t s L s' L')" by blast
  from r(2) show ?thesis
  proof (elim disjE conjE exE)
    assume "r = 0" and ed: "edited K perm lo hi t virt 0 s L s'"
    with address_space_edited [OF assms(1) ed] r(1) pte_arch.zero_absent [OF sp] show ?thesis by auto
  next
    fix L' assume "r = 0" "view_at 3 K perm (kmem s) t virt = None" and g: "grown perm 3 K lo hi t s L s' L'"
    with address_space_grown [OF assms(1) g] r(1) show ?thesis by (auto simp: translate_def)
  next
    fix L' assume "r = - 1" and g: "grown perm 3 K lo hi t s L s' L'"
    with address_space_grown [OF assms(1) g] r(1) show ?thesis by auto
  qed
qed


text \<open>
  For the witnesses: an Sv48 address space whose root maps the first 512 GiB as one page, next
  to a heap of 64 KiB.
\<close>

definition example_build :: kernel_build where
  "example_build = \<lparr>boot_with = LIMINE, hhdm_response = Some 0, exec_addr_response = None,
     image_end = 0xFFFFFFFF80200000, arch = riscv64\<rparr>"

definition example_leaf :: u64 where
  "example_leaf = pte_leaf riscv64 0 VMF_WRITE True"

definition example_vm :: vm_state where
  "example_vm = \<lparr>hp_head = 0x100000,
     hp_blocks = [0x100000 \<mapsto> \<lparr>hb_size = 0x10000, hb_next = NULL, hb_free = True\<rparr>],
     pmm_initialized = True, kmem = (\<lambda>_. 0)(0x200000 := example_leaf),
     page_table_l4 = 0x200000, tlb_log = []\<rparr>"

lemma example_vm_heap: "heap_at example_vm 0x100000 0x110018 {}"
  unfolding heap_at_def
  by (intro conjI exI [where x = "[(0x100000, 0x10000, True)]"]) (auto simp: example_vm_def heap_rel_def)

lemma example_vm_tables:
  "pt_wf 3 example_build (kmem example_vm) 0x200000"
  "tables_of 3 example_build (kmem example_vm) 0x200000 = {0x200000}"
proof -
  have p: "page_of 0x200000 = 0x200000" by (simp add: page_aligned_iff)
  have "slot 0x200000 0 = 0x200000" by (simp add: slot_def)
  then have m: "kmem example_vm (slot 0x200000 i) = (if i = 0 then example_leaf else 0)" if "i < 512" for i
    using that slot_inj [of i 0 "0x200000"] by (auto simp: example_vm_def)
  have pa: "pa_ok 0" by (simp add: pa_ok_def)
  note lf = riscv.leaf_entry [OF pa, of VMF_WRITE True, folded example_leaf_def] riscv.zero_absent
  have e: "\<not> branch example_build (kmem example_vm (slot 0x200000 i)) 3"
    "pte_present riscv64 (kmem example_vm (slot 0x200000 i)) \<Longrightarrow>
       huge_ok example_build (kmem example_vm (slot 0x200000 i)) 3" if "i < 512" for i
    using lf pa by (auto simp: m [OF that] branch_def example_build_def huge_ok_def split: if_splits)
  show "pt_wf 3 example_build (kmem example_vm) 0x200000"
    "tables_of 3 example_build (kmem example_vm) 0x200000 = {0x200000}"
    by (rule flat_table; use p e in \<open>simp add: example_build_def\<close>)+
qed

lemma example_vm_space: "address_space example_build rv_perm 0x100000 0x110018 {} example_vm 0x200000"
  unfolding address_space_def tree_inv_def example_vm_tables(2)
  using example_vm_tables(1) example_vm_heap
  by (simp add: supported_def example_build_def direct_map_def hhdm_known_def hhdm_base_def
      phys_to_virt_def kept_def page_aligned_iff)


theorem unmap_page_4k_translates_witness:
  "\<exists>r s' L'. unmap_page_4k example_build 0x200000 0x5000 example_vm = Some (r, s') \<and> (r = 0 \<or> r = - 1) \<and>
    {} \<subseteq> L' \<and> address_space example_build rv_perm 0x100000 0x110018 L' s' 0x200000 \<and>
    (r = 0 \<longrightarrow> translate example_build rv_perm s' 0x200000 0x5000 = None) \<and>
    (\<forall>va. r = - 1 \<or> \<not> same_page 3 va 0x5000 \<longrightarrow>
       translate example_build rv_perm s' 0x200000 va = translate example_build rv_perm example_vm 0x200000 va)"
  by (rule unmap_page_4k_translates [OF example_vm_space])

lemma example_vm_translate:
  "translate example_build rv_perm example_vm 0x200000 0x5000 = Some (0x5000, flags_perm VMF_WRITE)"
proof -
  have pa: "pa_ok 0" by (simp add: pa_ok_def)
  note lf = riscv.leaf_entry [OF pa, of VMF_WRITE True, folded example_leaf_def]
  have "mmu_walk 3 example_build (kmem example_vm) 0x200000 0x5000 = Some (3, example_leaf)"
    by (rule walk_leaf) (use lf in \<open>simp_all add: example_build_def example_vm_def slot_def pt_index_def\<close>)
  with lf show ?thesis
    by (simp add: translate_def view_at_def leaf_view_def example_build_def span_def)
qed


text \<open>C10: Everything the tables of the operated space do not hold stays: a tree of tables that shares
  none with it (at any level, such as the user half of another process) translates as before
  after map_page_4k, whatever its result.\<close>

theorem map_page_4k_other_tree:
  assumes "address_space K perm lo hi L s t"
    and "pt_wf l K (kmem s) u" "\<forall>x \<in> tables_of l K (kmem s) u. kept lo hi L x"
    and "tables_of l K (kmem s) u \<inter> tables_of 3 K (kmem s) t = {}"
    and "map_page_4k K t virt phys flags s = Some (r, s')"
  shows "view_at l K perm (kmem s') u va = view_at l K perm (kmem s) u va \<and>
    pt_wf l K (kmem s') u \<and> tables_of l K (kmem s') u = tables_of l K (kmem s) u"
proof -
  from assms(1) have sp: "pte_arch (arch K) perm" and dm: "direct_map K lo hi"
    and inv: "tree_inv 3 K lo hi L s t" and t: "t \<noteq> NULL"
    by (simp_all add: address_space_def supported_arch)
  from pte_arch.map_page_4k_edited [OF sp refl dm inv t, of virt phys flags] assms(5)
  have o: "only_heap_outside 3 K lo hi t s L s'" by (auto simp: edited_def grown_def)
  have "agree (tables_of l K (kmem s) u) (kmem s) (kmem s')"
    unfolding agree_def
  proof (intro ballI allI impI)
    fix x i assume x: "x \<in> tables_of l K (kmem s) u" "(i :: u64) < 512"
    with tables_page [OF assms(2)] have "page_of (slot x i) = x" by simp
    with x assms(3,4) o show "kmem s' (slot x i) = kmem s (slot x i)"
      unfolding only_heap_outside_def by (metis disjoint_iff)
  qed
  with view_frame wf_frame tables_frame assms(2) show ?thesis by blast
qed

theorem map_page_4k_other_tree_witness:
  "\<exists>r s'. map_page_4k example_build 0x200000 0x5000 0x7000 VMF_USER example_vm = Some (r, s') \<and>
     view_at 2 example_build rv_perm (kmem s') 0x300000 0x5000 =
       view_at 2 example_build rv_perm (kmem example_vm) 0x300000 0x5000 \<and>
     pt_wf 2 example_build (kmem s') 0x300000 \<and>
     tables_of 2 example_build (kmem s') 0x300000 = tables_of 2 example_build (kmem example_vm) 0x300000"
proof -
  have p: "page_of 0x300000 = 0x300000" "page_of 0x200000 = 0x200000" by (simp_all add: page_aligned_iff)
  have m: "kmem example_vm (slot 0x300000 i) = 0" if "i < 512" for i
    using page_of_slot [OF p(1) that] p(2) by (auto simp: example_vm_def)
  have wf: "pt_wf 2 example_build (kmem example_vm) 0x300000"
    "tables_of 2 example_build (kmem example_vm) 0x300000 = {0x300000}"
    by (rule flat_table; use p m riscv.zero_absent in \<open>simp add: example_build_def branch_def\<close>)+
  obtain r s' where r: "map_page_4k example_build 0x200000 0x5000 0x7000 VMF_USER example_vm = Some (r, s')"
    using pte_arch.map_page_4k_edited [OF supported_arch refl, of example_build rv_perm]
      example_vm_space by (fastforce simp: address_space_def)
  have t: "tables_of 3 example_build (kmem example_vm) 0x200000 = {0x200000}"
    by (rule example_vm_tables(2))
  have "view_at 2 example_build rv_perm (kmem s') 0x300000 0x5000 =
      view_at 2 example_build rv_perm (kmem example_vm) 0x300000 0x5000 \<and>
    pt_wf 2 example_build (kmem s') 0x300000 \<and>
    tables_of 2 example_build (kmem s') 0x300000 = tables_of 2 example_build (kmem example_vm) 0x300000"
    by (rule map_page_4k_other_tree [OF example_vm_space wf(1) _ _ r]) (simp_all add: wf(2) t kept_def)
  with r show ?thesis by blast
qed

text \<open>vm_user_to_kernel computes what the hardware's walk gives: the kernel's address of the
  physical address an address translates to, and NULL where it does not translate.\<close>

lemma user_to_kernel_walk_view:
  "user_to_kernel_walk K m va l t =
    (case view_at l K perm m t va of None \<Rightarrow> NULL | Some (pa, _) \<Rightarrow> phys_to_virt K pa)"
proof (induction l arbitrary: t)
  case 0
  then show ?case
    by (simp add: user_to_kernel_walk.simps [of K m va 0] view_at_def Let_def leaf_view_def
        phys_to_virt_base span_def)
next
  case (Suc l)
  then show ?case
    by (simp add: user_to_kernel_walk.simps [of K m va "Suc l"] view_at_def mmu_walk.simps Let_def
        leaf_view_def phys_to_virt_base span_def)
qed

text \<open>C11: vm_user_to_kernel answers the kernel address of the byte a user address translates to, and NULL
  when it translates to nothing, on every page table and whatever the permissions.\<close>

theorem vm_user_to_kernel_translates:
  "vm_user_to_kernel K l4 va s =
    (case translate K perm s l4 va of None \<Rightarrow> NULL | Some (pa, _) \<Rightarrow> phys_to_virt K pa)"
  unfolding vm_user_to_kernel_def translate_def by (rule user_to_kernel_walk_view)

text \<open>A loop that writes the entries \<open>is\<close> of a table from memory outside it.\<close>

lemma fold_slots:
  assumes p: "page_of p = p" and "\<forall>i \<in> set is. i < 512"
    and f: "\<And>i m m'. \<forall>a. page_of a \<noteq> p \<longrightarrow> m a = m' a \<Longrightarrow> f i m = (f i m' :: u64)"
  shows "(\<forall>j < 512. fold (\<lambda>i m. m(slot p (of_nat i) := f i m)) is m (slot p j) =
            (if unat j \<in> set is then f (unat j) m else m (slot p j))) \<and>
         (\<forall>a. page_of a \<noteq> p \<longrightarrow> fold (\<lambda>i m. m(slot p (of_nat i) := f i m)) is m a = m a)"
  using assms(2)
proof (induction "is" arbitrary: m)
  case (Cons i "is")
  let ?m = "m(slot p (of_nat i) := f i m)"
  have i: "(of_nat i :: u64) < 512" "unat (of_nat i :: u64) = i"
    using Cons.prems by (simp_all add: word_less_nat_alt unat_of_nat)
  have eq: "j = of_nat i \<longleftrightarrow> unat j = i" for j :: u64
    using i(2) by (auto simp: u64_eq_iff)
  have o: "\<forall>a. page_of a \<noteq> p \<longrightarrow> ?m a = m a" using p i(1) by auto
  have "f k ?m = f k m" for k by (rule f) (use o in blast)
  with Cons.IH [of ?m] Cons.prems o i eq show ?case by (auto simp del: of_nat_unat)
qed simp

lemma clone_copy:
  fixes m :: "u64 \<Rightarrow> u64" and n N :: nat
  assumes N: "n \<le> N" "N \<le> 512" and "page_of p = p" "page_of t = t" "t \<noteq> p"
  defines "m' \<equiv> fold (\<lambda>i m. m(slot p (of_nat i) := m (slot t (of_nat i)))) [n..<N]
                  (fold (\<lambda>i m. m(slot p (of_nat i) := 0)) [0..<n] m)"
  shows "unat j < N \<Longrightarrow> m' (slot p j) = (if unat j < n then 0 else m (slot t j))"
    and "page_of a \<noteq> p \<Longrightarrow> m' a = m a"
proof -
  let ?m1 = "fold (\<lambda>i m. m(slot p (of_nat i) := 0)) [0..<n] m"
  let ?f = "\<lambda>i m. if i < 512 then m (slot t (of_nat i)) else 0"
  have c: "m' = fold (\<lambda>i m. m(slot p (of_nat i) := ?f i m)) [n..<N] ?m1"
    unfolding m'_def by (rule fold_cong) (use N in auto)
  have rd: "?f i x = ?f i y" if "\<forall>a. page_of a \<noteq> p \<longrightarrow> x a = y a" for i and x y :: "u64 \<Rightarrow> u64"
    using that assms(4,5) page_of_slot [OF assms(4), of "of_nat i"]
    by (simp add: word_less_nat_alt unat_of_nat)
  have m1: "\<forall>j < 512. ?m1 (slot p j) = (if unat j \<in> set [0..<n] then 0 else m (slot p j))"
    "\<forall>a. page_of a \<noteq> p \<longrightarrow> ?m1 a = m a"
    using N fold_slots [OF assms(3), where ?is = "[0..<n]" and f = "\<lambda>_ _. 0" and m = m] by auto
  have m2: "\<forall>j < 512. m' (slot p j) = (if unat j \<in> set [n..<N] then ?f (unat j) ?m1 else ?m1 (slot p j))"
    "\<forall>a. page_of a \<noteq> p \<longrightarrow> m' a = ?m1 a"
    unfolding c using N fold_slots [OF assms(3), where ?is = "[n..<N]" and f = ?f and m = ?m1] rd by auto
  show "page_of a \<noteq> p \<Longrightarrow> m' a = m a" using m1(2) m2(2) by simp
  assume jn: "unat j < N"
  with N have j: "j < 512" "unat j < 512" by (simp_all add: word_less_nat_alt)
  have "?m1 (slot t j) = m (slot t j)" using m1(2) j(1) assms(4,5) by simp
  moreover have "slot t (of_nat (unat j)) = slot t j" by simp
  ultimately show "m' (slot p j) = (if unat j < n then 0 else m (slot t j))"
    using m2(1) m1(1) j jn N by simp
qed

text \<open>C12: clone_page_table returns NULL, or a fresh root whose user half maps nothing and whose kernel
  half translates as the kernel's own root does; the kernel's own space is unchanged.\<close>

theorem clone_page_table_halves:
  assumes "address_space K perm lo hi L s (page_table_l4 s)"
  shows "\<exists>p s'. clone_page_table s = Some (p, s') \<and> page_table_l4 s' = page_table_l4 s \<and>
    (\<forall>va. translate K perm s' (page_table_l4 s) va = translate K perm s (page_table_l4 s) va) \<and>
    (p \<noteq> NULL \<longrightarrow> (\<forall>va. translate K perm s' p va =
       (if pt_index va 3 < 256 then None else translate K perm s (page_table_l4 s) va)))"
proof -
  let ?t = "page_table_l4 s"
  from assms(1) have sp: "pte_arch (arch K) perm" and inv: "tree_inv 3 K lo hi L s ?t"
    by (simp_all add: address_space_def supported_arch)
  from inv have h: "heap_at s lo hi L" and wf: "pt_wf 3 K (kmem s) ?t" by (auto simp: tree_inv_def)
  from pt_pool_alloc_fresh [OF h] obtain p s' where p: "pt_pool_alloc s = Some (p, s')"
    "mem_state.more s' = mem_state.more s" and ps: "if p = NULL then heap_at s' lo hi L \<and> kmem s' = kmem s
     else \<exists>k. heap_at s' lo hi (insert (unat p, k) L) \<and> page_of p = p \<and> lo \<le> unat p \<and>
       unat p + 4096 \<le> hi \<and> \<not> kept lo hi L p \<and> kept lo hi (insert (unat p, k) L) p \<and>
       kmem s' = (\<lambda>a. if page_of a = p then 0 else kmem s a)" by blast
  from same_vm_more [OF p(2)] have sv: "page_table_l4 s' = ?t" by (simp add: same_vm_def)
  show ?thesis
  proof (cases "p = NULL")
    case True
    with ps p(1) sv show ?thesis by (simp add: clone_page_table_def translate_def)
  next
    case False
    with ps have pp: "page_of p = p" "\<not> kept lo hi L p"
      and m: "\<And>a. page_of a \<noteq> p \<Longrightarrow> kmem s' a = kmem s a" by auto
    have t: "page_of ?t = ?t" "?t \<noteq> p" using kept_tables [OF inv, of ?t] pp by auto
    define m' where "m' = fold (\<lambda>i m. m(slot p (of_nat i) := m (slot ?t (of_nat i)))) [256..<512]
                  (fold (\<lambda>i m. m(slot p (of_nat i) := 0)) [0..<256] (kmem s'))"
    note cc = clone_copy [OF _ order_refl pp(1) t, where n = 256 and m = "kmem s'", folded m'_def]
    have out: "m' a = kmem s a" if "page_of a \<noteq> p" for a
      using cc(2) m that by simp
    have root: "m' (slot p j) = (if j < 256 then 0 else kmem s (slot ?t j))" if "j < 512" for j
      using cc(1) [of j] m [of "slot ?t j"] t that by (simp add: word_less_nat_alt)
    have "\<forall>x \<in> tables_of 3 K (kmem s) ?t. page_of x = x \<and> x \<noteq> p"
      using kept_tables [OF inv] pp(2) by blast
    then have ag: "agree (tables_of 3 K (kmem s) ?t) (kmem s) m'"
      using out by (auto simp: agree_def)
    have "view_at 3 K perm m' p va = (if pt_index va 3 < 256 then None else view_at 3 K perm (kmem s) ?t va)" for va
    proof -
      let ?i = "pt_index va 3"
      let ?e = "kmem s (slot ?t ?i)"
      have i: "?i < 512" by simp
      have "branch K ?e 3 \<Longrightarrow> mmu_walk 2 K m' (child K ?e) va = mmu_walk 2 K (kmem s) (child K ?e) va"
        using walk_frame [OF agree_child [of 2 K "kmem s" ?t m' ?i]] ag i by (simp add: eval_nat_numeral)
      moreover have "m' (slot p ?i) = (if ?i < 256 then 0 else ?e)" by (rule root [OF i])
      ultimately show ?thesis
        using pte_arch.zero_absent [OF sp]
        by (simp add: view_at_def eval_nat_numeral mmu_walk.simps Let_def branch_def child_def)
    qed
    with ag p(1) False sv view_frame [OF ag] show ?thesis
      by (simp add: clone_page_table_def translate_def m'_def del: upt_rec_numeral)
  qed
qed

theorem clone_page_table_halves_witness:
  "\<exists>p s'. clone_page_table example_vm = Some (p, s') \<and> page_table_l4 s' = page_table_l4 example_vm \<and>
    (\<forall>va. translate example_build rv_perm s' (page_table_l4 example_vm) va =
       translate example_build rv_perm example_vm (page_table_l4 example_vm) va) \<and>
    (p \<noteq> NULL \<longrightarrow> (\<forall>va. translate example_build rv_perm s' p va =
       (if pt_index va 3 < 256 then None
        else translate example_build rv_perm example_vm (page_table_l4 example_vm) va)))"
proof (rule clone_page_table_halves)
  have "page_table_l4 example_vm = 0x200000" by (simp add: example_vm_def)
  then show "address_space example_build rv_perm 0x100000 0x110018 {} example_vm (page_table_l4 example_vm)"
    using example_vm_space by simp
qed

subsection \<open>Changing permissions in place\<close>

text \<open>The addresses that the leaf of level \<open>k\<close> reached by \<open>virt\<close> maps.\<close>

definition same_leaf :: "nat \<Rightarrow> nat \<Rightarrow> u64 \<Rightarrow> u64 \<Rightarrow> bool" where
  "same_leaf k l va virt \<longleftrightarrow> (\<forall>j. k \<le> j \<and> j \<le> l \<longrightarrow> pt_index va j = pt_index virt j)"

lemma same_leaf_Suc: "k \<le> l \<Longrightarrow>
    same_leaf k (Suc l) va virt \<longleftrightarrow> pt_index va (Suc l) = pt_index virt (Suc l) \<and> same_leaf k l va virt"
  by (auto simp: same_leaf_def le_Suc_eq)

lemma same_leaf_self: "same_leaf l l va virt \<longleftrightarrow> pt_index va l = pt_index virt l"
  by (auto simp: same_leaf_def)

lemma mmu_walk_level: "mmu_walk l K m t va = Some (k, e) \<Longrightarrow> k \<le> l"
  by (induction l arbitrary: t) (auto simp: mmu_walk.simps Let_def split: if_splits intro: le_SucI)

lemma mmu_walk_leaf:
  "mmu_walk l K m t va = Some (k, e) \<Longrightarrow> (\<And>e. pte_is_leaf (arch K) e 0) \<Longrightarrow>
   pte_present (arch K) e \<and> pte_is_leaf (arch K) e k"
  by (induction l arbitrary: t) (auto simp: mmu_walk.simps Let_def split: if_splits)

lemma mmu_walk_same_leaf:
  "mmu_walk l K m t virt = Some (k, e) \<Longrightarrow> same_leaf k l va virt \<Longrightarrow> mmu_walk l K m t va = Some (k, e)"
proof (induction l arbitrary: t)
  case 0
  then show ?case by (auto simp: same_leaf_def Let_def split: if_splits)
next
  case (Suc l)
  then have i: "pt_index va (Suc l) = pt_index virt (Suc l)"
    using mmu_walk_level [OF Suc.prems(1)] by (simp add: same_leaf_def)
  have "same_leaf k l va virt" using Suc.prems(2) by (simp add: same_leaf_def)
  with i Suc show ?case by (auto simp: mmu_walk.simps Let_def split: if_splits)
qed

text \<open>Replacing a leaf of a table by another one.\<close>

lemma replace_leaf:
  assumes wf: "pt_wf l K m t" and i: "i < 512"
    and e: "pte_present (arch K) (m (slot t i))" "pte_is_leaf (arch K) (m (slot t i)) l"
    and e': "pte_present (arch K) e'" "pte_is_leaf (arch K) e' l"
      "pte_phys (arch K) e' = pte_phys (arch K) (m (slot t i))"
  defines "m' \<equiv> m(slot t i := e')"
  shows "pt_wf l K m' t \<and> tables_of l K m' t = tables_of l K m t \<and>
    view_at l K perm m' t va =
      (if pt_index va l = i then Some (leaf_view K perm va (l, e')) else view_at l K perm m t va)"
proof (cases l)
  case 0
  with wf i show ?thesis
    using pt_wf_page [OF wf] e' by (auto simp: m'_def view_at_def)
next
  case (Suc k)
  have t: "page_of t = t" by (rule pt_wf_page [OF wf])
  have s: "m' (slot t j) = (if j = i then e' else m (slot t j))" if "j < 512" for j
    using that i by (simp add: m'_def)
  have nb: "\<not> branch K (m (slot t i)) (Suc k)" "\<not> branch K e' (Suc k)"
    using e e' Suc by (auto simp: branch_def)
  have tc: "t \<notin> tables_of k K m (child K (m (slot t j)))" "agree (tables_of k K m (child K (m (slot t j)))) m m'"
    if "j < 512" "branch K (m (slot t j)) (Suc k)" for j
  proof -
    from pt_wf_child [OF wf [unfolded Suc] that] have c: "pt_wf k K m (child K (m (slot t j)))"
      "t \<notin> tables_of k K m (child K (m (slot t j)))" by auto
    then show "t \<notin> tables_of k K m (child K (m (slot t j)))"
      "agree (tables_of k K m (child K (m (slot t j)))) m m'"
      unfolding m'_def using agree_upd_slot [OF c(1) order_refl c(2) t i] by auto
  qed
  have b: "branch K (m' (slot t j)) (Suc k) \<Longrightarrow> branch K (m (slot t j)) (Suc k) \<and> m' (slot t j) = m (slot t j)"
    if "j < 512" for j
    using s [OF that] nb by (auto split: if_splits)
  note tf = tables_frame [OF tc(2)] and wff = wf_frame [OF tc(2)] and vf = walk_frame [OF tc(2)]
  note wf' = wf [unfolded Suc]
  have "pt_wf (Suc k) K m' t"
  proof (rule pt_wf_SucI [OF t])
    fix j assume j: "j < 512" "pte_present (arch K) (m' (slot t j))" "pte_is_leaf (arch K) (m' (slot t j)) (Suc k)"
    show "huge_ok K (m' (slot t j)) (Suc k)"
      using j s [OF j(1)] pt_wf_huge [OF wf' j(1)] pt_wf_huge [OF wf' i] e e' Suc
      by (auto simp: huge_ok_def split: if_splits)
  next
    fix j assume j: "j < 512" "branch K (m' (slot t j)) (Suc k)"
    with b tf [OF j(1)] wff [OF j(1)] pt_wf_child [OF wf' j(1)]
    show "pt_wf k K m' (child K (m' (slot t j))) \<and> t \<notin> tables_of k K m' (child K (m' (slot t j)))" by simp
  next
    fix j n assume j: "j < 512" "n < 512" "j \<noteq> n" "branch K (m' (slot t j)) (Suc k)" "branch K (m' (slot t n)) (Suc k)"
    with b tf [OF j(1)] tf [OF j(2)] pt_wf_apart [OF wf' j(1-3)]
    show "tables_of k K m' (child K (m' (slot t j))) \<inter> tables_of k K m' (child K (m' (slot t n))) = {}" by simp
  qed
  moreover have "tables_of (Suc k) K m' t = tables_of (Suc k) K m t"
  proof -
    have "{j. j < 512 \<and> branch K (m' (slot t j)) (Suc k)} = {j. j < 512 \<and> branch K (m (slot t j)) (Suc k)}"
      using b s nb by (auto split: if_splits)
    moreover have "tables_of k K m' (child K (m' (slot t j))) = tables_of k K m (child K (m (slot t j)))"
      if "j < 512" "branch K (m (slot t j)) (Suc k)" for j
      using tf [OF that] s [OF that(1)] that(2) nb(1) by auto
    ultimately show ?thesis by (simp add: tables_of.simps)
  qed
  moreover have "view_at (Suc k) K perm m' t va =
      (if pt_index va (Suc k) = i then Some (leaf_view K perm va (Suc k, e')) else view_at (Suc k) K perm m t va)"
  proof (cases "pt_index va (Suc k) = i")
    case True
    then have "mmu_walk (Suc k) K m' t va = Some (Suc k, e')"
      by (intro walk_leaf) (use e' Suc s [OF i] in auto)
    with True show ?thesis by (simp add: view_at_def)
  next
    case False
    let ?j = "pt_index va (Suc k)"
    have "m' (slot t ?j) = m (slot t ?j)" using s [of ?j] False by simp
    with False vf [of ?j va] show ?thesis
      by (simp add: view_at_def mmu_walk.simps Let_def branch_def child_def)
  qed
  ultimately show ?thesis using Suc by simp
qed

lemma update_leaf_view:
  fixes s :: "'a vm_state_scheme"
  assumes "pt_wf l K (kmem s) t"
    and f: "\<And>e k. pte_present (arch K) e \<Longrightarrow> pte_is_leaf (arch K) e k \<Longrightarrow>
      pte_present (arch K) (f e) \<and> pte_is_leaf (arch K) (f e) k \<and> pte_phys (arch K) (f e) = pte_phys (arch K) e"
    and l0: "\<And>e. pte_is_leaf (arch K) e 0"
  shows "case mmu_walk l K (kmem s) t virt of
      None \<Rightarrow> update_leaf K f virt l t s = s
    | Some (k, e) \<Rightarrow> \<exists>m'. update_leaf K f virt l t s = flush_page virt (s\<lparr>kmem := m'\<rparr>) \<and>
        pt_wf l K m' t \<and> tables_of l K m' t = tables_of l K (kmem s) t \<and>
        (\<forall>a. page_of a \<notin> tables_of l K (kmem s) t \<longrightarrow> m' a = kmem s a) \<and>
        (\<forall>va. view_at l K perm m' t va =
           (if same_leaf k l va virt then Some (leaf_view K perm va (k, f e)) else view_at l K perm (kmem s) t va))"
  using assms(1)
proof (induction l arbitrary: t)
  case 0
  let ?i = "pt_index virt 0"
  let ?e = "kmem s (slot t ?i)"
  have i: "?i < 512" by simp
  show ?case
  proof (cases "pte_present (arch K) ?e")
    case True
    note r = replace_leaf [OF 0 i True l0, of "f ?e" perm] f [OF True l0]
    then show ?thesis
      using True pt_wf_page [OF 0] i
      by (auto simp: update_leaf.simps [of K f virt 0] Let_def same_leaf_self
          intro!: exI [where x = "(kmem s)(slot t ?i := f ?e)"])
  next
    case False
    then show ?thesis by (simp add: update_leaf.simps [of K f virt 0] Let_def)
  qed
next
  case (Suc l)
  let ?i = "pt_index virt (Suc l)"
  let ?e = "kmem s (slot t ?i)"
  let ?c = "child K ?e"
  have i: "?i < 512" by simp
  note t = pt_wf_page [OF Suc.prems]
  consider "\<not> pte_present (arch K) ?e" | "pte_present (arch K) ?e" "pte_is_leaf (arch K) ?e (Suc l)"
    | "branch K ?e (Suc l)" by (auto simp: branch_def)
  then show ?case
  proof cases
    case 1
    then show ?thesis by (simp add: update_leaf.simps [of K f virt "Suc l"] mmu_walk.simps Let_def)
  next
    case 2
    note r = replace_leaf [OF Suc.prems i 2, of "f ?e" perm] f [OF 2]
    have w: "mmu_walk (Suc l) K (kmem s) t virt = Some (Suc l, ?e)" by (rule walk_leaf) (use 2 in simp_all)
    show ?thesis
      unfolding w using 2 t i r
      by (auto simp: update_leaf.simps [of K f virt "Suc l"] Let_def same_leaf_self
          intro!: exI [where x = "(kmem s)(slot t ?i := f ?e)"])
  next
    case 3
    have w: "mmu_walk (Suc l) K (kmem s) t virt = mmu_walk l K (kmem s) ?c virt"
      using 3 by (simp add: mmu_walk.simps branch_def child_def Let_def)
    have u: "update_leaf K f virt (Suc l) t s = update_leaf K f virt l ?c s"
      using 3 by (simp add: update_leaf.simps [of K f virt "Suc l"] branch_def child_def Let_def)
    from pt_wf_child [OF Suc.prems i 3] have c: "pt_wf l K (kmem s) ?c" "t \<notin> tables_of l K (kmem s) ?c" by auto
    show ?thesis
    proof (cases "mmu_walk l K (kmem s) ?c virt")
      case None
      with Suc.IH [OF c(1)] w u show ?thesis by simp
    next
      case (Some ke)
      then obtain k e where ke: "mmu_walk l K (kmem s) ?c virt = Some (k, e)" by (cases ke) auto
      with Suc.IH [OF c(1)] obtain m' where m': "update_leaf K f virt l ?c s = flush_page virt (s\<lparr>kmem := m'\<rparr>)"
        "pt_wf l K m' ?c" "tables_of l K m' ?c = tables_of l K (kmem s) ?c"
        "\<forall>a. page_of a \<notin> tables_of l K (kmem s) ?c \<longrightarrow> m' a = kmem s a"
        "\<forall>va. view_at l K perm m' ?c va =
           (if same_leaf k l va virt then Some (leaf_view K perm va (k, f e)) else view_at l K perm (kmem s) ?c va)"
        by auto
      have sl: "m' (slot t j) = kmem s (slot t j)" if "j < 512" for j
        using m'(4) c(2) t that by simp
      have sub: "siblings l K (kmem s) t ?i \<subseteq> tables_of (Suc l) K (kmem s) t"
        using tables_siblings [OF i, of l K "kmem s" t] by auto
      have sib: "agree (siblings l K (kmem s) t ?i) (kmem s) m'"
        unfolding agree_def
      proof (intro ballI allI impI)
        fix x j assume x: "x \<in> siblings l K (kmem s) t ?i" "(j :: u64) < 512"
        then have "page_of (slot x j) = x" using tables_page [OF Suc.prems] sub by auto
        with x siblings_apart [OF Suc.prems i 3] have "page_of (slot x j) \<notin> tables_of l K (kmem s) ?c" by auto
        with m'(4) show "m' (slot x j) = kmem s (slot x j)" by blast
      qed
      have e': "\<forall>j < 512. j \<noteq> ?i \<longrightarrow> m' (slot t j) = kmem s (slot t j)" using sl by blast
      have b: "branch K (m' (slot t ?i)) (Suc l)" "child K (m' (slot t ?i)) = ?c" using 3 sl [OF i] by auto
      have d: "t \<notin> tables_of l K m' ?c" "siblings l K (kmem s) t ?i \<inter> tables_of l K m' ?c = {}"
        using c(2) m'(3) siblings_apart [OF Suc.prems i 3] by auto
      note r = replace_subtree [OF Suc.prems i e' sib b m'(2) d]
      have "pt_index va (Suc l) = ?i \<Longrightarrow> view_at (Suc l) K perm (kmem s) t va = view_at l K perm (kmem s) ?c va" for va
        using 3 by (simp add: view_at_def mmu_walk.simps Let_def branch_def child_def)
      moreover note same_leaf_Suc [OF mmu_walk_level [OF ke]]
      ultimately have v: "view_at (Suc l) K perm m' t va = (if same_leaf k (Suc l) va virt
          then Some (leaf_view K perm va (k, f e)) else view_at (Suc l) K perm (kmem s) t va)" for va
        using r(3) [of perm va] m'(5) by simp
      have tt: "tables_of (Suc l) K m' t = tables_of (Suc l) K (kmem s) t"
        using r(2) m'(3) tables_siblings [OF i, of l K "kmem s" t] 3 by simp
      have o: "\<forall>a. page_of a \<notin> tables_of (Suc l) K (kmem s) t \<longrightarrow> m' a = kmem s a"
        using m'(4) tables_siblings [OF i, of l K "kmem s" t] 3 by auto
      show ?thesis
        unfolding w ke u m'(1) option.case prod.case using r(1) tt o v by blast
    qed
  qed
qed

text \<open>C13: set_page_permissions changes the permissions of the kernel page that maps the address, huge or
  not: its addresses keep their physical address and get the flags, all others translate as
  before, and where nothing is mapped nothing changes.\<close>

theorem set_page_permissions_translates:
  assumes "address_space K perm lo hi L s (page_table_l4 s)"
  shows "case mmu_walk 3 K (kmem s) (page_table_l4 s) virt of
      None \<Rightarrow> set_page_permissions K virt flags s = s
    | Some (k, _) \<Rightarrow>
        let s' = set_page_permissions K virt flags s in
        address_space K perm lo hi L s' (page_table_l4 s') \<and> last (tlb_log s') = Flush_Page virt \<and>
        (\<forall>va. translate K perm s' (page_table_l4 s') va =
           (if same_leaf k 3 va virt
            then map_option (\<lambda>(pa, _). (pa, flags_perm flags)) (translate K perm s (page_table_l4 s) va)
            else translate K perm s (page_table_l4 s) va))"
proof -
  let ?t = "page_table_l4 s"
  let ?f = "\<lambda>e. pte_with_flags (arch K) e flags"
  from assms have sp: "pte_arch (arch K) perm" and inv: "tree_inv 3 K lo hi L s ?t"
    by (simp_all add: address_space_def supported_arch)
  then have wf: "pt_wf 3 K (kmem s) ?t" by (simp add: tree_inv_def)
  note wfl = pte_arch.with_flags [OF sp]
  have f: "pte_present (arch K) (?f e) \<and> pte_is_leaf (arch K) (?f e) k \<and>
      pte_phys (arch K) (?f e) = pte_phys (arch K) e"
    if "pte_present (arch K) e" "pte_is_leaf (arch K) e k" for e k using wfl [OF that] by simp
  note u = update_leaf_view [OF wf f pte_arch.level0_leaf [OF sp], of virt perm]
  show ?thesis
  proof (cases "mmu_walk 3 K (kmem s) ?t virt")
    case None
    with u show ?thesis by (simp add: set_page_permissions_def)
  next
    case (Some ke)
    then obtain k e where ke: "mmu_walk 3 K (kmem s) ?t virt = Some (k, e)" by (cases ke) auto
    with u obtain m' where m': "update_leaf K ?f virt 3 ?t s = flush_page virt (s\<lparr>kmem := m'\<rparr>)"
      "pt_wf 3 K m' ?t" "tables_of 3 K m' ?t = tables_of 3 K (kmem s) ?t"
      "\<forall>va. view_at 3 K perm m' ?t va =
         (if same_leaf k 3 va virt then Some (leaf_view K perm va (k, ?f e)) else view_at 3 K perm (kmem s) ?t va)"
      by auto
    have fe: "pte_present (arch K) e \<and> pte_is_leaf (arch K) e k" by (rule mmu_walk_leaf [OF ke pte_arch.level0_leaf [OF sp]])
    have v: "view_at 3 K perm (kmem s) ?t va = Some (leaf_view K perm va (k, e))" if "same_leaf k 3 va virt" for va
      using mmu_walk_same_leaf [OF ke that] by (simp add: view_at_def)
    show ?thesis
      unfolding ke option.case prod.case Let_def set_page_permissions_def m'(1)
      using assms m'(2-4) v wfl [of e k flags] fe
      by (auto simp: address_space_def tree_inv_def flush_page_def translate_def leaf_view_def
          heap_at_def heap_rel_def)
  qed
qed

theorem set_page_permissions_translates_witness:
  "let s' = set_page_permissions example_build 0x5000 VMF_EXEC example_vm in
   address_space example_build rv_perm 0x100000 0x110018 {} s' (page_table_l4 s') \<and>
   last (tlb_log s') = Flush_Page 0x5000 \<and>
   (\<forall>va. translate example_build rv_perm s' (page_table_l4 s') va =
      (if same_leaf 3 3 va 0x5000
       then map_option (\<lambda>(pa, _). (pa, flags_perm VMF_EXEC)) (translate example_build rv_perm example_vm (page_table_l4 example_vm) va)
       else translate example_build rv_perm example_vm (page_table_l4 example_vm) va))"
proof -
  have l4: "page_table_l4 example_vm = 0x200000" by (simp add: example_vm_def)
  have pa: "pa_ok 0" by (simp add: pa_ok_def)
  note lf = riscv.leaf_entry [OF pa, of VMF_WRITE True, folded example_leaf_def]
  have w: "mmu_walk 3 example_build (kmem example_vm) (page_table_l4 example_vm) 0x5000 = Some (3, example_leaf)"
    by (rule walk_leaf) (use lf in \<open>simp_all add: example_build_def example_vm_def slot_def pt_index_def\<close>)
  have "address_space example_build rv_perm 0x100000 0x110018 {} example_vm (page_table_l4 example_vm)"
    using example_vm_space l4 by simp
  from set_page_permissions_translates [OF this, where virt = "0x5000" and flags = VMF_EXEC] show ?thesis
    unfolding w by simp
qed

end
