(* ===== verification/Klib.thy ===== *)
theory Klib
  imports Prelude
begin

text \<open>
  The kernel's C library: \<^verbatim>\<open>src/mm/utils.c\<close> (\<open>memcpy\<close>, \<open>memset\<close>, \<open>memmove\<close>, \<open>memcmp\<close>),
  \<^verbatim>\<open>src/lib/string.c\<close> and \<^verbatim>\<open>src/lib/numbers.c\<close>.

  Memory is a function from addresses to bytes; an access of eight bytes reads, or writes,
  the eight bytes at once. An \<open>int\<close> that would overflow has no defined result (\<open>None\<close>).
\<close>

unbundle bit_operations_syntax

section \<open>Memory blocks\<close>

type_synonym bytes_mem = "u64 \<Rightarrow> u8"

definition load64 :: "bytes_mem \<Rightarrow> u64 \<Rightarrow> u64" where
  "load64 m a = foldr (\<lambda>k v. v OR push_bit (8 * k) (ucast (m (a + of_nat k)))) [0..<8] 0"

definition store64 :: "u64 \<Rightarrow> u64 \<Rightarrow> bytes_mem \<Rightarrow> bytes_mem" where
  "store64 a v m = (\<lambda>x. if x - a < 8 then ucast (drop_bit (8 * unat (x - a)) v) else m x)"

definition memcpy :: "u64 \<Rightarrow> u64 \<Rightarrow> u64 \<Rightarrow> bytes_mem \<Rightarrow> bytes_mem" where
  "memcpy dest src n m =
     (let n64 = unat (n div 8);
          m = fold (\<lambda>i m. store64 (dest + 8 * of_nat i) (load64 m (src + 8 * of_nat i)) m) [0..<n64] m
      in fold (\<lambda>i m. m(dest + of_nat i := m (src + of_nat i))) [n64 * 8..<unat n] m)"

definition memset :: "u64 \<Rightarrow> u8 \<Rightarrow> u64 \<Rightarrow> bytes_mem \<Rightarrow> bytes_mem" where
  "memset dest val n m =
     (let v64 = (ucast val :: u64);
          v64 = v64 OR push_bit 8 v64;
          v64 = v64 OR push_bit 16 v64;
          v64 = v64 OR push_bit 32 v64;
          n64 = unat (n div 8);
          m = fold (\<lambda>i m. store64 (dest + 8 * of_nat i) v64 m) [0..<n64] m
      in fold (\<lambda>i m. m(dest + of_nat i := val)) [n64 * 8..<unat n] m)"

fun memcmp_loop :: "nat \<Rightarrow> u64 \<Rightarrow> u64 \<Rightarrow> bytes_mem \<Rightarrow> int" where
  "memcmp_loop 0 x y m = 0"
| "memcmp_loop (Suc n) x y m = (if m x \<noteq> m y then 1 else memcmp_loop n (x + 1) (y + 1) m)"

definition memcmp :: "u64 \<Rightarrow> u64 \<Rightarrow> u64 \<Rightarrow> bytes_mem \<Rightarrow> int" where
  "memcmp a b n m = memcmp_loop (unat n) a b m"

fun copy_up :: "nat \<Rightarrow> u64 \<Rightarrow> u64 \<Rightarrow> bytes_mem \<Rightarrow> bytes_mem" where
  "copy_up 0 d s m = m"
| "copy_up (Suc n) d s m = copy_up n (d + 1) (s + 1) (m(d := m s))"

fun copy_down :: "nat \<Rightarrow> u64 \<Rightarrow> u64 \<Rightarrow> bytes_mem \<Rightarrow> bytes_mem" where
  "copy_down 0 d s m = m"
| "copy_down (Suc n) d s m = copy_down n (d - 1) (s - 1) (m(d - 1 := m (s - 1)))"

definition memmove :: "u64 \<Rightarrow> u64 \<Rightarrow> u64 \<Rightarrow> bytes_mem \<Rightarrow> bytes_mem" where
  "memmove dst src n m =
     (if dst < src then copy_up (unat n) dst src m
      else if src < dst then copy_down (unat n) (dst + n) (src + n) m
      else m)"

section \<open>Strings\<close>

definition INT_MAX :: nat where
  "INT_MAX = 2 ^ 31 - 1"

function strlen_loop :: "bytes_mem \<Rightarrow> u64 \<Rightarrow> nat \<Rightarrow> nat option" where
  "strlen_loop m str len =
     (if m (str + of_nat len) = 0 then Some len
      else if INT_MAX \<le> len then None
      else strlen_loop m str (len + 1))"
  by auto
termination
  by (relation "measure (\<lambda>(m, str, len). INT_MAX - len)") auto

declare strlen_loop.simps [simp del]

definition strlen :: "bytes_mem \<Rightarrow> u64 \<Rightarrow> nat option" where
  "strlen m str = strlen_loop m str 0"

text \<open>\<open>strcpy\<close> need not end when the string has no end.\<close>

partial_function (option) strcpy :: "u64 \<Rightarrow> u64 \<Rightarrow> bytes_mem \<Rightarrow> bytes_mem option" where
  "strcpy dest src m =
     (let m' = m(dest := m src)
      in if m src = 0 then Some m' else strcpy (dest + 1) (src + 1) m')"

function str_reverse_loop :: "int \<Rightarrow> int \<Rightarrow> u8 list \<Rightarrow> u8 list" where
  "str_reverse_loop i j str =
     (if i < j
      then str_reverse_loop (i + 1) (j - 1) (str[nat i := str ! nat j, nat j := str ! nat i])
      else str)"
  by auto
termination
  by (relation "measure (\<lambda>(i, j, str). nat (j - i))") auto

declare str_reverse_loop.simps [simp del]

definition str_reverse :: "u8 list \<Rightarrow> int \<Rightarrow> u8 list" where
  "str_reverse str len = str_reverse_loop 0 (len - 1) str"

partial_function (option) strcmp :: "bytes_mem \<Rightarrow> u64 \<Rightarrow> u64 \<Rightarrow> int option" where
  "strcmp m s1 s2 =
     (if m s1 \<noteq> 0 \<and> m s1 = m s2 then strcmp m (s1 + 1) (s2 + 1)
      else Some (int (unat (m s1)) - int (unat (m s2))))"

text \<open>
  The condition of \<open>strncmp\<close>'s loop decrements \<open>n\<close> whether or not the loop goes on; it is
  \<open>UINT64_MAX\<close> afterwards when the decrement found it 0.
\<close>

fun strncmp_loop :: "nat \<Rightarrow> bytes_mem \<Rightarrow> u64 \<Rightarrow> u64 \<Rightarrow> int" where
  "strncmp_loop 0 m s1 s2 = 0"
| "strncmp_loop (Suc n) m s1 s2 =
     (if m s1 \<noteq> 0 \<and> m s1 = m s2 then strncmp_loop n m (s1 + 1) (s2 + 1)
      else int (unat (m s1)) - int (unat (m s2)))"

definition strncmp :: "bytes_mem \<Rightarrow> u64 \<Rightarrow> u64 \<Rightarrow> u64 \<Rightarrow> int" where
  "strncmp m s1 s2 n = (if n = 0 then 0 else strncmp_loop (unat n) m s1 s2)"

section \<open>Numbers\<close>

definition is_char_digit :: "u8 \<Rightarrow> bool" where
  "is_char_digit c \<longleftrightarrow> 0x30 \<le> c \<and> c \<le> 0x39"

definition digit_char :: "nat \<Rightarrow> u8" where
  "digit_char r = (if r < 10 then 0x30 + of_nat r else 0x61 + (of_nat r - 10))"

text \<open>
  The digits in the order the loop writes them. Division by 0 is undefined, and division by
  1 never ends the loop.
\<close>

function ultoa_digits :: "u64 \<Rightarrow> u64 \<Rightarrow> u8 list \<Rightarrow> u8 list option" where
  "ultoa_digits v base acc =
     (if v = 0 then Some acc
      else if base \<le> 1 then None
      else ultoa_digits (v div base) base (acc @ [digit_char (unat (v mod base))]))"
  by auto
termination
proof (relation "measure (\<lambda>(v, base, acc). unat v)", goal_cases)
  case (2 v base acc)
  then have "0 < unat v" "1 < unat base" by (simp_all add: unat_gt_0 word_less_nat_alt not_le)
  then show ?case by (simp add: unat_div)
qed simp

declare ultoa_digits.simps [simp del]

text \<open>The result is the count and the bytes written from \<open>str\<close> on, the final 0 included.\<close>

definition ultoa :: "u64 \<Rightarrow> u64 \<Rightarrow> (nat \<times> u8 list) option" where
  "ultoa v base =
     (if v = 0 then Some (1, [0x30, 0])
      else case ultoa_digits v base [] of
        None \<Rightarrow> None
      | Some str \<Rightarrow> Some (length str, str_reverse (str @ [0]) (int (length str))))"

text \<open>The digits of a positive \<open>int64_t\<close>, by signed division by 10.\<close>

fun ltoa_digits :: "nat \<Rightarrow> u8 list \<Rightarrow> u8 list" where
  "ltoa_digits v acc = (if v = 0 then acc else ltoa_digits (v div 10) (acc @ [digit_char (v mod 10)]))"

declare ltoa_digits.simps [simp del]

definition ltoa :: "u64 \<Rightarrow> u64 \<Rightarrow> (nat \<times> u8 list) option" where
  "ltoa v base =
     (if v = 0 then Some (1, [0x30, 0])
      else if base \<noteq> 10 then ultoa v base
      else if sint v = - (2 ^ 63) then None
      else let neg = sint v < 0;
               str = ltoa_digits (nat \<bar>sint v\<bar>) [];
               str = (if neg then str @ [0x2D] else str)
           in Some (length str, str_reverse (str @ [0]) (int (length str))))"

definition itoa :: "u32 \<Rightarrow> u64 \<Rightarrow> (nat \<times> u8 list) option" where
  "itoa v base = ltoa (scast v) base"

section \<open>Copying and filling\<close>

text \<open>The memory after the \<open>n\<close> bytes from \<open>s\<close> on have been copied to \<open>d\<close>.\<close>

definition copied :: "u64 \<Rightarrow> u64 \<Rightarrow> nat \<Rightarrow> bytes_mem \<Rightarrow> bytes_mem" where
  "copied d s n m = (\<lambda>x. if unat (x - d) < n then m (s + (x - d)) else m x)"

definition filled :: "u64 \<Rightarrow> u8 \<Rightarrow> nat \<Rightarrow> bytes_mem \<Rightarrow> bytes_mem" where
  "filled d v n m = (\<lambda>x. if unat (x - d) < n then v else m x)"

lemma bit_load64: "bit (load64 m a) n \<longleftrightarrow> n < 64 \<and> bit (m (a + of_nat (n div 8))) (n mod 8)"
proof -
  have b8: "bit (m x) i \<Longrightarrow> i < 8" for x i by (drule bit_imp_le_length) simp
  have "bit (foldr (\<lambda>k v. v OR push_bit (8 * k) (ucast (m (a + of_nat k)))) ks (0 :: u64)) n \<longleftrightarrow>
      (\<exists>k \<in> set ks. n < 64 \<and> 8 * k \<le> n \<and> bit (m (a + of_nat k)) (n - 8 * k))" for ks
    by (induction ks) (auto simp: bit_or_iff bit_push_bit_iff bit_ucast_iff dest: b8)
  from this [of "[0..<8]"] have "bit (load64 m a) n \<longleftrightarrow>
      (\<exists>k < 8. n < 64 \<and> 8 * k \<le> n \<and> bit (m (a + of_nat k)) (n - 8 * k))"
    unfolding load64_def by (simp only: set_upt atLeastLessThan_iff Bex_def) simp
  also have "\<dots> \<longleftrightarrow> n < 64 \<and> bit (m (a + of_nat (n div 8))) (n mod 8)"
  proof
    assume "\<exists>k < 8. n < 64 \<and> 8 * k \<le> n \<and> bit (m (a + of_nat k)) (n - 8 * k)"
    then obtain k where k: "k < 8" "n < 64" "8 * k \<le> n" "bit (m (a + of_nat k)) (n - 8 * k)" by blast
    with b8 have "n - 8 * k < 8" by blast
    with k(3) have "n div 8 = k" "n mod 8 = n - 8 * k" by (auto simp: div_nat_eqI) presburger
    with k show "n < 64 \<and> bit (m (a + of_nat (n div 8))) (n mod 8)" by simp
  next
    assume "n < 64 \<and> bit (m (a + of_nat (n div 8))) (n mod 8)"
    then show "\<exists>k < 8. n < 64 \<and> 8 * k \<le> n \<and> bit (m (a + of_nat k)) (n - 8 * k)"
      by (intro exI [where x = "n div 8"]) (auto simp: minus_mult_div_eq_mod)
  qed
  finally show ?thesis .
qed

lemma load64_byte:
  assumes "k < 8"
  shows "(ucast (drop_bit (8 * k) (load64 m a)) :: u8) = m (a + of_nat k)"
proof (rule bit_word_eqI)
  fix n assume "n < LENGTH(8)"
  then have "n < 8" by simp
  with assms have "(8 * k + n) div 8 = k" "(8 * k + n) mod 8 = n" "8 * k + n < 64" by auto
  with \<open>n < 8\<close> show "bit (ucast (drop_bit (8 * k) (load64 m a)) :: u8) n = bit (m (a + of_nat k)) n"
    by (simp add: bit_ucast_iff bit_drop_bit_eq bit_load64)
qed

lemma copy64: "store64 d (load64 m s) m = copied d s 8 m"
proof
  fix x
  show "store64 d (load64 m s) m x = copied d s 8 m x"
  proof (cases "x - d < 8")
    case True
    then have "unat (x - d) < 8" by (simp add: word_less_nat_alt)
    from load64_byte [OF this, of m s] True this show ?thesis
      by (simp add: store64_def copied_def)
  next
    case False
    then show ?thesis by (simp add: store64_def copied_def word_less_nat_alt)
  qed
qed

lemma unat_shift_less:
  assumes "k + j \<le> 2 ^ 64" "0 < j"
  shows "unat ((y :: u64) - of_nat k) < j \<longleftrightarrow> k \<le> unat y \<and> unat y < k + j"
proof -
  have k: "unat (of_nat k :: u64) = k" using assms by (simp add: unat_of_nat)
  show ?thesis
  proof (cases "k \<le> unat y")
    case True
    then have "unat (y - of_nat k) = unat y - k" using k by (simp add: unat_minus_no_borrow)
    with True show ?thesis by auto
  next
    case False
    have "unat (y - of_nat k) = (2 ^ 64 + unat y - k)"
      using False k assms by (simp add: unat_sub_if')
    with False assms show ?thesis by auto
  qed
qed

lemma copied_0 [simp]: "copied d s 0 m = m"
  by (simp add: copied_def)

lemma filled_0 [simp]: "filled d v 0 m = m"
  by (simp add: filled_def)

text \<open>Copying in two steps, when the second step does not read what the first wrote.\<close>

lemma copied_append:
  assumes "k + j \<le> 2 ^ 64" and ap: "\<And>a. k \<le> a \<Longrightarrow> a < k + j \<Longrightarrow> k \<le> unat (s + of_nat a - d)"
  shows "copied (d + of_nat k) (s + of_nat k) j (copied d s k m) = copied d s (k + j) m"
proof (cases "j = 0")
  case False
  then have j: "0 < j" by simp
  have sh: "unat (x - (d + of_nat k)) < j \<longleftrightarrow> k \<le> unat (x - d) \<and> unat (x - d) < k + j" for x
    using unat_shift_less [OF assms(1) j, of "x - d"] by (simp only: diff_diff_eq)
  show ?thesis
  proof
    fix x
    show "copied (d + of_nat k) (s + of_nat k) j (copied d s k m) x = copied d s (k + j) m x"
    proof (cases "unat (x - (d + of_nat k)) < j")
      case True
      with sh [of x] have r: "k \<le> unat (x - d)" "unat (x - d) < k + j" by auto
      have e: "s + of_nat k + (x - (d + of_nat k)) = s + (x - d)" by simp
      have "\<not> unat (s + (x - d) - d) < k" using ap [OF r] by (simp add: not_less)
      then show ?thesis using True r unfolding copied_def e by simp
    next
      case False
      with sh [of x] show ?thesis by (auto simp: copied_def)
    qed
  qed
qed simp

text \<open>\<open>memcpy\<close> copies ranges that do not overlap.\<close>

lemma fold_copied:
  assumes step: "\<And>i m. i < n \<Longrightarrow> f i m = copied (d + of_nat (w * i)) (s + of_nat (w * i)) w m"
    and le: "w * n \<le> 2 ^ 64"
    and ap: "\<And>a. a < w * n \<Longrightarrow> w * n \<le> unat (s + of_nat a - d)"
  shows "fold f [0..<n] m = copied d s (w * n) m"
proof -
  have "i \<le> n \<Longrightarrow> fold f [0..<i] m = copied d s (w * i) m" for i
  proof (induction i)
    case (Suc i)
    then have IH: "fold f [0..<i] m = copied d s (w * i) m" and i: "i < n" by auto
    have le': "w * i + w \<le> w * n" using Suc.prems mult_le_mono2 [of "Suc i" n w] by simp
    have "copied (d + of_nat (w * i)) (s + of_nat (w * i)) w (copied d s (w * i) m) = copied d s (w * i + w) m"
    proof (rule copied_append)
      show "w * i + w \<le> 2 ^ 64" using le le' by simp
      fix a assume "w * i \<le> a" "a < w * i + w"
      with le' ap [of a] show "w * i \<le> unat (s + of_nat a - d)" by simp
    qed
    with IH i step show ?case by (simp add: add.commute)
  qed simp
  then show ?thesis by blast
qed

definition apart :: "u64 \<Rightarrow> u64 \<Rightarrow> nat \<Rightarrow> bool" where
  "apart d s n \<longleftrightarrow> (\<forall>i < n. n \<le> unat (s + of_nat i - d))"

lemma fold_shift: "fold f [k..<n] = fold (\<lambda>i. f (k + i)) [0..<n - k]"
proof (cases "k \<le> n")
  case True
  have "map (\<lambda>i. i + k) [0..<n - k] = [k..<n]"
    using map_add_upt [of k "n - k"] True by simp
  then have "fold f [k..<n] = fold (f \<circ> (\<lambda>i. i + k)) [0..<n - k]"
    by (metis fold_map)
  also have "f \<circ> (\<lambda>i. i + k) = (\<lambda>i. f (k + i))"
    by (simp add: fun_eq_iff add.commute)
  finally show ?thesis .
qed simp

lemma copied_1: "copied d s 1 m = m(d := m s)"
  by (auto simp: copied_def fun_eq_iff unat_eq_0)

lemma filled_1: "filled d v 1 m = m(d := v)"
  by (auto simp: filled_def fun_eq_iff unat_eq_0)

lemma memcpy_copied:
  assumes "apart d s (unat n)"
  shows "memcpy d s n m = copied d s (unat n) m"
proof -
  let ?n = "unat n" and ?q = "unat (n div 8)"
  let ?f = "\<lambda>i m. store64 (d + 8 * of_nat i) (load64 m (s + 8 * of_nat i)) m"
  have q: "8 * ?q \<le> ?n" "?q * 8 = 8 * ?q" by (simp_all add: unat_div)
  have n: "?n < 2 ^ 64" by (rule unat_u64_less)
  have 1: "fold ?f [0..<?q] m = copied d s (8 * ?q) m"
  proof (rule fold_copied)
    show "8 * ?q \<le> 2 ^ 64" using q n by linarith
    show "8 * ?q \<le> unat (s + of_nat a - d)" if "a < 8 * ?q" for a
      using assms q that unfolding apart_def by (meson le_trans less_le_trans)
  qed (simp add: copy64)
  let ?b = "\<lambda>m. fold (\<lambda>i m. m(d + of_nat (8 * ?q + i) := m (s + of_nat (8 * ?q + i)))) [0..<?n - 8 * ?q] m"
  have "?b m' = copied (d + of_nat (8 * ?q)) (s + of_nat (8 * ?q)) (1 * (?n - 8 * ?q)) m'" for m'
  proof (rule fold_copied)
    show "1 * (?n - 8 * ?q) \<le> 2 ^ 64" using n by simp
    fix a assume a: "a < 1 * (?n - 8 * ?q)"
    then have "8 * ?q + a < ?n" by simp
    then have le: "?n \<le> unat (s + of_nat (8 * ?q + a) - d)" using assms unfolding apart_def by blast
    have u: "unat (of_nat (8 * ?q) :: u64) = 8 * ?q"
      unfolding unat_of_nat using q n by (intro mod_less) simp
    have "unat (s + of_nat (8 * ?q + a) - d - of_nat (8 * ?q)) = unat (s + of_nat (8 * ?q + a) - d) - 8 * ?q"
      using unat_minus_no_borrow [of "of_nat (8 * ?q)" "s + of_nat (8 * ?q + a) - d"] u q(1) le by linarith
    with le have "?n - 8 * ?q \<le> unat (s + of_nat (8 * ?q + a) - d - of_nat (8 * ?q))" by linarith
    then show "1 * (?n - 8 * ?q) \<le> unat (s + of_nat (8 * ?q) + of_nat a - (d + of_nat (8 * ?q)))"
      by (simp add: algebra_simps)
  qed (simp_all add: copied_1 [simplified] add.assoc)
  moreover have "copied (d + of_nat (8 * ?q)) (s + of_nat (8 * ?q)) (?n - 8 * ?q) (copied d s (8 * ?q) m) =
      copied d s (8 * ?q + (?n - 8 * ?q)) m"
  proof (rule copied_append)
    show "8 * ?q + (?n - 8 * ?q) \<le> 2 ^ 64" using q n by simp
    show "8 * ?q \<le> unat (s + of_nat a - d)" if "a < 8 * ?q + (?n - 8 * ?q)" for a
    proof -
      from q that have "a < ?n" by simp
      with assms have "?n \<le> unat (s + of_nat a - d)" unfolding apart_def by blast
      with q show ?thesis by linarith
    qed
  qed
  ultimately show ?thesis
    unfolding memcpy_def Let_def fold_shift [of _ "8 * ?q"] q(2) 1 using q(1) by simp
qed

lemma bit_double:
  assumes "\<And>n. bit (x :: u64) n \<longleftrightarrow> n < w \<and> bit (v :: u8) (n mod 8)" "w mod 8 = 0" "2 * w \<le> 64"
  shows "bit (x OR push_bit w x) n \<longleftrightarrow> n < 2 * w \<and> bit v (n mod 8)"
proof -
  have "(n - w) mod 8 = n mod 8" if "w \<le> n"
    using assms(2) that by (metis le_add_diff_inverse mod_add_left_eq add_0)
  then show ?thesis
    using assms(3) by (auto simp: bit_or_iff bit_push_bit_iff assms(1))
qed

lemma memset_filled: "memset d v n m = filled d v (unat n) m"
proof -
  let ?n = "unat n" and ?q = "unat (n div 8)"
  define x0 where "x0 = (ucast v :: u64)"
  define x1 where "x1 = x0 OR push_bit 8 x0"
  define x2 where "x2 = x1 OR push_bit 16 x1"
  define x3 where "x3 = x2 OR push_bit 32 x2"
  have b0: "bit x0 n \<longleftrightarrow> n < 8 \<and> bit v (n mod 8)" for n
    using bit_imp_le_length [of v n] by (cases "n < 8") (auto simp: x0_def bit_ucast_iff)
  have b1: "bit x1 n \<longleftrightarrow> n < 16 \<and> bit v (n mod 8)" for n
    unfolding x1_def using bit_double [of x0 8 v n, OF b0] by simp
  have b2: "bit x2 n \<longleftrightarrow> n < 32 \<and> bit v (n mod 8)" for n
    unfolding x2_def using bit_double [of x1 16 v n, OF b1] by simp
  have b3: "bit x3 n \<longleftrightarrow> n < 64 \<and> bit v (n mod 8)" for n
    unfolding x3_def using bit_double [of x2 32 v n, OF b2] by simp
  have byte: "(ucast (drop_bit (8 * k) x3) :: u8) = v" if "k < 8" for k
    by (rule bit_word_eqI) (use that in \<open>auto simp: bit_ucast_iff bit_drop_bit_eq b3\<close>)
  have s8: "store64 a x3 m = filled a v 8 m" for a m
    by (rule ext) (simp add: store64_def filled_def word_less_nat_alt byte)
  have app: "filled (d + of_nat k) v j (filled d v k m) = filled d v (k + j) m"
    if "k + j \<le> 2 ^ 64" for k j m
  proof (cases "j = 0")
    case False
    then have "unat (x - (d + of_nat k)) < j \<longleftrightarrow> k \<le> unat (x - d) \<and> unat (x - d) < k + j" for x
      using unat_shift_less [OF that, of "x - d"] by (simp only: diff_diff_eq neq0_conv)
    then show ?thesis by (auto simp: filled_def fun_eq_iff)
  qed simp
  have n: "?n < 2 ^ 64" by (rule unat_u64_less)
  have q: "8 * ?q \<le> ?n" "?q * 8 = 8 * ?q" by (simp_all add: unat_div)
  have 1: "8 * k \<le> 2 ^ 64 \<Longrightarrow> fold (\<lambda>i m. store64 (d + 8 * of_nat i) x3 m) [0..<k] m = filled d v (8 * k) m" for k
  proof (induction k)
    case (Suc k)
    then show ?case using app [of "8 * k" 8 m] by (simp add: s8 add.commute)
  qed simp
  have 2: "i \<le> ?n - 8 * ?q \<Longrightarrow> fold (\<lambda>i m. m(d + of_nat (8 * ?q + i) := v)) [0..<i] (filled d v (8 * ?q) m) =
      filled d v (8 * ?q + i) m" for i
  proof (induction i)
    case (Suc i)
    then show ?case
      using app [of "8 * ?q + i" 1 m] n q(1) by (simp add: filled_1 [simplified] del: fun_upd_apply)
  qed simp
  from 1 [of ?q] 2 [of "?n - 8 * ?q"] q n show ?thesis
    unfolding memset_def Let_def fold_shift [of _ "8 * ?q"] q(2) x0_def [symmetric]
      x1_def [symmetric] x2_def [symmetric] x3_def [symmetric] by simp
qed

lemma memmove_copied:
  assumes "unat d + unat n \<le> 2 ^ 64" "unat s + unat n \<le> 2 ^ 64"
  shows "memmove d s n m = copied d s (unat n) m"
proof -
  have up: "copy_up k d s m = copied d s k m" if "d < s" "unat s + k \<le> 2 ^ 64" for k d s m
    using that
  proof (induction k arbitrary: d s m)
    case (Suc k)
    show ?case
    proof (cases "k = 0")
      case True
      then show ?thesis by (simp add: copied_1 [simplified])
    next
      case False
      then have u: "unat (s + 1) = unat s + 1" "unat (d + 1) = unat d + 1"
        using Suc.prems unat_plus_no_wrap [of s 1] unat_plus_no_wrap [of d 1] by (auto simp: word_less_nat_alt)
      have "1 \<le> unat (s + of_nat a - d)" if "1 \<le> a" "a < 1 + k" for a
      proof -
        have "unat (of_nat a :: u64) = a" using that Suc.prems by (simp add: unat_of_nat)
        then have "unat (s + of_nat a) = unat s + a"
          using unat_plus_no_wrap [of s "of_nat a"] that Suc.prems by simp
        then have "s + of_nat a \<noteq> d" using Suc.prems by (auto simp: word_less_nat_alt)
        then show ?thesis by (simp add: Suc_le_eq unat_gt_0)
      qed
      then have "copied (d + of_nat 1) (s + of_nat 1) k (copied d s 1 m) = copied d s (1 + k) m"
        using Suc.prems by (intro copied_append) auto
      moreover have "copy_up k (d + 1) (s + 1) (m(d := m s)) = copied (d + 1) (s + 1) k (m(d := m s))"
        using Suc.prems u by (intro Suc.IH) (auto simp: word_less_nat_alt)
      ultimately show ?thesis by (simp add: copied_1 [simplified])
    qed
  qed simp
  have down: "copy_down k (d + of_nat k) (s + of_nat k) m = copied d s k m"
    if "s < d" "unat d + k \<le> 2 ^ 64" for k m
    using that(2)
  proof (induction k arbitrary: m)
    case (Suc k)
    let ?m = "m(d + of_nat k := m (s + of_nat k))"
    have k: "unat (of_nat k :: u64) = k" using Suc.prems by (simp add: unat_of_nat)
    have dk: "unat (d + of_nat k) = unat d + k" "unat (s + of_nat k) = unat s + k"
      using k Suc.prems that(1) unat_plus_no_wrap [of d "of_nat k"] unat_plus_no_wrap [of s "of_nat k"]
      by (auto simp: word_less_nat_alt)
    have "copied d s k ?m = copied d s (Suc k) m"
    proof
      fix x
      have e: "x = d + of_nat k \<longleftrightarrow> unat (x - d) = k"
        using k by (metis add_diff_cancel_left' diff_add_cancel add.commute u64_eq_iff)
      have "s + (x - d) \<noteq> d + of_nat k" if "unat (x - d) < k"
      proof -
        have "unat (s + (x - d)) = unat s + unat (x - d)"
          using unat_plus_no_wrap [of s "x - d"] that dk Suc.prems \<open>s < d\<close> by (simp add: word_less_nat_alt)
        then have "unat (s + (x - d)) \<noteq> unat (d + of_nat k)"
          using that dk(1) \<open>s < d\<close> unfolding word_less_nat_alt by linarith
        then show ?thesis by metis
      qed
      with e show "copied d s k ?m x = copied d s (Suc k) m x"
        by (auto simp: copied_def less_Suc_eq)
    qed
    with Suc show ?case by (simp add: add.assoc [symmetric])
  qed simp
  have "copied d d (unat n) m = m" by (simp add: copied_def fun_eq_iff)
  then show ?thesis
    using assms up [of d s "unat n" m] down [of "unat n" m] unfolding memmove_def by auto
qed

section \<open>Strings in memory\<close>

fun cstring :: "bytes_mem \<Rightarrow> u64 \<Rightarrow> u8 list \<Rightarrow> bool" where
  "cstring m a [] \<longleftrightarrow> m a = 0"
| "cstring m a (c # cs) \<longleftrightarrow> c \<noteq> 0 \<and> m a = c \<and> cstring m (a + 1) cs"

lemma cstring_upd_other:
  "(\<And>i. i \<le> length cs \<Longrightarrow> a + of_nat i \<noteq> x) \<Longrightarrow> cstring (m(x := v)) a cs = cstring m a cs"
proof (induction cs arbitrary: a)
  case Nil
  from Nil [of 0] show ?case by simp
next
  case (Cons c cs)
  have "a + 1 + of_nat i \<noteq> x" if "i \<le> length cs" for i
    using Cons.prems [of "Suc i"] that by (simp add: algebra_simps)
  with Cons.IH [of "a + 1"] Cons.prems [of 0] show ?case by simp
qed

lemma strlen_loop_cstring:
  "cstring m (str + of_nat k) cs \<Longrightarrow> k + length cs \<le> INT_MAX \<Longrightarrow>
   strlen_loop m str k = Some (k + length cs)"
proof (induction cs arbitrary: k)
  case (Cons c cs)
  then have "cstring m (str + of_nat (k + 1)) cs" by (simp add: algebra_simps)
  from Cons.IH [OF this] Cons.prems show ?case
    by (simp add: strlen_loop.simps [of m str k])
qed (simp add: strlen_loop.simps [of m str])

lemma strlen_cstring: "cstring m str cs \<Longrightarrow> length cs \<le> INT_MAX \<Longrightarrow> strlen m str = Some (length cs)"
  using strlen_loop_cstring [of m str 0 cs] by (simp add: strlen_def)

lemma uint_u8:
  "uint (a :: u8) = 0 \<longleftrightarrow> a = 0" "0 < uint (a :: u8) \<longleftrightarrow> a \<noteq> 0"
  "uint (a :: u8) = uint b \<longleftrightarrow> a = b" "uint (a :: u8) < uint b \<longleftrightarrow> a < b"
proof -
  show "uint a = 0 \<longleftrightarrow> a = 0" by (rule unsigned_eq_0_iff)
  then show "0 < uint a \<longleftrightarrow> a \<noteq> 0" using unsigned_greater_eq [of a] by (metis less_le)
  show "uint a = uint b \<longleftrightarrow> a = b" by (auto intro: unsigned_word_eqI)
  show "uint a < uint b \<longleftrightarrow> a < b" by (simp add: word_less_def)
qed

abbreviation char_order :: "(u8 \<times> u8) set" where
  "char_order \<equiv> {(a, b). a < b}"

lemma strcmp_lexord:
  "cstring m s1 cs \<Longrightarrow> cstring m s2 ds \<Longrightarrow>
   \<exists>r. strcmp m s1 s2 = Some r \<and> (r = 0 \<longleftrightarrow> cs = ds) \<and> (r < 0 \<longleftrightarrow> (cs, ds) \<in> lexord char_order)"
proof (induction cs arbitrary: s1 s2 ds)
  case Nil
  then show ?case
    by (cases ds) (auto simp: strcmp.simps [of m s1 s2] uint_u8)
next
  case (Cons c cs)
  show ?case
  proof (cases ds)
    case Nil
    with Cons.prems show ?thesis by (auto simp: strcmp.simps [of m s1 s2] uint_u8)
  next
    case (Cons d ds')
    show ?thesis
    proof (cases "c = d")
      case True
      with Cons Cons.prems Cons.IH [of "s1 + 1" "s2 + 1" ds'] show ?thesis
        by (simp add: strcmp.simps [of m s1 s2])
    next
      case False
      with Cons Cons.prems show ?thesis
        by (auto simp: strcmp.simps [of m s1 s2] uint_u8)
    qed
  qed
qed

lemma strncmp_prefix:
  "cstring m s1 cs \<Longrightarrow> cstring m s2 ds \<Longrightarrow>
   strncmp_loop n m s1 s2 = 0 \<longleftrightarrow> take n cs = take n ds"
proof (induction n arbitrary: s1 s2 cs ds)
  case (Suc n)
  show ?case
  proof (cases cs)
    case Nil
    with Suc.prems show ?thesis by (cases ds) (auto simp: uint_u8)
  next
    case (Cons c cs')
    with Suc show ?thesis by (cases ds) (auto simp: uint_u8)
  qed
qed simp

lemma strcpy_copied:
  "cstring m s cs \<Longrightarrow> length cs < 2 ^ 64 - 1 \<Longrightarrow>
   (\<And>a. a \<le> length cs \<Longrightarrow> a \<le> unat (s + of_nat a - d)) \<Longrightarrow>
   strcpy d s m = Some (copied d s (length cs + 1) m)"
proof (induction cs arbitrary: d s m)
  case Nil
  then show ?case by (simp add: strcpy.simps [of d s m] copied_1 [simplified] fun_upd_def)
next
  case (Cons c cs)
  have ap: "a \<le> unat (s + 1 + of_nat a - (d + 1))" if "a \<le> length cs" for a
  proof -
    have "s + 1 + of_nat a - (d + 1) = s + of_nat a - d" by simp
    with Cons.prems(3) [of a] that show ?thesis by (simp only: list.size)
  qed
  have "cstring (m(d := m s)) (s + 1) cs = cstring m (s + 1) cs"
  proof (rule cstring_upd_other)
    fix i assume "i \<le> length cs"
    then have "Suc i \<le> unat (s + of_nat (Suc i) - d)" by (intro Cons.prems(3)) simp
    then show "s + 1 + of_nat i \<noteq> d" by (auto simp: add.assoc)
  qed
  with Cons.prems(1) have "cstring (m(d := m s)) (s + 1) cs" by simp
  from Cons.IH [OF this _ ap] Cons.prems(2)
  have "strcpy (d + 1) (s + 1) (m(d := m s)) = Some (copied (d + 1) (s + 1) (length cs + 1) (m(d := m s)))"
    by (simp del: fun_upd_apply)
  moreover have "copied (d + of_nat 1) (s + of_nat 1) (length cs + 1) (copied d s 1 m) =
      copied d s (1 + (length cs + 1)) m"
  proof (rule copied_append)
    show "1 + (length cs + 1) \<le> 2 ^ 64" using Cons.prems(2) by simp
    show "1 \<le> unat (s + of_nat a - d)" if "1 \<le> a" "a < 1 + (length cs + 1)" for a
      using Cons.prems(3) [of a] that by simp
  qed
  ultimately show ?case
    using Cons.prems(1) by (simp add: strcpy.simps [of d s m] Let_def copied_1 [simplified] del: fun_upd_apply)
qed

section \<open>Numbers as text\<close>

text \<open>The reversal loop swaps from both ends: it reverses the first \<open>n\<close> characters.\<close>

lemma str_reverse_loop_segment:
  "length ys = nat (j - i + 1) \<Longrightarrow> 0 \<le> i \<Longrightarrow> i \<le> j + 1 \<Longrightarrow> length xs = nat i \<Longrightarrow>
   str_reverse_loop i j (xs @ ys @ zs) = xs @ rev ys @ zs"
proof (induction i j "xs @ ys @ zs" arbitrary: xs ys zs rule: str_reverse_loop.induct)
  case (1 i j)
  show ?case
  proof (cases "i < j")
    case False
    with "1.prems" have "length ys \<le> 1" by auto
    then have "rev ys = ys" by (cases ys) auto
    with False show ?thesis by (simp add: str_reverse_loop.simps [of i j])
  next
    case True
    with "1.prems"(1) have "2 \<le> length ys" by simp
    then obtain a c l where l: "ys = a # c # l" by (auto simp: numeral_2_eq_2 Suc_le_length_iff)
    obtain ys' b where "c # l = ys' @ [b]" by (cases "c # l" rule: rev_cases) auto
    with l have ys: "ys = a # ys' @ [b]" by simp
    let ?l = "xs @ ys @ zs"
    have len: "length xs = nat i" "nat j = nat i + 1 + length ys'"
      using "1.prems" ys True by auto
    have i: "?l ! nat i = a" "?l ! nat j = b"
      using len by (simp_all add: ys nth_append)
    have "?l[nat i := b, nat j := a] = (xs @ [b]) @ ys' @ ([a] @ zs)"
      using len by (simp add: ys list_update_append)
    moreover have "str_reverse_loop (i + 1) (j - 1) ((xs @ [b]) @ ys' @ ([a] @ zs)) =
        (xs @ [b]) @ rev ys' @ ([a] @ zs)"
      using "1.prems" ys True len calculation i by (intro "1.hyps") auto
    ultimately show ?thesis
      using True i by (simp add: str_reverse_loop.simps [of i j] ys)
  qed
qed

lemma str_reverse_prefix: "str_reverse (ys @ zs) (int (length ys)) = rev ys @ zs"
  using str_reverse_loop_segment [of ys "int (length ys) - 1" 0 "[]" zs] by (simp add: str_reverse_def)

text \<open>Reading a number back: the value of a digit, of a string of digits, and of a signed text.\<close>

definition digit_value :: "u8 \<Rightarrow> nat" where
  "digit_value c = (if is_char_digit c then unat c - 0x30 else unat c - 0x61 + 10)"

definition read_digits :: "nat \<Rightarrow> u8 list \<Rightarrow> nat" where
  "read_digits base ds = foldl (\<lambda>v c. v * base + digit_value c) 0 ds"

definition read_int :: "u8 list \<Rightarrow> int" where
  "read_int txt = (case txt of
     c # ds \<Rightarrow> if c = 0x2D then - int (read_digits 10 ds) else int (read_digits 10 txt) | [] \<Rightarrow> 0)"

lemma unat_digit_char: "r < 36 \<Longrightarrow> unat (digit_char r) = (if r < 10 then 0x30 + r else 0x57 + r)"
proof -
  assume r: "r < 36"
  have e: "0x61 + (of_nat r - 10) = (of_nat (0x57 + r) :: u8)" "0x30 + of_nat r = (of_nat (0x30 + r) :: u8)"
    by simp_all
  have "unat (of_nat n :: u8) = n" if "n < 256" for n
    using that by (simp add: unat_of_nat)
  from this [of "0x57 + r"] this [of "0x30 + r"] r show ?thesis
    unfolding digit_char_def e by (simp del: of_nat_add)
qed

lemma digit_value_char: "r < 36 \<Longrightarrow> digit_value (digit_char r) = r"
  using unat_digit_char [of r] by (auto simp: digit_value_def is_char_digit_def word_le_nat_alt)

lemma digit_char_not:
  assumes "r < 36" shows "digit_char r \<noteq> 0x2D" "digit_char r \<noteq> 0"
proof -
  have "unat (digit_char r) \<noteq> unat (0x2D :: u8)" "unat (digit_char r) \<noteq> unat (0 :: u8)"
    using unat_digit_char [OF assms] by auto
  then show "digit_char r \<noteq> 0x2D" "digit_char r \<noteq> 0" by metis+
qed

lemma read_digits_snoc: "read_digits b (ds @ [c]) = read_digits b ds * b + digit_value c"
  by (simp add: read_digits_def)

lemma digit_zero: "r < 36 \<Longrightarrow> digit_char r = 0x30 \<Longrightarrow> r = 0"
  using digit_value_char [of r] by (simp add: digit_value_def is_char_digit_def)

text \<open>The digits of a number, least significant first.\<close>

lemma ultoa_digits_value:
  assumes "2 \<le> base" "base \<le> 36"
  shows "\<exists>ds. ultoa_digits v base acc = Some (acc @ ds) \<and> read_digits (unat base) (rev ds) = unat v \<and>
    (v \<noteq> 0 \<longrightarrow> ds \<noteq> [] \<and> last ds \<noteq> 0x30) \<and> (\<forall>c \<in> set ds. \<exists>r < unat base. c = digit_char r)"
  using assms
proof (induction v base acc rule: ultoa_digits.induct)
  case (1 v base acc)
  have b: "2 \<le> unat base" "unat base \<le> 36" using "1.prems" by (simp_all add: word_le_nat_alt)
  then have nb: "\<not> base \<le> 1" by (simp add: word_le_nat_alt)
  show ?case
  proof (cases "v = 0")
    case True
    then show ?thesis by (simp add: ultoa_digits.simps [of 0] read_digits_def)
  next
    case False
    let ?d = "digit_char (unat (v mod base))"
    from "1.IH" [OF False nb "1.prems"] obtain ds where
      ds: "ultoa_digits (v div base) base (acc @ [?d]) = Some ((acc @ [?d]) @ ds)"
      "read_digits (unat base) (rev ds) = unat (v div base)"
      "v div base \<noteq> 0 \<longrightarrow> ds \<noteq> [] \<and> last ds \<noteq> 0x30" "\<forall>c \<in> set ds. \<exists>r < unat base. c = digit_char r" by blast
    have m: "unat (v mod base) < unat base" using b by (simp add: unat_mod)
    have "v div base = 0 \<Longrightarrow> unat (v mod base) \<noteq> 0"
      using False by (metis add_0 mult_zero_left unat_eq_0 word_mod_div_equality div_mult_mod_eq)
    moreover have "ds = []" if "v div base = 0"
    proof -
      have "ultoa_digits (v div base) base (acc @ [?d]) = Some (acc @ [?d])"
        by (simp add: that ultoa_digits.simps [of 0])
      with ds(1) show ?thesis by simp
    qed
    ultimately have "last (?d # ds) \<noteq> 0x30"
      using ds(3) digit_zero [of "unat (v mod base)"] m b by fastforce
    moreover have "read_digits (unat base) (rev (?d # ds)) = unat v"
      using ds(2) m b digit_value_char [OF less_le_trans [OF m b(2)]] div_mult_mod_eq [of "unat v" "unat base"]
      by (simp add: read_digits_snoc unat_div unat_mod)
    ultimately show ?thesis
      using ds(1,4) m False nb
      by (intro exI [where x = "?d # ds"]) (auto simp: ultoa_digits.simps [of v])
  qed
qed

lemma ltoa_digits_value:
  "\<exists>ds. ltoa_digits v acc = acc @ ds \<and> read_digits 10 (rev ds) = v \<and> (\<forall>c \<in> set ds. \<exists>r < 10. c = digit_char r) \<and>
    (v \<noteq> 0 \<longrightarrow> ds \<noteq> [])"
proof (induction v acc rule: ltoa_digits.induct)
  case (1 v acc)
  show ?case
  proof (cases "v = 0")
    case True
    then show ?thesis by (simp add: ltoa_digits.simps [of 0] read_digits_def)
  next
    case False
    from "1.IH" [OF False] obtain ds where
      ds: "ltoa_digits (v div 10) (acc @ [digit_char (v mod 10)]) = (acc @ [digit_char (v mod 10)]) @ ds"
      "read_digits 10 (rev ds) = v div 10" "\<forall>c \<in> set ds. \<exists>r < 10. c = digit_char r" by blast
    then show ?thesis
      using False by (intro exI [where x = "digit_char (v mod 10) # ds"])
        (auto simp: ltoa_digits.simps [of v] read_digits_snoc digit_value_char intro: exI [where x = "v mod 10"])
  qed
qed

text \<open>C19: ultoa writes the digits of the number, most significant first and without a leading zero,
  and a final 0; it returns their count, and reading them back gives the number.\<close>

theorem ultoa_roundtrip:
  assumes "2 \<le> base" "base \<le> 36"
  shows "\<exists>ds. ultoa v base = Some (length ds, ds @ [0]) \<and> read_digits (unat base) ds = unat v \<and>
    ds \<noteq> [] \<and> (hd ds = 0x30 \<longrightarrow> v = 0) \<and> (\<forall>c \<in> set ds. digit_value c < unat base)"
proof (cases "v = 0")
  case True
  have "2 \<le> unat base" using assms by (simp add: word_le_nat_alt)
  with True show ?thesis
    by (intro exI [where x = "[0x30]"])
      (simp add: ultoa_def read_digits_def digit_value_def is_char_digit_def)
next
  case False
  from ultoa_digits_value [OF assms, of v "[]"] False obtain ds where
    ds: "ultoa_digits v base [] = Some ds" "read_digits (unat base) (rev ds) = unat v" "ds \<noteq> []"
    "last ds \<noteq> 0x30" "\<forall>c \<in> set ds. \<exists>r < unat base. c = digit_char r" by auto
  have "unat base \<le> 36" using assms by (simp add: word_le_nat_alt)
  with ds(5) digit_value_char have "\<forall>c \<in> set ds. digit_value c < unat base" by fastforce
  with ds False show ?thesis
    by (intro exI [where x = "rev ds"]) (simp add: ultoa_def str_reverse_prefix hd_rev)
qed

theorem ultoa_roundtrip_witness:
  "\<exists>ds. ultoa 0xBEEF 16 = Some (length ds, ds @ [0]) \<and> read_digits (unat (16 :: u64)) ds = unat (0xBEEF :: u64) \<and>
    ds \<noteq> [] \<and> (hd ds = 0x30 \<longrightarrow> (0xBEEF :: u64) = 0) \<and> (\<forall>c \<in> set ds. digit_value c < unat (16 :: u64))"
  by (rule ultoa_roundtrip) simp_all

text \<open>C20: itoa writes every 32-bit integer, INT_MIN included, as a text that reads back as the integer.\<close>

theorem itoa_roundtrip:
  "\<exists>txt. itoa v 10 = Some (length txt, txt @ [0]) \<and> read_int txt = sint v"
proof (cases "v = 0")
  case True
  then show ?thesis
    by (intro exI [where x = "[0x30]"])
      (simp add: itoa_def ltoa_def read_int_def read_digits_def digit_value_def is_char_digit_def)
next
  case False
  let ?w = "scast v :: u64"
  have sw: "sint ?w = sint v" by (simp add: sint_up_scast is_up)
  have nz: "?w \<noteq> 0" using False sw by (metis signed_0 signed_eq_0_iff)
  have "- (2 ^ 31) \<le> sint v" using sint_range_size [of v] by (simp add: word_size)
  with sw have nmin: "sint ?w \<noteq> - (2 ^ 63)" by simp
  from ltoa_digits_value [of "nat \<bar>sint v\<bar>" "[]"] obtain ds where
    ds: "ltoa_digits (nat \<bar>sint v\<bar>) [] = ds" "read_digits 10 (rev ds) = nat \<bar>sint v\<bar>"
    "\<forall>c \<in> set ds. \<exists>r < 10. c = digit_char r" "nat \<bar>sint v\<bar> \<noteq> 0 \<longrightarrow> ds \<noteq> []" by auto
  have "sint v \<noteq> 0" using False by (simp add: signed_eq_0_iff)
  with ds(4) have ne: "rev ds \<noteq> []" by simp
  then obtain c cs where c: "rev ds = c # cs" by (cases "rev ds") auto
  then have "c \<in> set ds" by (metis list.set_intros(1) set_rev)
  with ds(3) digit_char_not have "c \<noteq> 0x2D" by fastforce
  then have ri: "read_int (rev ds) = int (read_digits 10 (rev ds))" by (simp add: read_int_def c)
  show ?thesis
  proof (cases "sint v < 0")
    case True
    have "ltoa ?w 10 = Some (length (ds @ [0x2D]), rev (ds @ [0x2D]) @ [0])"
      using nz nmin sw ds(1) True str_reverse_prefix [of "ds @ [0x2D]" "[0]"]
      by (simp add: ltoa_def)
    moreover have "read_int (0x2D # rev ds) = sint v"
      using True ds(2) by (simp add: read_int_def)
    ultimately show ?thesis
      by (intro exI [where x = "0x2D # rev ds"]) (simp add: itoa_def)
  next
    case False
    have "ltoa ?w 10 = Some (length ds, rev ds @ [0])"
      using nz nmin sw ds(1) False str_reverse_prefix [of ds "[0]"] by (simp add: ltoa_def)
    moreover have "read_int (rev ds) = sint v" using False ds(2) ri by simp
    ultimately show ?thesis
      by (intro exI [where x = "rev ds"]) (simp add: itoa_def)
  qed
qed

lemma copied_spec:
  "(\<forall>i < n. n \<le> 2 ^ 64 \<longrightarrow> copied d s n m (d + of_nat i) = m (s + of_nat i)) \<and>
   (\<forall>x. (\<forall>i < n. x \<noteq> d + of_nat i) \<longrightarrow> copied d s n m x = m x)"
proof (intro conjI allI impI)
  fix i assume "i < n" "n \<le> 2 ^ 64"
  then have "unat (of_nat i :: u64) = i" by (simp add: unat_of_nat)
  with \<open>i < n\<close> show "copied d s n m (d + of_nat i) = m (s + of_nat i)" by (simp add: copied_def)
next
  fix x assume a: "\<forall>i < n. x \<noteq> d + of_nat i"
  have "x = d + of_nat (unat (x - d))" by simp
  with a have "\<not> unat (x - d) < n" by blast
  then show "copied d s n m x = m x" by (simp add: copied_def)
qed

text \<open>C16: memmove copies correctly even when the ranges overlap: the destination holds the bytes the
  source held before, and every other byte is unchanged.\<close>

theorem memmove_copies:
  assumes "unat d + unat n \<le> 2 ^ 64" "unat s + unat n \<le> 2 ^ 64"
  shows "(\<forall>i < unat n. memmove d s n m (d + of_nat i) = m (s + of_nat i)) \<and>
    (\<forall>x. (\<forall>i < unat n. x \<noteq> d + of_nat i) \<longrightarrow> memmove d s n m x = m x)"
  unfolding memmove_copied [OF assms]
  using copied_spec [of "unat n" d s m] unat_u64_less [of n] by simp

theorem memmove_copies_witness:
  "memmove 0x1008 0x1000 64 (\<lambda>a. ucast a) (0x1008 + of_nat 5) = 0x05 \<and>
    memmove 0x1008 0x1000 64 (\<lambda>a. ucast a) 0x1007 = 0x07"
proof -
  have l: "unat (0x1008 :: u64) + unat (64 :: u64) \<le> 2 ^ 64"
    "unat (0x1000 :: u64) + unat (64 :: u64) \<le> 2 ^ 64" by simp_all
  have "(0x1007 :: u64) \<noteq> 0x1008 + of_nat i" if "i < unat (64 :: u64)" for i
  proof
    assume e: "(0x1007 :: u64) = 0x1008 + of_nat i"
    have "(of_nat i :: u64) = (0x1008 + of_nat i) - 0x1008" by simp
    then have "(of_nat i :: u64) = 0xFFFFFFFFFFFFFFFF" unfolding e [symmetric] by simp
    then have "unat (of_nat i :: u64) = 0xFFFFFFFFFFFFFFFF" by simp
    moreover have "unat (of_nat i :: u64) = i" using that by (simp add: unat_of_nat)
    ultimately show False using that by simp
  qed
  then have "memmove 0x1008 0x1000 64 (\<lambda>a. ucast a) 0x1007 = (ucast (0x1007 :: u64) :: u8)"
    by (rule memmove_copies [OF l, THEN conjunct2, rule_format])
  moreover have "memmove 0x1008 0x1000 64 (\<lambda>a. ucast a) (0x1008 + of_nat 5) = (ucast (0x1000 + of_nat 5 :: u64) :: u8)"
    by (rule memmove_copies [OF l, THEN conjunct1, rule_format]) simp
  ultimately show ?thesis by simp
qed

text \<open>C17: The word-wise memcpy is memmove on ranges that do not overlap.\<close>

theorem memcpy_eq_memmove:
  assumes "unat d + unat n \<le> 2 ^ 64" "unat s + unat n \<le> 2 ^ 64" "apart d s (unat n)"
  shows "memcpy d s n m = memmove d s n m"
  using memcpy_copied [OF assms(3)] memmove_copied [OF assms(1,2)] by simp

theorem memcpy_eq_memmove_witness:
  "memcpy 0x2000 0x1000 3 (\<lambda>a. ucast a) = memmove 0x2000 0x1000 3 (\<lambda>a. ucast a)"
proof (rule memcpy_eq_memmove)
  show "apart 0x2000 0x1000 (unat (3 :: u64))"
  proof -
    have n: "unat (3 :: u64) = 3" by simp
    have "i < 3 \<Longrightarrow> i = 0 \<or> i = 1 \<or> i = 2" for i :: nat by linarith
    then show ?thesis unfolding n apart_def by fastforce
  qed
qed simp_all

text \<open>C18: strcmp returns on strings and orders them lexicographically by unsigned characters; it
  answers 0 for equal strings only.\<close>

theorem strcmp_orders:
  assumes "cstring m s1 cs" "cstring m s2 ds"
  shows "\<exists>r. strcmp m s1 s2 = Some r \<and> (r = 0 \<longleftrightarrow> cs = ds) \<and> (r < 0 \<longleftrightarrow> (cs, ds) \<in> lexord char_order)"
  by (rule strcmp_lexord [OF assms])

definition example_bytes :: bytes_mem where
  "example_bytes = (\<lambda>_. 0)(0x100 := 0x61, 0x101 := 0x62, 0x200 := 0x61, 0x201 := 0x63)"

theorem strcmp_orders_witness:
  "\<exists>r. strcmp example_bytes 0x100 0x200 = Some r \<and> (r = 0 \<longleftrightarrow> [0x61, 0x62 :: u8] = [0x61, 0x63]) \<and>
     (r < 0 \<longleftrightarrow> ([0x61, 0x62], [0x61, 0x63]) \<in> lexord char_order)"
  by (rule strcmp_orders) (simp_all add: example_bytes_def)

end
