(* ===== verification/Memmap.thy ===== *)
theory Memmap
  imports Vmm
begin

text \<open>
  The physical memory map of \<^verbatim>\<open>src/mm/pmm.c\<close>: \<open>memory_init_base\<close> copies the boot loader's map,
  \<open>memory_reserve_range\<close> takes ranges out of its usable regions, and \<open>memory_init\<close> makes the
  largest usable region the heap.

  The array of 64 entries and its count are the list of the entries in use. The boot
  loader's map is given as the list of entries a walk over it visits.
\<close>

unbundle bit_operations_syntax

section \<open>The code\<close>

record memory_map_entry =
  mm_addr :: u64
  mm_len :: u64
  mm_type :: u32

record mm_state = vm_state +
  kernel_memory_map :: "memory_map_entry list"

abbreviation (input) MAP_MAX :: nat where "MAP_MAX \<equiv> 64"

text \<open>The types of the Limine protocol, as E820 types.\<close>

definition limine_type :: "u64 \<Rightarrow> u32" where
  "limine_type t =
     (if t = 0 then 1 else if t = 1 then 2 else if t = 2 then 3 else if t = 3 then 4
      else if t = 4 then 5 else 2)"

definition limine_entry :: "u64 \<times> u64 \<times> u64 \<Rightarrow> memory_map_entry" where
  "limine_entry = (\<lambda>(base, len, t). \<lparr>mm_addr = base, mm_len = len, mm_type = limine_type t\<rparr>)"

text \<open>Without a map from the boot loader: 128 MiB behind the kernel image.\<close>

definition fallback_heap :: "'b boot_env_scheme \<Rightarrow> 'a mm_state_scheme \<Rightarrow> 'a mm_state_scheme" where
  "fallback_heap K s =
     (let head = (image_end K + 4095) AND NOT 4095; sz = 128 * 1024 * 1024 - hdr in
      s\<lparr>hp_head := head,
        hp_blocks := (hp_blocks s)(head \<mapsto> \<lparr>hb_size = sz, hb_next = NULL, hb_free = True\<rparr>),
        kernel_memory_map := [\<lparr>mm_addr = head, mm_len = sz, mm_type = 1\<rparr>]\<rparr>)"

text \<open>Mapping the usable regions above 4 GiB; a failure is only logged.\<close>

definition map_high_region ::
  "'b kernel_build_scheme \<Rightarrow> memory_map_entry \<Rightarrow> 'a mm_state_scheme \<Rightarrow> 'a mm_state_scheme option" where
  "map_high_region K e s =
     (let region_end = mm_addr e + mm_len e in
      if mm_type e \<noteq> 1 \<or> region_end \<le> 0x100000000 then Some s
      else let region_start = (if mm_addr e < 0x100000000 then 0x100000000 else mm_addr e);
               map_start = region_start AND NOT 0x1FFFFF;
               map_size = ((region_end + 0x1FFFFF) AND NOT 0x1FFFFF) - map_start
           in map_option snd (map_physical_range K map_start map_size 0 s))"

text \<open>
  \<open>memory_init_base\<close>: the argument is the Multiboot map (\<open>None\<close> without the MMAP flag), with
  E820 types, or the Limine map, with Limine's types, and the root register.
\<close>

definition memory_init_base_grub ::
  "'b kernel_build_scheme \<Rightarrow> memory_map_entry list option \<Rightarrow> 'a mm_state_scheme \<Rightarrow> 'a mm_state_scheme option" where
  "memory_init_base_grub K mmap s =
     (case mmap of
        None \<Rightarrow> Some (fallback_heap K s)
      | Some es \<Rightarrow> (let m = take MAP_MAX es in
          for_each (map_high_region K) m (s\<lparr>kernel_memory_map := m\<rparr>)))"

definition memory_init_base_limine ::
  "'b kernel_build_scheme \<Rightarrow> u64 \<Rightarrow> (u64 \<times> u64 \<times> u64) list option \<Rightarrow> 'a mm_state_scheme \<Rightarrow> 'a mm_state_scheme option" where
  "memory_init_base_limine K root_reg response s =
     (let s = vmm_init K root_reg s in
      case response of
        None \<Rightarrow> Some (fallback_heap K s)
      | Some es \<Rightarrow> (let m = map limine_entry (take MAP_MAX es) in
          for_each (map_high_region K) m (s\<lparr>kernel_memory_map := m\<rparr>)))"

text \<open>\<open>memory_init\<close>: the largest usable region, without the part below the kernel's end.\<close>

fun largest_free :: "memory_map_entry list \<Rightarrow> u64 \<times> u64 \<Rightarrow> u64 \<times> u64" where
  "largest_free [] best = best"
| "largest_free (e # es) best =
     (if mm_type e \<noteq> 1 then largest_free es best
      else if snd best < mm_len e then largest_free es (mm_addr e, mm_len e)
      else largest_free es best)"

definition heap_region :: "'b boot_env_scheme \<Rightarrow> memory_map_entry list \<Rightarrow> u64 \<times> u64" where
  "heap_region K m =
     (let (base, size) = largest_free m (0, 0);
          kernel_end = (image_end K + 4095) AND NOT 4095;
          kernel_end_phys = kernel_virt_to_phys K kernel_end
      in if base < kernel_end_phys \<and> kernel_end_phys < base + size
         then (kernel_end_phys, size - (kernel_end_phys - base)) else (base, size))"

definition memory_init :: "'b boot_env_scheme \<Rightarrow> 'a mm_state_scheme \<Rightarrow> 'a mm_state_scheme" where
  "memory_init K s =
     (let (base, size) = heap_region K (kernel_memory_map s); head = phys_to_virt K base in
      s\<lparr>hp_head := head,
        hp_blocks := (hp_blocks s)(head \<mapsto> \<lparr>hb_size = size - hdr, hb_next = NULL, hb_free = True\<rparr>),
        pmm_initialized := True\<rparr>)"

text \<open>
  \<open>memory_reserve_range\<close> visits the entries in order, the ones it appends included.
\<close>

function reserve_loop :: "u64 \<Rightarrow> u64 \<Rightarrow> nat \<Rightarrow> memory_map_entry list \<Rightarrow> int \<times> memory_map_entry list" where
  "reserve_loop rs re i m =
     (if length m \<le> i then (0, m)
      else
        let e = m ! i;
            region_start = mm_addr e;
            region_end = region_start + mm_len e
        in if mm_type e \<noteq> 1 then reserve_loop rs re (Suc i) m
           else if re \<le> region_start \<or> region_end \<le> rs then reserve_loop rs re (Suc i) m
           else if rs \<le> region_start \<and> region_end \<le> re
             then reserve_loop rs re (Suc i) (m[i := e\<lparr>mm_type := 2\<rparr>])
           else if rs \<le> region_start \<and> re < region_end
             then reserve_loop rs re (Suc i) (m[i := e\<lparr>mm_addr := re, mm_len := region_end - re\<rparr>])
           else if region_start < rs \<and> region_end \<le> re
             then reserve_loop rs re (Suc i) (m[i := e\<lparr>mm_len := rs - region_start\<rparr>])
           else if region_start < rs \<and> re < region_end
             then (if MAP_MAX \<le> length m then (- 1, m)
                   else reserve_loop rs re (Suc i)
                     (m[i := e\<lparr>mm_len := rs - region_start\<rparr>] @
                       [\<lparr>mm_addr = re, mm_len = region_end - re, mm_type = 1\<rparr>]))
           else reserve_loop rs re (Suc i) m)"
  by auto
termination
  by (relation "measure (\<lambda>(rs, re, i, m). 2 * (MAP_MAX - length m) + (length m - i))") auto

declare reserve_loop.simps [simp del]

definition memory_reserve_range :: "u64 \<Rightarrow> u64 \<Rightarrow> 'a mm_state_scheme \<Rightarrow> int \<times> 'a mm_state_scheme" where
  "memory_reserve_range rs re s =
     (if re \<le> rs then (0, s)
      else let (r, m) = reserve_loop rs re 0 (kernel_memory_map s) in (r, s\<lparr>kernel_memory_map := m\<rparr>))"

section \<open>What the map describes\<close>

definition region :: "memory_map_entry \<Rightarrow> nat set" where
  "region e = (if mm_type e = 1 then {unat (mm_addr e)..<unat (mm_addr e) + unat (mm_len e)} else {})"

definition usable :: "memory_map_entry list \<Rightarrow> nat set" where
  "usable m = (\<Union>e \<in> set m. region e)"

definition map_ok :: "memory_map_entry list \<Rightarrow> bool" where
  "map_ok m \<longleftrightarrow> length m \<le> MAP_MAX \<and> (\<forall>e \<in> set m. unat (mm_addr e) + unat (mm_len e) < 2 ^ 64)"

lemma usable_simps [simp]:
  "usable [] = {}" "usable (e # m) = region e \<union> usable m" "usable (m @ m') = usable m \<union> usable m'"
  by (simp_all add: usable_def)

section \<open>Reserving a range\<close>

text \<open>The entries from \<open>i\<close> on, seen as the one visited and the rest.\<close>

lemma list_at:
  assumes "i < length m"
  shows "m = take i m @ m ! i # drop (Suc i) m" "m[i := e] = take i m @ e # drop (Suc i) m"
  using assms by (simp_all add: id_take_nth_drop upd_conv_take_nth_drop)

text \<open>
  What one visit of \<open>e\<close> makes of the map: it is replaced by the entries \<open>x\<close>, and \<open>y\<close> is
  appended. Together they describe the region of \<open>e\<close> without the range.
\<close>

definition reserved_entry :: "u64 \<Rightarrow> u64 \<Rightarrow> memory_map_entry \<Rightarrow> memory_map_entry \<Rightarrow> memory_map_entry list \<Rightarrow> bool" where
  "reserved_entry rs re e x y \<longleftrightarrow>
     region x \<union> usable y = region e - {unat rs..<unat re} \<and>
     (mm_type e \<noteq> 1 \<longrightarrow> x = e) \<and>
     (\<forall>z \<in> insert x (set y). unat (mm_addr z) + unat (mm_len z) < 2 ^ 64)"

lemma reserve_step:
  assumes lt: "rs < re" and i: "i < length m" and ok: "map_ok m"
  obtains (stop) "reserve_loop rs re i m = (- 1, m)" "length m = MAP_MAX"
      "mm_type (m ! i) = 1" "unat (mm_addr (m ! i)) < unat rs"
      "unat re < unat (mm_addr (m ! i)) + unat (mm_len (m ! i))"
    | (go) x y where "reserve_loop rs re i m = reserve_loop rs re (Suc i) (m[i := x] @ y)"
      "reserved_entry rs re (m ! i) x y" "length (m @ y) \<le> MAP_MAX"
proof -
  let ?e = "m ! i"
  let ?fin = "mm_addr ?e + mm_len ?e"
  from ok i have "?e \<in> set m" and len: "length m \<le> MAP_MAX" by (auto simp: map_ok_def)
  with ok have nw: "unat (mm_addr ?e) + unat (mm_len ?e) < 2 ^ 64" unfolding map_ok_def by blast
  then have u: "unat ?fin = unat (mm_addr ?e) + unat (mm_len ?e)" by (rule unat_plus_no_wrap)
  note d = reserve_loop.simps [of rs re i m, unfolded Let_def]
  have same: "m[i := ?e] = m" by simp
  have go': thesis if "reserve_loop rs re i m = reserve_loop rs re (Suc i) (m[i := x] @ y)"
    "reserved_entry rs re ?e x y" "length (m @ y) \<le> MAP_MAX" for x y using go that by blast
  note w = word_less_nat_alt word_le_nat_alt u
  have r: "reserved_entry rs re ?e x y" if "mm_type ?e = 1" "mm_type x = 1 \<or> mm_type x = 2"
    "region x \<union> usable y = {unat (mm_addr ?e)..<unat ?fin} - {unat rs..<unat re}"
    "\<forall>z \<in> insert x (set y). unat (mm_addr z) + unat (mm_len z) < 2 ^ 64" for x y
    using that u by (simp add: reserved_entry_def region_def)
  consider "mm_type ?e \<noteq> 1" | "mm_type ?e = 1" "re \<le> mm_addr ?e \<or> ?fin \<le> rs"
    | "mm_type ?e = 1" "mm_addr ?e < re" "rs < ?fin" "rs \<le> mm_addr ?e" "?fin \<le> re"
    | "mm_type ?e = 1" "mm_addr ?e < re" "rs < ?fin" "rs \<le> mm_addr ?e" "re < ?fin"
    | "mm_type ?e = 1" "mm_addr ?e < re" "rs < ?fin" "mm_addr ?e < rs" "?fin \<le> re"
    | "mm_type ?e = 1" "mm_addr ?e < rs" "re < ?fin"
    using lt by (metis not_le order.strict_trans)
  then show thesis
  proof cases
    case 1
    with i nw show thesis
      by (intro go' [of ?e "[]"]) (simp_all add: d reserved_entry_def region_def len)
  next
    case 2
    with i nw show thesis
      by (intro go' [of ?e "[]"] r) (auto simp: d region_def len w)
  next
    case 3
    with i nw show thesis
      by (intro go' [of "?e\<lparr>mm_type := 2\<rparr>" "[]"] r) (auto simp: d region_def len w)
  next
    case 4
    then have "unat (?fin - re) = unat ?fin - unat re" by (intro unat_minus_no_borrow) (simp add: w)
    with 4 i nw show thesis
      by (intro go' [of "?e\<lparr>mm_addr := re, mm_len := ?fin - re\<rparr>" "[]"] r)
        (auto simp: d region_def len w not_le)
  next
    case 5
    then have "unat (rs - mm_addr ?e) = unat rs - unat (mm_addr ?e)"
      by (intro unat_minus_no_borrow) (simp add: w)
    with 5 i nw show thesis
      by (intro go' [of "?e\<lparr>mm_len := rs - mm_addr ?e\<rparr>" "[]"] r)
        (auto simp: d region_def len w not_le)
  next
    case 6
    then have n: "\<not> (re \<le> mm_addr ?e \<or> ?fin \<le> rs)" "\<not> rs \<le> mm_addr ?e" "\<not> ?fin \<le> re"
      using lt by auto
    have s: "unat (rs - mm_addr ?e) = unat rs - unat (mm_addr ?e)" "unat (?fin - re) = unat ?fin - unat re"
      using 6 by (intro unat_minus_no_borrow; simp add: w)+
    show thesis
    proof (cases "length m < MAP_MAX")
      case True
      with 6 n i nw s lt show thesis
        by (intro go' [of "?e\<lparr>mm_len := rs - mm_addr ?e\<rparr>" "[\<lparr>mm_addr = re, mm_len = ?fin - re, mm_type = 1\<rparr>]"] r)
          (auto simp: d region_def w not_le)
    next
      case False
      with 6 n i len have "reserve_loop rs re i m = (- 1, m)" by (simp add: d)
      with stop 6 False len show thesis by (simp add: w)
    qed
  qed
qed

lemma reserve_loop_usable:
  assumes lt: "rs < re" and "i \<le> length m" "map_ok m"
  shows "\<exists>r m'. reserve_loop rs re i m = (r, m') \<and> map_ok m' \<and> length m \<le> length m' \<and>
    (\<forall>j < length m. mm_type (m ! j) \<noteq> 1 \<longrightarrow> m' ! j = m ! j) \<and>
    (r = 0 \<and> usable m' = usable (take i m) \<union> (usable (drop i m) - {unat rs..<unat re}) \<or>
     r = - 1 \<and> length m' = MAP_MAX \<and> usable m' \<subseteq> usable m \<and>
       usable m - {unat rs..<unat re} \<subseteq> usable m')"
  using assms(2,3)
proof (induction "2 * (MAP_MAX - length m) + (length m - i)" arbitrary: i m rule: less_induct)
  case less
  show ?case
  proof (cases "i < length m")
    case False
    then have "reserve_loop rs re i m = (0, m)" by (simp add: reserve_loop.simps [of rs re i m])
    moreover from False less.prems have "i = length m" by simp
    ultimately show ?thesis using less.prems by simp
  next
    case True
    note at = list_at [OF True]
    from lt True less.prems(2) show ?thesis
    proof (cases rule: reserve_step)
      case stop
      with less.prems show ?thesis by auto
    next
      case (go x y)
      let ?m = "m[i := x] @ y"
      let ?R = "{unat rs..<unat re}"
      have ok: "map_ok ?m"
        using less.prems(2) go(2,3) set_update_subset_insert [of m i x]
        unfolding map_ok_def reserved_entry_def by auto
      have dec: "2 * (MAP_MAX - length ?m) + (length ?m - Suc i) < 2 * (MAP_MAX - length m) + (length m - i)"
        using go(3) True by simp
      from less.hyps [OF dec _ ok] True obtain r m' where m': "reserve_loop rs re (Suc i) ?m = (r, m')"
        "map_ok m'" "length ?m \<le> length m'" "\<forall>j < length ?m. mm_type (?m ! j) \<noteq> 1 \<longrightarrow> m' ! j = ?m ! j"
        "r = 0 \<and> usable m' = usable (take (Suc i) ?m) \<union> (usable (drop (Suc i) ?m) - ?R) \<or>
         r = - 1 \<and> length m' = MAP_MAX \<and> usable m' \<subseteq> usable ?m \<and> usable ?m - ?R \<subseteq> usable m'" by auto
      have e: "region x \<union> usable y = region (m ! i) - ?R"
        using go(2) by (simp add: reserved_entry_def)
      have um: "usable m = usable (take i m) \<union> region (m ! i) \<union> usable (drop (Suc i) m)"
        using arg_cong [OF at(1), of usable] by (simp add: Un_assoc)
      have ux: "usable ?m = usable (take i m) \<union> region x \<union> usable (drop (Suc i) m) \<union> usable y"
        using arg_cong [OF at(2), of usable, of x] by (simp add: Un_assoc)
      have t: "usable (take (Suc i) ?m) = usable (take i m) \<union> region x"
        using at(2) [of x] True by (simp add: take_Suc_conv_app_nth Un_commute)
      have d: "usable (drop (Suc i) ?m) = usable (drop (Suc i) m) \<union> usable y"
        using True by simp
      have di: "usable (drop i m) = region (m ! i) \<union> usable (drop (Suc i) m)"
        using True by (simp add: Cons_nth_drop_Suc [symmetric])
      have "\<forall>j < length m. mm_type (m ! j) \<noteq> 1 \<longrightarrow> m' ! j = m ! j"
      proof (intro allI impI)
        fix j assume j: "j < length m" "mm_type (m ! j) \<noteq> 1"
        then have "?m ! j = m ! j"
          using go(2) by (cases "j = i") (auto simp: nth_append reserved_entry_def)
        with m'(4) j show "m' ! j = m ! j" by simp
      qed
      moreover from m'(5) have "r = 0 \<and> usable m' = usable (take i m) \<union> (usable (drop i m) - ?R) \<or>
         r = - 1 \<and> length m' = MAP_MAX \<and> usable m' \<subseteq> usable m \<and> usable m - ?R \<subseteq> usable m'"
        unfolding t d di um ux using e by blast
      ultimately show ?thesis
        using go(1) m'(1-3) by auto
    qed
  qed
qed

text \<open>C14: The union of the usable regions loses exactly the range, or the map is full and the call
  answers -1 without having lost more than that; entries that were not usable are not touched.\<close>

theorem memory_reserve_range_exact:
  assumes "map_ok (kernel_memory_map s)"
  shows "\<exists>r s'. memory_reserve_range rs re s = (r, s') \<and> map_ok (kernel_memory_map s') \<and>
    (\<forall>j < length (kernel_memory_map s). mm_type (kernel_memory_map s ! j) \<noteq> 1 \<longrightarrow>
       kernel_memory_map s' ! j = kernel_memory_map s ! j) \<and>
    (r = 0 \<and> usable (kernel_memory_map s') = usable (kernel_memory_map s) - {unat rs..<unat re} \<or>
     r = - 1 \<and> length (kernel_memory_map s') = MAP_MAX \<and>
       usable (kernel_memory_map s') \<subseteq> usable (kernel_memory_map s) \<and>
       usable (kernel_memory_map s) - {unat rs..<unat re} \<subseteq> usable (kernel_memory_map s'))"
proof (cases "rs < re")
  case True
  with reserve_loop_usable [OF True _ assms, of 0] show ?thesis
    by (auto simp: memory_reserve_range_def split: prod.split)
next
  case False
  then have "{unat rs..<unat re} = {}" by (simp add: word_less_nat_alt)
  with False assms show ?thesis by (auto simp: memory_reserve_range_def)
qed

section \<open>The heap\<close>

lemma largest_free_cases:
  "largest_free m best = best \<and> (\<forall>e \<in> set m. mm_type e = 1 \<longrightarrow> mm_len e \<le> snd best) \<or>
   (\<exists>e \<in> set m. mm_type e = 1 \<and> largest_free m best = (mm_addr e, mm_len e) \<and> snd best < mm_len e \<and>
      (\<forall>e' \<in> set m. mm_type e' = 1 \<longrightarrow> mm_len e' \<le> mm_len e))"
proof (induction m arbitrary: best)
  case (Cons e m)
  show ?case
  proof (cases "mm_type e = 1 \<and> snd best < mm_len e")
    case True
    from Cons [of "(mm_addr e, mm_len e)"] True show ?thesis
      by (auto intro: less_imp_le order.strict_trans)
  next
    case False
    with Cons [of best] show ?thesis by (auto simp: not_less intro: order.trans less_imp_le)
  qed
qed simp


text \<open>A machine with 640 KiB of low memory and 127 MiB above 1 MiB.\<close>

definition example_map :: "memory_map_entry list" where
  "example_map = [\<lparr>mm_addr = 0, mm_len = 0xA0000, mm_type = 1\<rparr>,
     \<lparr>mm_addr = 0xF0000, mm_len = 0x10000, mm_type = 2\<rparr>,
     \<lparr>mm_addr = 0x100000, mm_len = 0x7F00000, mm_type = 1\<rparr>]"

definition example_mm :: mm_state where
  "example_mm = \<lparr>hp_head = NULL, hp_blocks = Map.empty, pmm_initialized = False, kmem = (\<lambda>_. 0),
     page_table_l4 = 0x1000, tlb_log = [], kernel_memory_map = example_map\<rparr>"

definition example_boot :: boot_env where
  "example_boot = \<lparr>boot_with = LIMINE, hhdm_response = Some 0xFFFF800000000000,
     exec_addr_response = Some (0xFFFFFFFF80000000, 0x100000), image_end = 0xFFFFFFFF80080000\<rparr>"

lemma example_map_ok: "map_ok (kernel_memory_map example_mm)"
  by (simp add: map_ok_def example_mm_def example_map_def)

theorem memory_reserve_range_exact_witness:
  "\<exists>r s'. memory_reserve_range 0x8000 0x9000 example_mm = (r, s') \<and> map_ok (kernel_memory_map s') \<and>
    (\<forall>j < length (kernel_memory_map example_mm). mm_type (kernel_memory_map example_mm ! j) \<noteq> 1 \<longrightarrow>
       kernel_memory_map s' ! j = kernel_memory_map example_mm ! j) \<and>
    (r = 0 \<and> usable (kernel_memory_map s') =
         usable (kernel_memory_map example_mm) - {unat (0x8000 :: u64)..<unat (0x9000 :: u64)} \<or>
     r = - 1 \<and> length (kernel_memory_map s') = MAP_MAX \<and>
       usable (kernel_memory_map s') \<subseteq> usable (kernel_memory_map example_mm) \<and>
       usable (kernel_memory_map example_mm) - {unat (0x8000 :: u64)..<unat (0x9000 :: u64)}
         \<subseteq> usable (kernel_memory_map s'))"
  by (rule memory_reserve_range_exact [OF example_map_ok])


text \<open>
  \<open>memory_init_base\<close> maps the regions above 4 GiB before there is a heap: a region whose root
  entry is absent is never mapped, because its first table cannot be allocated.
\<close>

lemma pt_pool_alloc_no_heap: "hp_head s = NULL \<Longrightarrow> pt_pool_alloc s = Some (NULL, s)"
  by (simp add: pt_pool_alloc_def page_alloc_def page_alloc_loop.simps)

lemma map_physical_range_no_heap:
  assumes "hp_head s = NULL" "start < start + sz"
    and "\<not> pte_present (arch K) (kmem s (slot (page_table_l4 s) (pt_index start 3)))"
  shows "map_physical_range K start sz flags s = Some (- 1, s)"
  using assms pt_pool_alloc_no_heap [OF assms(1)]
  by (simp add: map_physical_range_def phys_range_loop.simps [of K start] numeral_2_eq_2 numeral_3_eq_3)

end
