(* ===== verification/Linked.thy ===== *)
theory Linked
  imports Prelude
begin

text \<open>
  The kernel keeps its nodes (files, threads, processes) in lists that are linked through a
  field of the node. This theory has the loops over such lists that the components share,
  and the relation \<open>linked\<close> between a head pointer and the list of node addresses behind it.
  \<open>nxt\<close> reads the link of a node, \<open>m\<close> is the store of the nodes.
\<close>

section \<open>Loops over a linked list\<close>

text \<open>\<^verbatim>\<open>for (c = x; c; c = c->next) if (P(c)) return c; return 0;\<close>\<close>

partial_function (option) list_find ::
  "('n \<Rightarrow> u64) \<Rightarrow> (u64 \<Rightarrow> 'n \<Rightarrow> bool) \<Rightarrow> (u64 \<rightharpoonup> 'n) \<Rightarrow> u64 \<Rightarrow> u64 option" where
  "list_find nxt P m x =
     (if x = NULL then Some NULL
      else case m x of
        None \<Rightarrow> None
      | Some n \<Rightarrow> if P x n then Some x else list_find nxt P m (nxt n))"

text \<open>\<^verbatim>\<open>while (c && i > 0) { c = c->next; i--; }\<close>\<close>

fun list_skip :: "('n \<Rightarrow> u64) \<Rightarrow> (u64 \<rightharpoonup> 'n) \<Rightarrow> u64 \<Rightarrow> nat \<Rightarrow> u64 option" where
  "list_skip nxt m x 0 = Some x"
| "list_skip nxt m x (Suc i) =
     (if x = NULL then Some NULL
      else case m x of None \<Rightarrow> None | Some n \<Rightarrow> list_skip nxt m (nxt n) i)"

text \<open>\<^verbatim>\<open>for (c = x; c; c = c->next) ...\<close>: the addresses of the nodes, in order.\<close>

partial_function (option) list_nodes :: "('n \<Rightarrow> u64) \<Rightarrow> (u64 \<rightharpoonup> 'n) \<Rightarrow> u64 \<Rightarrow> u64 list option" where
  "list_nodes nxt m x =
     (if x = NULL then Some []
      else case m x of
        None \<Rightarrow> None
      | Some n \<Rightarrow> do { ps \<leftarrow> list_nodes nxt m (nxt n); Some (x # ps) })"

section \<open>The list behind a pointer\<close>

fun linked :: "('n \<Rightarrow> u64) \<Rightarrow> (u64 \<rightharpoonup> 'n) \<Rightarrow> u64 \<Rightarrow> u64 list \<Rightarrow> bool" where
  "linked nxt m x [] \<longleftrightarrow> x = NULL"
| "linked nxt m x (p # ps) \<longleftrightarrow> x = p \<and> p \<noteq> NULL \<and> (\<exists>n. m p = Some n \<and> linked nxt m (nxt n) ps)"

lemma linked_functional: "linked nxt m x ps \<Longrightarrow> linked nxt m x qs \<Longrightarrow> ps = qs"
proof (induction ps arbitrary: x qs)
  case (Cons p ps)
  then show ?case by (cases qs) auto
next
  case Nil
  then show ?case by (cases qs) auto
qed

lemma linked_NULL [simp]: "linked nxt m NULL ps \<longleftrightarrow> ps = []"
  by (cases ps) auto

lemma linked_non_NULL: "x \<noteq> NULL \<Longrightarrow> linked nxt m x ps \<longleftrightarrow>
    (\<exists>n qs. ps = x # qs \<and> m x = Some n \<and> linked nxt m (nxt n) qs)"
  by (cases ps) auto

lemma linked_append:
  "linked nxt m x (ps @ qs) \<Longrightarrow> \<exists>y. linked nxt m y qs"
  by (induction ps arbitrary: x) auto

lemma linked_tl:
  assumes "linked nxt m x (ps @ p # qs)" "m p = Some n"
  shows "linked nxt m (nxt n) qs"
  using assms by (induction ps arbitrary: x) auto

text \<open>Following links from a node cannot come back to it, so the addresses are distinct.\<close>

lemma linked_distinct: "linked nxt m x ps \<Longrightarrow> distinct ps"
proof (induction ps arbitrary: x)
  case (Cons p ps)
  then obtain n where n: "m p = Some n" "linked nxt m (nxt n) ps" "x = p" by auto
  have "p \<notin> set ps"
  proof
    assume "p \<in> set ps"
    then obtain as bs where ps: "ps = as @ p # bs" by (meson split_list)
    with n(2) have "linked nxt m (nxt n) bs" using linked_tl n(1) by fastforce
    with n(2) have "ps = bs" by (rule linked_functional)
    with ps show False by simp
  qed
  with Cons.IH n(2) show ?case by simp
qed simp

lemma linked_in: "linked nxt m x ps \<Longrightarrow> p \<in> set ps \<Longrightarrow> p \<noteq> NULL \<and> (\<exists>n. m p = Some n)"
  by (induction ps arbitrary: x) auto

text \<open>What decides the list is the links of its nodes.\<close>

lemma linked_cong:
  "(\<And>p. p \<in> set ps \<Longrightarrow> map_option nxt (m' p) = map_option nxt (m p)) \<Longrightarrow>
   linked nxt m' x ps = linked nxt m x ps"
proof (induction ps arbitrary: x)
  case (Cons p ps)
  have "map_option nxt (m' p) = map_option nxt (m p)" using Cons.prems by simp
  then show ?case
    using Cons.IH [OF Cons.prems] by (cases "m p"; cases "m' p") auto
qed simp

lemma linked_upd_other [simp]: "p \<notin> set ps \<Longrightarrow> linked nxt (m(p := v)) x ps = linked nxt m x ps"
  by (rule linked_cong) auto

lemma linked_upd_same:
  "m p = Some n \<Longrightarrow> nxt n' = nxt n \<Longrightarrow> linked nxt (m(p \<mapsto> n')) x ps = linked nxt m x ps"
  by (rule linked_cong) auto

section \<open>What the loops compute\<close>

lemma list_find_linked:
  "linked nxt m x ps \<Longrightarrow> list_find nxt P m x =
     Some (case find (\<lambda>p. P p (the (m p))) ps of None \<Rightarrow> NULL | Some p \<Rightarrow> p)"
proof (induction ps arbitrary: x)
  case Nil
  then show ?case by (subst list_find.simps) simp
next
  case (Cons p ps)
  then show ?case by (subst list_find.simps) auto
qed

lemma list_skip_linked:
  "linked nxt m x ps \<Longrightarrow> list_skip nxt m x i = Some (if i < length ps then ps ! i else NULL)"
proof (induction i arbitrary: x ps)
  case 0
  then show ?case by (cases ps) auto
next
  case (Suc i)
  then show ?case by (cases ps) auto
qed

lemma list_nodes_linked: "linked nxt m x ps \<Longrightarrow> list_nodes nxt m x = Some ps"
proof (induction ps arbitrary: x)
  case Nil
  then show ?case by (subst list_nodes.simps) simp
next
  case (Cons p ps)
  then show ?case by (subst list_nodes.simps) auto
qed

end
