(* ===== verification/Vnode.thy ===== *)
theory Vnode
  imports Memmap Klib Linked
begin

text \<open>
  The interface of file systems, \<^verbatim>\<open>include/drivers/filesystem.h\<close>: the vnode that every
  node of a file system embeds as its first member, directory entries, and the operations a
  driver offers. The function pointers of \<^verbatim>\<open>vnode_ops_t\<close> are one of the tables the
  drivers define, so a vnode carries the name of its table.

  The contents of files, the buffers that are read into and written from, and the image of
  the tar archive are bytes of memory, \<open>kbytes\<close>. The nodes themselves are typed objects at
  addresses that malloc handed out. Names are the bytes before the terminating zero.
\<close>

section \<open>The interface\<close>

datatype vnode_type = VNODE_TYPE_FILE | VNODE_TYPE_DIR

datatype vnode_ops = RAMFS_OPS | TARFS_OPS | DEVTMPFS_OPS

record vnode =
  vn_ops :: "vnode_ops option"
  vn_type :: vnode_type
  vn_size :: u64
  vn_mount :: u64
  vn_private :: u64

record vfs_dirent =
  de_ino :: u64
  de_off :: u64
  de_type :: u8
  de_name :: "u8 list"

record byte_state = mm_state +
  kbytes :: bytes_mem

definition load_bytes :: "bytes_mem \<Rightarrow> u64 \<Rightarrow> nat \<Rightarrow> u8 list" where
  "load_bytes m a n = map (\<lambda>i. m (a + of_nat i)) [0..<n]"

lemma length_load_bytes [simp]: "length (load_bytes m a n) = n"
  by (simp add: load_bytes_def)

lemma nth_load_bytes [simp]: "i < n \<Longrightarrow> load_bytes m a n ! i = m (a + of_nat i)"
  by (simp add: load_bytes_def)

text \<open>Ranges of memory, as lower and upper bounds of addresses.\<close>

definition disjoint_ranges :: "u64 \<Rightarrow> nat \<Rightarrow> u64 \<Rightarrow> nat \<Rightarrow> bool" where
  "disjoint_ranges a n b k \<longleftrightarrow> unat a + n \<le> 2 ^ 64 \<and> unat b + k \<le> 2 ^ 64 \<and>
     (unat a + n \<le> unat b \<or> unat b + k \<le> unat a)"

lemma unat_offset: "unat (a :: u64) + n \<le> 2 ^ 64 \<Longrightarrow> i < n \<Longrightarrow> unat (a + of_nat i) = unat a + i"
  by (subst unat_plus_no_wrap) (simp_all add: unat_of_nat)

lemma unat_diff_wrap:
  assumes "unat (x :: u64) < unat a" shows "unat (x - a) = 2 ^ 64 - unat a + unat x"
proof -
  have "unat (x - a) = (2 ^ 64 + unat x - unat a) mod 2 ^ 64"
    using unat_sub_if' [of x a] assms unat_u64_less [of a] by (simp add: word_le_nat_alt)
  with assms unat_u64_less [of a] show ?thesis by (simp only: mod_less)
qed

lemma outside_range:
  assumes "unat (x :: u64) < unat a \<or> unat a + n \<le> unat x" "unat a + n \<le> 2 ^ 64"
  shows "\<not> unat (x - a) < n"
proof (cases "unat x < unat a")
  case True
  then show ?thesis using unat_diff_wrap [OF True] assms(2) unat_u64_less [of a] by linarith
next
  case False
  then show ?thesis using assms by (simp add: unat_minus_no_borrow)
qed

lemma disjoint_outside:
  assumes "disjoint_ranges d n a k" "i < k"
  shows "\<not> unat (a + of_nat i - d) < n"
  using assms by (intro outside_range) (auto simp: disjoint_ranges_def unat_offset [where n = k])

lemma disjoint_apart: "disjoint_ranges d n s n \<Longrightarrow> apart d s n"
  using disjoint_outside unfolding apart_def by (meson not_le)

lemma load_bytes_cong:
  "(\<And>i. i < n \<Longrightarrow> m (a + of_nat i) = m' (a + of_nat i)) \<Longrightarrow> load_bytes m a n = load_bytes m' a n"
  by (auto simp: load_bytes_def)

lemma load_bytes_copied_same:
  assumes "n \<le> 2 ^ 64" shows "load_bytes (copied d s n m) d n = load_bytes m s n"
proof -
  have "copied d s n m (d + of_nat i) = m (s + of_nat i)" if "i < n" for i
    using copied_spec [of n d s m] that assms by simp
  then show ?thesis by (simp add: load_bytes_def)
qed

lemma load_bytes_copied_other:
  "disjoint_ranges d n a k \<Longrightarrow> load_bytes (copied d s n m) a k = load_bytes m a k"
  by (rule load_bytes_cong)
    (simp add: copied_def disjoint_outside)

lemma load_bytes_filled_other:
  "disjoint_ranges d n a k \<Longrightarrow> load_bytes (filled d v n m) a k = load_bytes m a k"
  by (rule load_bytes_cong)
    (simp add: filled_def disjoint_outside)

lemma load_bytes_filled_same: "n \<le> 2 ^ 64 \<Longrightarrow> load_bytes (filled d v n m) d n = replicate n v"
  by (rule nth_equalityI) (auto simp: filled_def unat_of_nat)

lemma load_bytes_append: "load_bytes m a (n + k) = load_bytes m a n @ load_bytes m (a + of_nat n) k"
  by (rule nth_equalityI) (auto simp: nth_append of_nat_diff)

lemma load_bytes_take: "k \<le> n \<Longrightarrow> take k (load_bytes m a n) = load_bytes m a k"
  by (rule nth_equalityI) auto

lemma load_bytes_drop: "drop k (load_bytes m a n) = load_bytes m (a + of_nat k) (n - k)"
  by (rule nth_equalityI) (auto simp: algebra_simps)

lemma memcpy_load_bytes:
  assumes "disjoint_ranges d (unat n) s (unat n)"
  shows "load_bytes (memcpy d s n m) d (unat n) = load_bytes m s (unat n)"
  using load_bytes_copied_same [of "unat n"] unat_u64_less [of n]
  by (simp add: memcpy_copied [OF disjoint_apart [OF assms]])

section \<open>Memory behind byte buffers\<close>

lemma heap_at_kbytes [simp]: "heap_at (s\<lparr>kbytes := m\<rparr>) lo hi L = heap_at s lo hi L"
  by (simp add: heap_at_def heap_rel_def)

lemma same_but_blocks_kbytes: "same_but_blocks s s' \<Longrightarrow> kbytes s' = kbytes s"
  unfolding same_but_blocks_def by (erule ssubst) simp

text \<open>
  A buffer of \<open>n\<close> bytes the code may use beside the memory at \<open>own\<close>: it lies outside the heap
  (user memory, a stack) or inside a range in use that does not start at \<open>own\<close>.
\<close>

definition buffer_ok :: "nat \<Rightarrow> nat \<Rightarrow> (nat \<times> nat) set \<Rightarrow> u64 \<Rightarrow> u64 \<Rightarrow> nat \<Rightarrow> bool" where
  "buffer_ok lo hi L own buf n \<longleftrightarrow> buf \<noteq> NULL \<and> unat buf + n \<le> 2 ^ 64 \<and>
     (unat buf + n \<le> lo \<or> hi \<le> unat buf \<or>
      (\<exists>(x, k) \<in> L. x \<noteq> unat own \<and> x \<le> unat buf \<and> unat buf + n \<le> x + k))"

lemma buffer_ok_disjoint:
  assumes h: "heap_at s lo hi L" and r: "(unat a, k) \<in> L" "i + j \<le> k" and b: "buffer_ok lo hi L a buf n"
  shows "disjoint_ranges (a + of_nat i) j buf n" "disjoint_ranges buf n (a + of_nat i) j"
proof -
  from heap_at_range [OF h r(1)] have a: "lo + 24 \<le> unat a" "unat a + k \<le> hi" "hi + 8192 \<le> 2 ^ 64" .
  then have "unat (of_nat i :: u64) = i" using r(2) by (simp add: unat_of_nat)
  with a r(2) have u: "unat (a + of_nat i) = unat a + i" by (simp add: unat_plus_no_wrap)
  have bn: "unat buf + n \<le> 2 ^ 64" using b by (simp add: buffer_ok_def)
  from b consider "unat buf + n \<le> lo" | "hi \<le> unat buf"
    | x m where "(x, m) \<in> L" "x \<noteq> unat a" "x \<le> unat buf" "unat buf + n \<le> x + m"
    unfolding buffer_ok_def by blast
  then have "unat buf + n \<le> unat a + i \<or> unat a + i + j \<le> unat buf"
  proof cases
    case (3 x m)
    with heap_inv_apart [OF heap_inv_at [OF h] r(1) 3(1)] r(2) show ?thesis by auto
  qed (use a r(2) in auto)
  with a r(2) bn show "disjoint_ranges (a + of_nat i) j buf n" "disjoint_ranges buf n (a + of_nat i) j"
    by (auto simp: disjoint_ranges_def u)
qed

text \<open>A range that is still in use after others were handed out and given back.\<close>

lemma buffer_ok_mono:
  assumes "buffer_ok lo hi L own buf n"
    and "\<And>x k. (x, k) \<in> L \<Longrightarrow> x \<noteq> unat own \<Longrightarrow> (x, k) \<in> L' \<and> x \<noteq> unat own'"
  shows "buffer_ok lo hi L' own' buf n"
  using assms unfolding buffer_ok_def by blast

text \<open>Two ranges in use.\<close>

lemma in_use_disjoint:
  assumes h: "heap_at s lo hi L" and r: "(unat a, k) \<in> L" "(unat b, l) \<in> L" "a \<noteq> b" "n \<le> k" "m \<le> l"
  shows "disjoint_ranges a n b m"
  using heap_inv_apart [OF heap_inv_at [OF h] r(1,2)] heap_at_range [OF h r(1)] heap_at_range [OF h r(2)] r(3-5)
  by (auto simp: disjoint_ranges_def u64_eq_iff)

lemma load_bytes_take2: "take k (load_bytes m a n) = load_bytes m a (min k n)"
  by (rule nth_equalityI) auto

section \<open>What a file system promises about files\<close>

text \<open>Writing into a list of bytes: a gap before the offset is filled with zeros.\<close>

definition write_at :: "u8 list \<Rightarrow> nat \<Rightarrow> u8 list \<Rightarrow> u8 list" where
  "write_at f off d = take off (f @ replicate (off - length f) 0) @ d @ drop (off + length d) f"

lemma length_write_at: "length (write_at f off d) = max (length f) (off + length d)"
  by (auto simp: write_at_def)

lemma write_at_same: "take (length d) (drop off (write_at f off d)) = d"
  by (simp add: write_at_def)

text \<open>
  \<open>ready i s p buf k\<close>: \<open>p\<close> is a file, and \<open>buf\<close> a buffer of \<open>k\<close> bytes for it; \<open>i\<close> is what
  the file system knows of the memory in use. Reading answers what is there of the range.
\<close>

locale file_reader =
  fixes read :: "u64 \<Rightarrow> u64 \<Rightarrow> u64 \<Rightarrow> u64 \<Rightarrow> 's \<Rightarrow> (int \<times> u64 option \<times> 's) option"
    and contents :: "'s \<Rightarrow> u64 \<Rightarrow> u8 list"
    and mem :: "'s \<Rightarrow> bytes_mem"
    and ready :: "'i \<Rightarrow> 's \<Rightarrow> u64 \<Rightarrow> u64 \<Rightarrow> nat \<Rightarrow> bool"
  assumes read_law: "ready i s p buf (unat sz) \<Longrightarrow> unat off + unat sz < 2 ^ 64 \<Longrightarrow>
      \<exists>w s'. read p buf sz off s = Some (0, Some w, s') \<and>
        unat w = length (take (unat sz) (drop (unat off) (contents s p))) \<and>
        load_bytes (mem s') buf (unat w) = take (unat sz) (drop (unat off) (contents s p)) \<and>
        (\<forall>q. contents s' q = contents s q) \<and>
        (\<forall>q b k. ready i s q b k \<longrightarrow> ready i s' q b k)"
begin

text \<open>A buffer as long as the file receives the file.\<close>

lemma read_all:
  assumes "ready i s p buf (unat sz)" "length (contents s p) \<le> unat sz"
  shows "\<exists>w s'. read p buf sz 0 s = Some (0, Some w, s') \<and> unat w = length (contents s p) \<and>
    load_bytes (mem s') buf (unat w) = contents s p"
proof -
  have "unat (0 :: u64) + unat sz < 2 ^ 64" using unat_u64_less [of sz] by simp
  from read_law [OF assms(1) this] assms(2) show ?thesis by fastforce
qed

text \<open>A read that answers 0 bytes means the end of the file.\<close>

lemma read_end:
  assumes "ready i s p buf (unat sz)" "unat off + unat sz < 2 ^ 64" "0 < sz"
  shows "(\<exists>s'. read p buf sz off s = Some (0, Some 0, s')) \<longleftrightarrow> length (contents s p) \<le> unat off"
  using read_law [OF assms(1,2)] assms(3) by (auto simp: word_less_nat_alt min_def unat_eq_0 split: if_splits)

text \<open>Reading in two pieces yields what reading at once does.\<close>

lemma read_twice:
  assumes "ready i s p b1 (unat n1)" "ready i s p b2 (unat n2)" "unat off + unat n1 + unat n2 < 2 ^ 64"
    and "read p b1 n1 off s = Some (0, Some w1, s1)" "read p b2 n2 (off + w1) s1 = Some (0, Some w2, s2)"
    and "w1 = n1"
  shows "load_bytes (mem s1) b1 (unat w1) @ load_bytes (mem s2) b2 (unat w2) =
    take (unat n1 + unat n2) (drop (unat off) (contents s p))"
proof -
  let ?c = "drop (unat off) (contents s p)"
  have "unat off + unat n1 < 2 ^ 64" using assms(3) by linarith
  from read_law [OF assms(1) this] assms(4) have 1: "unat n1 \<le> length ?c"
    "load_bytes (mem s1) b1 (unat n1) = take (unat n1) ?c" "contents s1 p = contents s p"
    "ready i s1 p b2 (unat n2)" using assms(2,6) by auto
  have o: "unat (off + n1) = unat off + unat n1" using assms(3) by (intro unat_plus_no_wrap) linarith
  then have "unat (off + n1) + unat n2 < 2 ^ 64" using assms(3) by linarith
  from read_law [OF 1(4) this] assms(5,6) 1(3) o have
    "load_bytes (mem s2) b2 (unat w2) = take (unat n2) (drop (unat n1) ?c)" by (auto simp: add.commute)
  with 1(2) assms(6) show ?thesis by (simp add: take_add)
qed

end

text \<open>Writing succeeds completely or not at all, and touches one file.\<close>

locale file_store = file_reader read contents mem ready
  for read :: "u64 \<Rightarrow> u64 \<Rightarrow> u64 \<Rightarrow> u64 \<Rightarrow> 's \<Rightarrow> (int \<times> u64 option \<times> 's) option"
    and contents :: "'s \<Rightarrow> u64 \<Rightarrow> u8 list"
    and mem :: "'s \<Rightarrow> bytes_mem"
    and ready :: "'i \<Rightarrow> 's \<Rightarrow> u64 \<Rightarrow> u64 \<Rightarrow> nat \<Rightarrow> bool" +
  fixes store_at :: "u64 \<Rightarrow> u64 \<Rightarrow> u64 \<Rightarrow> u64 \<Rightarrow> 's \<Rightarrow> (int \<times> u64 option \<times> 's) option"
  assumes write_law: "ready i s p buf (unat sz) \<Longrightarrow> unat off + unat sz + 7 < 2 ^ 64 \<Longrightarrow>
      \<exists>r w s' i'. store_at p buf sz off s = Some (r, w, s') \<and>
        (\<forall>q. q \<noteq> p \<longrightarrow> contents s' q = contents s q) \<and>
        (\<forall>q b k. ready i s q b k \<longrightarrow> ready i' s' q b k) \<and>
        (r = 0 \<and> w = Some sz \<and>
           contents s' p = write_at (contents s p) (unat off) (load_bytes (mem s) buf (unat sz)) \<or>
         r = - 1 \<and> w = None \<and> contents s' p = contents s p)"
begin

text \<open>What was written is read back.\<close>

lemma write_read:
  assumes "ready i s p buf (unat sz)" "ready i s p buf' (unat sz)" "unat off + unat sz + 7 < 2 ^ 64"
    and "store_at p buf sz off s = Some (0, w, s')"
  shows "w = Some sz \<and> (\<exists>s''. read p buf' sz off s' = Some (0, Some sz, s'') \<and>
    load_bytes (mem s'') buf' (unat sz) = load_bytes (mem s) buf (unat sz))"
proof -
  let ?d = "load_bytes (mem s) buf (unat sz)"
  from write_law [OF assms(1,3)] obtain r w' s1 i' where
    1: "store_at p buf sz off s = Some (r, w', s1)" "\<forall>q b k. ready i s q b k \<longrightarrow> ready i' s1 q b k"
    "r = 0 \<and> w' = Some sz \<and> contents s1 p = write_at (contents s p) (unat off) ?d \<or>
     r = - 1 \<and> w' = None \<and> contents s1 p = contents s p" by blast
  with assms(4) have w: "w = Some sz" "contents s' p = write_at (contents s p) (unat off) ?d" by auto
  have r: "ready i' s' p buf' (unat sz)" using 1(1,2) assms(2,4) by simp
  have "unat off + unat sz < 2 ^ 64" using assms(3) by simp
  from read_law [OF r this] w(2) write_at_same [of ?d "unat off" "contents s p"] obtain v s'' where
    "read p buf' sz off s' = Some (0, Some v, s'')" "unat v = length ?d" "load_bytes (mem s'') buf' (unat v) = ?d"
    by (auto simp: length_write_at)
  moreover from this(2) have "v = sz" by (simp add: u64_eq_iff)
  ultimately show ?thesis using w(1) by auto
qed

end

section \<open>What a file system promises about directories\<close>

text \<open>
  \<open>ok i s d\<close>: \<open>d\<close> is a directory of a well-formed file system. Looking up a name is looking
  it up in the list of entries, making a node adds one entry or changes nothing. Names longer
  than 63 bytes are outside the contract.
\<close>

locale directory =
  fixes lookup :: "u64 \<Rightarrow> u8 list \<Rightarrow> 's \<Rightarrow> (int \<times> u64 option) option"
    and make :: "u64 \<Rightarrow> u8 list \<Rightarrow> 's \<Rightarrow> (int \<times> u64 option \<times> 's) option"
    and entries :: "'s \<Rightarrow> u64 \<Rightarrow> (u8 list \<times> u64) list"
    and ok :: "'i \<Rightarrow> 's \<Rightarrow> u64 \<Rightarrow> bool"
  assumes lookup_law: "ok i s d \<Longrightarrow> lookup d name s =
      Some (case map_of (entries s d) name of None \<Rightarrow> (- 1, None) | Some p \<Rightarrow> (0, Some p))"
    and make_law: "ok i s d \<Longrightarrow> length name \<le> 63 \<Longrightarrow>
      \<exists>r q s' i'. make d name s = Some (r, q, s') \<and>
        (\<forall>e. ok i s e \<longrightarrow> ok i' s' e) \<and> (\<forall>e. e \<noteq> d \<longrightarrow> entries s' e = entries s e) \<and>
        (r = 0 \<and> map_of (entries s d) name = None \<and> (\<exists>p. q = Some p \<and> entries s' d = (name, p) # entries s d) \<or>
         r = - 1 \<and> q = None \<and> entries s' d = entries s d)"
begin

lemma make_cases:
  assumes "ok i s d" "length name \<le> 63" "make d name s = Some (r, q, s')"
  shows "(\<forall>e. e \<noteq> d \<longrightarrow> entries s' e = entries s e) \<and> (\<exists>i'. \<forall>e. ok i s e \<longrightarrow> ok i' s' e) \<and>
    (r = 0 \<and> map_of (entries s d) name = None \<and> (\<exists>p. q = Some p \<and> entries s' d = (name, p) # entries s d) \<or>
     r = - 1 \<and> q = None \<and> entries s' d = entries s d)"
proof -
  from make_law [OF assms(1,2)] obtain r1 q1 s1 i1 where "make d name s = Some (r1, q1, s1)"
    "\<forall>e. ok i s e \<longrightarrow> ok i1 s1 e" "\<forall>e. e \<noteq> d \<longrightarrow> entries s1 e = entries s e"
    "r1 = 0 \<and> map_of (entries s d) name = None \<and> (\<exists>p. q1 = Some p \<and> entries s1 d = (name, p) # entries s d) \<or>
     r1 = - 1 \<and> q1 = None \<and> entries s1 d = entries s d" by blast
  with assms(3) show ?thesis by auto
qed

text \<open>A node that was made is found under its name, and no other lookup changes.\<close>

lemma make_lookup:
  assumes "ok i s d" "length name \<le> 63" "make d name s = Some (0, q, s')"
  shows "lookup d name s' = Some (0, q)"
proof -
  from make_cases [OF assms] obtain i' p where "ok i' s' d" "q = Some p" "entries s' d = (name, p) # entries s d"
    using assms(1) by auto
  with lookup_law [OF this(1), of name] show ?thesis by simp
qed

lemma make_lookup_other:
  assumes "ok i s d" "length name \<le> 63" "make d name s = Some (r, q, s')" "ok i s e" "e \<noteq> d \<or> name' \<noteq> name"
  shows "lookup e name' s' = lookup e name' s"
proof -
  from make_cases [OF assms(1-3)] obtain i' where i': "ok i' s' e" using assms(4) by blast
  from make_cases [OF assms(1-3)] assms(5) have "map_of (entries s' e) name' = map_of (entries s e) name'"
    by (cases "e = d") auto
  with lookup_law [OF i', of name'] lookup_law [OF assms(4), of name'] show ?thesis by simp
qed

text \<open>A name is made once.\<close>

lemma make_twice:
  assumes "ok i s d" "length name \<le> 63" "make d name s = Some (0, q, s')" "make d name s' = Some (r, q', s'')"
  shows "r = - 1"
proof -
  from make_cases [OF assms(1-3)] obtain i' p where "ok i' s' d" "entries s' d = (name, p) # entries s d"
    using assms(1) by auto
  with make_cases [OF this(1) assms(2,4)] show ?thesis by simp
qed

end

end
