(* ===== verification/Ramfs.thy ===== *)
theory Ramfs
  imports Vnode
begin

text \<open>
  The file system in memory, \<^verbatim>\<open>src/fs/ramfs.c\<close>. A node is a \<open>ramfs_node\<close> at the
  address malloc answered; the children of a directory are linked through \<open>rn_next\<close>; the
  contents of a file are the \<open>vn_size\<close> bytes at \<open>rn_data\<close>.

  First the code, then files: every operation on a file refines an operation on the list of
  its bytes, and leaves the other files alone. Then directories: the list of children behind
  a directory, and what creating, looking up and listing do to it.
\<close>

section \<open>The code\<close>

record ramfs_node =
  rn_vnode :: vnode
  rn_name :: "u8 list"
  rn_parent :: u64
  rn_children :: u64
  rn_next :: u64
  rn_data :: u64

record ramfs_state = byte_state +
  ramfs_nodes :: "u64 \<rightharpoonup> ramfs_node"

abbreviation SIZEOF_RAMFS_NODE :: u64 where "SIZEOF_RAMFS_NODE \<equiv> 136"

text \<open>The name is cut to the 63 bytes that fit before the terminator.\<close>

definition ramfs_create_node ::
  "u8 list \<Rightarrow> vnode_type \<Rightarrow> 'a ramfs_state_scheme \<Rightarrow> (u64 \<times> 'a ramfs_state_scheme) option" where
  "ramfs_create_node name type s = do {
     (node, s) \<leftarrow> malloc SIZEOF_RAMFS_NODE s;
     Some (if node = NULL then (NULL, s)
       else (node, s\<lparr>ramfs_nodes := (ramfs_nodes s)(node \<mapsto>
         \<lparr>rn_vnode = \<lparr>vn_ops = Some RAMFS_OPS, vn_type = type, vn_size = 0, vn_mount = NULL, vn_private = NULL\<rparr>,
          rn_name = take 63 name, rn_parent = NULL, rn_children = NULL, rn_next = NULL, rn_data = NULL\<rparr>)\<rparr>)) }"

definition ramfs_readdir ::
  "u64 \<Rightarrow> u64 \<Rightarrow> 'a ramfs_state_scheme \<Rightarrow> (int \<times> vfs_dirent option) option" where
  "ramfs_readdir node index s =
     (if node = NULL then Some (- 1, None)
      else do {
        dir \<leftarrow> ramfs_nodes s node;
        if vn_type (rn_vnode dir) \<noteq> VNODE_TYPE_DIR then Some (- 1, None)
        else if index = 0 then
          Some (0, Some \<lparr>de_ino = node, de_off = 1, de_type = 4, de_name = [0x2E]\<rparr>)
        else if index = 1 then
          Some (0, Some \<lparr>de_ino = (if rn_parent dir \<noteq> NULL then rn_parent dir else node),
                         de_off = 2, de_type = 4, de_name = [0x2E, 0x2E]\<rparr>)
        else do {
          child \<leftarrow> list_skip rn_next (ramfs_nodes s) (rn_children dir) (unat (index - 2));
          if child = NULL then Some (- 1, None)
          else do {
            c \<leftarrow> ramfs_nodes s child;
            Some (0, Some \<lparr>de_ino = child, de_off = index + 1,
                           de_type = (if vn_type (rn_vnode c) = VNODE_TYPE_DIR then 4 else 8),
                           de_name = rn_name c\<rparr>) } } })"

definition ramfs_find_child :: "u64 \<Rightarrow> u8 list \<Rightarrow> 'a ramfs_state_scheme \<Rightarrow> u64 option" where
  "ramfs_find_child parent name s =
     (if parent = NULL then Some NULL
      else do {
        p \<leftarrow> ramfs_nodes s parent;
        list_find rn_next (\<lambda>_ n. rn_name n = name) (ramfs_nodes s) (rn_children p) })"

definition ramfs_add_child :: "u64 \<Rightarrow> u64 \<Rightarrow> 'a ramfs_state_scheme \<Rightarrow> 'a ramfs_state_scheme option" where
  "ramfs_add_child parent child s =
     (if parent = NULL \<or> child = NULL then Some s
      else do {
        p \<leftarrow> ramfs_nodes s parent;
        c \<leftarrow> ramfs_nodes s child;
        let m = (ramfs_nodes s)(child \<mapsto> c\<lparr>rn_next := rn_children p\<rparr>);
        p \<leftarrow> m parent;
        let m = m(parent \<mapsto> p\<lparr>rn_children := child\<rparr>);
        c \<leftarrow> m child;
        Some (s\<lparr>ramfs_nodes := m(child \<mapsto> c\<lparr>rn_parent := parent\<rparr>)\<rparr>) })"

definition ramfs_lookup :: "u64 \<Rightarrow> u8 list \<Rightarrow> 'a ramfs_state_scheme \<Rightarrow> (int \<times> u64 option) option" where
  "ramfs_lookup parent name s =
     (if parent = NULL then Some (- 1, None)
      else do {
        p \<leftarrow> ramfs_nodes s parent;
        if vn_type (rn_vnode p) \<noteq> VNODE_TYPE_DIR then Some (- 1, None)
        else do {
          found \<leftarrow> ramfs_find_child parent name s;
          Some (if found = NULL then (- 1, None) else (0, Some found)) } })"

definition ramfs_new_child ::
  "vnode_type \<Rightarrow> u64 \<Rightarrow> u8 list \<Rightarrow> 'a ramfs_state_scheme \<Rightarrow> (int \<times> u64 option \<times> 'a ramfs_state_scheme) option" where
  "ramfs_new_child type parent name s =
     (if parent = NULL then Some (- 1, None, s)
      else do {
        p \<leftarrow> ramfs_nodes s parent;
        if vn_type (rn_vnode p) \<noteq> VNODE_TYPE_DIR then Some (- 1, None, s)
        else do {
          found \<leftarrow> ramfs_find_child parent name s;
          if found \<noteq> NULL then Some (- 1, None, s)
          else do {
            (node, s) \<leftarrow> ramfs_create_node name type s;
            if node = NULL then Some (- 1, None, s)
            else do {
              s \<leftarrow> ramfs_add_child parent node s;
              Some (0, Some node, s) } } } })"

definition ramfs_mkdir ::
  "u64 \<Rightarrow> u8 list \<Rightarrow> 'a ramfs_state_scheme \<Rightarrow> (int \<times> u64 option \<times> 'a ramfs_state_scheme) option" where
  "ramfs_mkdir = ramfs_new_child VNODE_TYPE_DIR"

definition ramfs_create ::
  "u64 \<Rightarrow> u8 list \<Rightarrow> 'a ramfs_state_scheme \<Rightarrow> (int \<times> u64 option \<times> 'a ramfs_state_scheme) option" where
  "ramfs_create = ramfs_new_child VNODE_TYPE_FILE"

text \<open>The sum of offset and size wraps around, as it does in the code.\<close>

definition ramfs_read ::
  "u64 \<Rightarrow> u64 \<Rightarrow> u64 \<Rightarrow> u64 \<Rightarrow> 'a ramfs_state_scheme \<Rightarrow> (int \<times> u64 option \<times> 'a ramfs_state_scheme) option" where
  "ramfs_read node buffer sz offset s =
     (if node = NULL \<or> buffer = NULL then Some (- 1, None, s)
      else do {
        n \<leftarrow> ramfs_nodes s node;
        if vn_type (rn_vnode n) \<noteq> VNODE_TYPE_FILE then Some (- 1, None, s)
        else if rn_data n = NULL \<or> vn_size (rn_vnode n) \<le> offset then Some (0, Some 0, s)
        else do {
          let to_read = (if vn_size (rn_vnode n) < offset + sz then vn_size (rn_vnode n) - offset else sz);
          Some (0, Some to_read, s\<lparr>kbytes := memcpy buffer (rn_data n + offset) to_read (kbytes s)\<rparr>) } })"

definition ramfs_grow ::
  "u64 \<Rightarrow> u64 \<Rightarrow> 'a ramfs_state_scheme \<Rightarrow> (bool \<times> 'a ramfs_state_scheme) option" where
  "ramfs_grow node needed s = do {
     n \<leftarrow> ramfs_nodes s node;
     if needed \<le> vn_size (rn_vnode n) then Some (True, s)
     else do {
       (new_data, s) \<leftarrow> malloc needed s;
       if new_data = NULL then Some (False, s)
       else do {
         let s = s\<lparr>kbytes := memset new_data 0 needed (kbytes s)\<rparr>;
         s \<leftarrow> (if rn_data n \<noteq> NULL
               then free (rn_data n)
                 (s\<lparr>kbytes := memcpy new_data (rn_data n) (vn_size (rn_vnode n)) (kbytes s)\<rparr>)
               else Some s);
         Some (True, s\<lparr>ramfs_nodes := (ramfs_nodes s)(node \<mapsto>
           n\<lparr>rn_data := new_data, rn_vnode := (rn_vnode n)\<lparr>vn_size := needed\<rparr>\<rparr>)\<rparr>) } } }"

definition ramfs_write ::
  "u64 \<Rightarrow> u64 \<Rightarrow> u64 \<Rightarrow> u64 \<Rightarrow> 'a ramfs_state_scheme \<Rightarrow> (int \<times> u64 option \<times> 'a ramfs_state_scheme) option" where
  "ramfs_write node buffer sz offset s =
     (if node = NULL \<or> buffer = NULL then Some (- 1, None, s)
      else do {
        n \<leftarrow> ramfs_nodes s node;
        if vn_type (rn_vnode n) \<noteq> VNODE_TYPE_FILE then Some (- 1, None, s)
        else do {
          (ok, s) \<leftarrow> ramfs_grow node (offset + sz) s;
          if \<not> ok then Some (- 1, None, s)
          else do {
            n \<leftarrow> ramfs_nodes s node;
            Some (0, Some sz, s\<lparr>kbytes := memcpy (rn_data n + offset) buffer sz (kbytes s)\<rparr>) } } })"

text \<open>Mounting makes a root directory that knows its mount and has no name.\<close>

definition ramfs_mount_root :: "u64 \<Rightarrow> 'a ramfs_state_scheme \<Rightarrow> (u64 \<times> 'a ramfs_state_scheme) option" where
  "ramfs_mount_root mount s = do {
     (root, s) \<leftarrow> malloc SIZEOF_RAMFS_NODE s;
     Some (if root = NULL then (NULL, s)
       else (root, s\<lparr>ramfs_nodes := (ramfs_nodes s)(root \<mapsto>
         \<lparr>rn_vnode = \<lparr>vn_ops = Some RAMFS_OPS, vn_type = VNODE_TYPE_DIR, vn_size = 0, vn_mount = mount, vn_private = root\<rparr>,
          rn_name = [], rn_parent = NULL, rn_children = NULL, rn_next = NULL, rn_data = NULL\<rparr>)\<rparr>)) }"

section \<open>Files\<close>

text \<open>
  \<open>ramfs_ok s lo hi L\<close>: the heap is well formed with the ranges \<open>L\<close> in use, every node lies in
  a range in use, and the contents of every file lie in a range of their own that is long enough.
\<close>

definition ramfs_node_ok :: "(u64 \<rightharpoonup> ramfs_node) \<Rightarrow> (nat \<times> nat) set \<Rightarrow> u64 \<Rightarrow> ramfs_node \<Rightarrow> bool" where
  "ramfs_node_ok m L p n \<longleftrightarrow> p \<noteq> NULL \<and> (\<exists>k. (unat p, k) \<in> L) \<and>
     (if rn_data n = NULL then vn_size (rn_vnode n) = 0
      else (\<exists>k \<ge> unat (vn_size (rn_vnode n)). (unat (rn_data n), k) \<in> L) \<and>
           m (rn_data n) = None \<and> (\<forall>q n'. q \<noteq> p \<longrightarrow> m q = Some n' \<longrightarrow> rn_data n' \<noteq> rn_data n))"

definition ramfs_ok :: "'a ramfs_state_scheme \<Rightarrow> nat \<Rightarrow> nat \<Rightarrow> (nat \<times> nat) set \<Rightarrow> bool" where
  "ramfs_ok s lo hi L \<longleftrightarrow> heap_at s lo hi L \<and>
     (\<forall>p n. ramfs_nodes s p = Some n \<longrightarrow> ramfs_node_ok (ramfs_nodes s) L p n)"

text \<open>The bytes of a file.\<close>

definition file_data :: "'a ramfs_state_scheme \<Rightarrow> u64 \<Rightarrow> u8 list" where
  "file_data s p = (case ramfs_nodes s p of None \<Rightarrow> []
     | Some n \<Rightarrow> load_bytes (kbytes s) (rn_data n) (unat (vn_size (rn_vnode n))))"

lemma heap_at_ramfs_nodes [simp]: "heap_at (s\<lparr>ramfs_nodes := m\<rparr>) lo hi L = heap_at s lo hi L"
  by (simp add: heap_at_def heap_rel_def)

lemma same_but_blocks_ramfs: "same_but_blocks s s' \<Longrightarrow> ramfs_nodes s' = ramfs_nodes s"
  unfolding same_but_blocks_def by (erule ssubst) simp

lemma ramfs_okD:
  "ramfs_ok s lo hi L \<Longrightarrow> heap_at s lo hi L"
  "ramfs_ok s lo hi L \<Longrightarrow> ramfs_nodes s p = Some n \<Longrightarrow> ramfs_node_ok (ramfs_nodes s) L p n"
  by (simp_all add: ramfs_ok_def)

lemma ramfs_ok_kbytes [simp]: "ramfs_ok (s\<lparr>kbytes := m\<rparr>) lo hi L = ramfs_ok s lo hi L"
  by (simp add: ramfs_ok_def)

lemma ramfs_ok_heap:
  "ramfs_ok s lo hi L \<Longrightarrow> same_but_blocks s s' \<Longrightarrow> heap_at s' lo hi L \<Longrightarrow> ramfs_ok s' lo hi L"
  by (simp add: ramfs_ok_def same_but_blocks_ramfs)

text \<open>The storage of a file is apart from that of every other one.\<close>

lemma file_data_memcpy_other:
  assumes ok: "ramfs_ok s lo hi L" and n: "ramfs_nodes s p = Some n" "rn_data n \<noteq> NULL"
    and o: "off + unat sz \<le> unat (vn_size (rn_vnode n))" and q: "q \<noteq> p"
    and src: "disjoint_ranges (rn_data n + of_nat off) (unat sz) src (unat sz)"
  shows "file_data (s\<lparr>kbytes := memcpy (rn_data n + of_nat off) src sz (kbytes s)\<rparr>) q = file_data s q"
proof (cases "ramfs_nodes s q")
  case (Some n')
  show ?thesis
  proof (cases "rn_data n' = NULL")
    case True
    with ramfs_okD(2) [OF ok Some] Some show ?thesis
      by (simp add: file_data_def ramfs_node_ok_def load_bytes_def)
  next
    case False
    from ramfs_okD(2) [OF ok n(1)] n(2) obtain k where k: "unat (vn_size (rn_vnode n)) \<le> k" "(unat (rn_data n), k) \<in> L"
      by (auto simp: ramfs_node_ok_def)
    from ramfs_okD(2) [OF ok Some] False obtain k' where
      k': "unat (vn_size (rn_vnode n')) \<le> k'" "(unat (rn_data n'), k') \<in> L"
      by (auto simp: ramfs_node_ok_def)
    have "rn_data n' \<noteq> rn_data n"
      using ramfs_okD(2) [OF ok n(1)] n(2) Some q by (auto simp: ramfs_node_ok_def)
    then have "unat (rn_data n') \<noteq> unat (rn_data n)" by (simp add: u64_eq_iff)
    moreover from heap_at_range [OF ramfs_okD(1) [OF ok] k'(2)] have
      "rn_data n' \<noteq> NULL" "unat (rn_data n') + unat (vn_size (rn_vnode n')) \<le> 2 ^ 64"
      using k'(1) False by auto
    ultimately have "buffer_ok lo hi L (rn_data n) (rn_data n') (unat (vn_size (rn_vnode n')))"
      using k' unfolding buffer_ok_def by fastforce
    from buffer_ok_disjoint(1) [OF ramfs_okD(1) [OF ok] k(2) _ this, of off "unat sz"] o k(1)
    have "disjoint_ranges (rn_data n + of_nat off) (unat sz) (rn_data n') (unat (vn_size (rn_vnode n')))" by simp
    with Some show ?thesis
      by (simp add: file_data_def memcpy_copied [OF disjoint_apart [OF src]] load_bytes_copied_other)
  qed
qed (simp add: file_data_def)

text \<open>The buffer a file grows into: the old bytes, then zeros; nothing else changes.\<close>

definition grown_bytes :: "u64 \<Rightarrow> u64 \<Rightarrow> u64 \<Rightarrow> u64 \<Rightarrow> bytes_mem \<Rightarrow> bytes_mem" where
  "grown_bytes new needed old sz m =
     (let m = memset new 0 needed m in if old \<noteq> NULL then memcpy new old sz m else m)"

lemma grown_bytes_other:
  assumes "disjoint_ranges new (unat needed) a k" "sz \<le> needed"
    and "old \<noteq> NULL \<Longrightarrow> disjoint_ranges new (unat sz) old (unat sz)"
  shows "load_bytes (grown_bytes new needed old sz m) a k = load_bytes m a k"
proof -
  have "disjoint_ranges new (unat sz) a k"
    using assms(1,2) by (auto simp: disjoint_ranges_def word_le_nat_alt)
  with assms(1,3) show ?thesis
    by (simp add: grown_bytes_def Let_def memset_filled load_bytes_filled_other load_bytes_copied_other
        memcpy_copied disjoint_apart)
qed

lemma grown_bytes_same:
  assumes "sz \<le> needed" "unat new + unat needed \<le> 2 ^ 64"
    and "old \<noteq> NULL \<Longrightarrow> disjoint_ranges new (unat needed) old (unat sz)" "old = NULL \<Longrightarrow> sz = 0"
  shows "load_bytes (grown_bytes new needed old sz m) new (unat needed) =
           load_bytes m old (unat sz) @ replicate (unat needed - unat sz) 0"
proof (cases "old = NULL")
  case True
  with assms show ?thesis
    by (simp add: grown_bytes_def memset_filled load_bytes_filled_same [OF less_imp_le [OF unat_u64_less]] load_bytes_def [of _ _ 0])
next
  case False
  let ?m = "memset new 0 needed m"
  have le: "unat sz \<le> unat needed" using assms(1) by (simp add: word_le_nat_alt)
  with assms(3) [OF False] have d: "disjoint_ranges new (unat sz) old (unat sz)"
    by (auto simp: disjoint_ranges_def)
  have o: "unat (new + of_nat (unat sz)) = unat new + unat sz \<or> unat needed = unat sz"
    using assms(2) le unat_offset [OF assms(2), of "unat sz"] by (cases "unat needed = unat sz") auto
  have "load_bytes (memcpy new old sz ?m) new (unat needed) =
      load_bytes (memcpy new old sz ?m) new (unat sz) @
      load_bytes (memcpy new old sz ?m) (new + of_nat (unat sz)) (unat needed - unat sz)"
    using load_bytes_append [of _ new "unat sz" "unat needed - unat sz"] le by simp
  also have "load_bytes (memcpy new old sz ?m) new (unat sz) = load_bytes m old (unat sz)"
    using memcpy_load_bytes [OF d] assms(3) [OF False] by (simp add: memset_filled load_bytes_filled_other)
  also have "load_bytes (memcpy new old sz ?m) (new + of_nat (unat sz)) (unat needed - unat sz) =
      load_bytes ?m (new + of_nat (unat sz)) (unat needed - unat sz)"
  proof (cases "unat needed = unat sz")
    case False
    with o assms(2) le have "disjoint_ranges new (unat sz) (new + of_nat (unat sz)) (unat needed - unat sz)"
      by (auto simp: disjoint_ranges_def)
    then show ?thesis by (simp add: memcpy_copied disjoint_apart [OF d] load_bytes_copied_other)
  qed (simp add: load_bytes_def)
  also have "\<dots> = drop (unat sz) (load_bytes ?m new (unat needed))"
    by (rule load_bytes_drop [symmetric])
  also have "\<dots> = replicate (unat needed - unat sz) 0"
    by (simp add: memset_filled load_bytes_filled_same [OF less_imp_le [OF unat_u64_less]])
  finally show ?thesis using False by (simp add: grown_bytes_def)
qed


lemma ramfs_grow_unfold:
  assumes "ramfs_nodes s p = Some n" "\<not> needed \<le> vn_size (rn_vnode n)"
    and "malloc needed s = Some (new, s1)" "new \<noteq> NULL" "kbytes s1 = kbytes s" "ramfs_nodes s1 = ramfs_nodes s"
  shows "ramfs_grow p needed s =
    (let s2 = s1\<lparr>kbytes := grown_bytes new needed (rn_data n) (vn_size (rn_vnode n)) (kbytes s)\<rparr> in
     case if rn_data n \<noteq> NULL then free (rn_data n) s2 else Some s2 of None \<Rightarrow> None
     | Some s3 \<Rightarrow> Some (True, s3\<lparr>ramfs_nodes := (ramfs_nodes s3)(p \<mapsto>
         n\<lparr>rn_data := new, rn_vnode := (rn_vnode n)\<lparr>vn_size := needed\<rparr>\<rparr>)\<rparr>))"
  using assms by (simp add: ramfs_grow_def grown_bytes_def Let_def Option.bind_def split: option.split)

text \<open>What growing a file guarantees to the write that follows.\<close>

definition grow_result ::
  "'a ramfs_state_scheme \<Rightarrow> nat \<Rightarrow> nat \<Rightarrow> (nat \<times> nat) set \<Rightarrow> u64 \<Rightarrow> ramfs_node \<Rightarrow> u64 \<Rightarrow> bool \<Rightarrow> 'a ramfs_state_scheme \<Rightarrow> (nat \<times> nat) set \<Rightarrow> bool" where
  "grow_result s lo hi L p n needed ok s' L' \<longleftrightarrow>
     ramfs_ok s' lo hi L' \<and>
     (\<forall>q. q \<noteq> p \<longrightarrow> ramfs_nodes s' q = ramfs_nodes s q \<and> file_data s' q = file_data s q) \<and>
     (\<exists>d v. ramfs_nodes s' p = Some (n\<lparr>rn_data := d, rn_vnode := (rn_vnode n)\<lparr>vn_size := v\<rparr>\<rparr>) \<and>
       (ok \<longrightarrow> needed \<le> v \<and> (needed \<noteq> 0 \<longrightarrow> d \<noteq> NULL)) \<and>
       (\<forall>x k. (x, k) \<in> L \<longrightarrow> x \<noteq> unat (rn_data n) \<longrightarrow> (x, k) \<in> L' \<and> x \<noteq> unat d)) \<and>
     (\<forall>a k. buffer_ok lo hi L (rn_data n) a k \<longrightarrow> load_bytes (kbytes s') a k = load_bytes (kbytes s) a k) \<and>
     file_data s' p = file_data s p @ (if ok then replicate (unat needed - unat (vn_size (rn_vnode n))) 0 else [])"

lemma ramfs_node_ok_data:
  assumes "ramfs_node_ok m L p n" "rn_data n \<noteq> NULL"
  obtains k where "unat (vn_size (rn_vnode n)) \<le> k" "(unat (rn_data n), k) \<in> L"
    "m (rn_data n) = None" "\<And>q n'. q \<noteq> p \<Longrightarrow> m q = Some n' \<Longrightarrow> rn_data n' \<noteq> rn_data n"
  using assms by (auto simp: ramfs_node_ok_def)

lemma file_data_NULL:
  "ramfs_ok s lo hi L \<Longrightarrow> ramfs_nodes s q = Some n \<Longrightarrow> rn_data n = NULL \<Longrightarrow> file_data s q = []"
  using ramfs_okD(2) [of s lo hi L q n] by (simp add: file_data_def ramfs_node_ok_def load_bytes_def)

text \<open>Handing out a new range and giving back the old contents keeps the files apart.\<close>

lemma ramfs_node_ok_grow:
  assumes "ramfs_ok s lo hi L" "ramfs_nodes s p = Some n" "unat new \<notin> fst ` L" "new \<noteq> NULL"
    "unat needed \<le> k" "ramfs_nodes s q = Some nq"
    and L': "L' = insert (unat new, k) L - {x. rn_data n \<noteq> NULL \<and> fst x = unat (rn_data n)}"
    and m': "m' = (ramfs_nodes s)(p \<mapsto> n\<lparr>rn_data := new, rn_vnode := (rn_vnode n)\<lparr>vn_size := needed\<rparr>\<rparr>)"
  shows "\<forall>nq'. m' q = Some nq' \<longrightarrow> ramfs_node_ok m' L' q nq'"
proof (intro allI impI)
  fix nq' assume nq': "m' q = Some nq'"
  have nd: "x \<noteq> rn_data n" if "ramfs_nodes s x = Some nx" "rn_data n \<noteq> NULL" for x nx
    using ramfs_okD(2) [OF assms(1,2)] that by (auto simp: ramfs_node_ok_def)
  have inL: "\<exists>j. (unat x, j) \<in> L" if "ramfs_nodes s x = Some nx" for x nx
    using ramfs_okD(2) [OF assms(1) that] by (auto simp: ramfs_node_ok_def)
  have new: "ramfs_nodes s new = None"
  proof (rule ccontr)
    assume "ramfs_nodes s new \<noteq> None"
    then obtain nx where "ramfs_nodes s new = Some nx" by blast
    with inL assms(3) show False by force
  qed
  have dat: "rn_data nx \<noteq> new" if "ramfs_nodes s x = Some nx" for x nx
  proof
    assume e: "rn_data nx = new"
    with assms(4) have "rn_data nx \<noteq> NULL" by simp
    with ramfs_okD(2) [OF assms(1) that] obtain j where "(unat (rn_data nx), j) \<in> L"
      by (auto simp: ramfs_node_ok_def)
    with e assms(3) show False by force
  qed
  have node: "q \<noteq> NULL \<and> (\<exists>j. (unat q, j) \<in> L')"
    using ramfs_okD(2) [OF assms(1,6)] inL [OF assms(6)] nd [OF assms(6)] L'
    by (auto simp: ramfs_node_ok_def u64_eq_iff)
  show "ramfs_node_ok m' L' q nq'"
  proof (cases "q = p")
    case True
    with nq' m' have nq: "nq' = n\<lparr>rn_data := new, rn_vnode := (rn_vnode n)\<lparr>vn_size := needed\<rparr>\<rparr>" by simp
    have "rn_data n \<noteq> new" by (rule dat [OF assms(2)])
    then have "(unat new, k) \<in> L'" using L' by (auto simp: u64_eq_iff)
    moreover have "new \<noteq> p" using new assms(2) by auto
    ultimately show ?thesis
      using True nq node new assms(4,5) dat m' by (auto simp: ramfs_node_ok_def)
  next
    case False
    with nq' m' assms(6) have [simp]: "nq' = nq" by simp
    show ?thesis
    proof (cases "rn_data nq = NULL")
      case True
      with ramfs_okD(2) [OF assms(1,6)] node show ?thesis by (auto simp: ramfs_node_ok_def)
    next
      case F: False
      from ramfs_node_ok_data [OF ramfs_okD(2) [OF assms(1,6)] F] obtain j where
        j: "unat (vn_size (rn_vnode nq)) \<le> j" "(unat (rn_data nq), j) \<in> L" "ramfs_nodes s (rn_data nq) = None"
        "\<And>x nx. x \<noteq> q \<Longrightarrow> ramfs_nodes s x = Some nx \<Longrightarrow> rn_data nx \<noteq> rn_data nq" by metis
      have "rn_data n \<noteq> rn_data nq" using j(4) assms(2) False by metis
      then have "(unat (rn_data nq), j) \<in> L'" using j(2) L' by (auto simp: u64_eq_iff)
      with j F node dat [OF assms(6)] assms(2) m' show ?thesis
        by (auto simp: ramfs_node_ok_def)
    qed
  qed
qed


lemma in_use_fst_unique: "heap_at s lo hi L \<Longrightarrow> (x, k) \<in> L \<Longrightarrow> (x, j) \<in> L \<Longrightarrow> j = k"
  using heap_inv_apart [OF heap_inv_at] by fastforce

lemma remove_start:
  assumes "heap_at s lo hi L" "(a, j) \<in> L"
  shows "L - {(a, j)} = L - {x. fst x = a}"
proof (rule set_eqI)
  fix x :: "nat \<times> nat"
  obtain b i where x: "x = (b, i)" by (cases x)
  show "x \<in> L - {(a, j)} \<longleftrightarrow> x \<in> L - {x. fst x = a}"
  proof (cases "b = a \<and> x \<in> L")
    case True
    with x in_use_fst_unique [OF assms] show ?thesis by simp
  qed (use x in auto)
qed

lemma file_data_kept:
  assumes "load_bytes (kbytes s') (rn_data n) (unat (vn_size (rn_vnode n))) =
             load_bytes (kbytes s) (rn_data n) (unat (vn_size (rn_vnode n)))"
    and "ramfs_nodes s q = Some n" "ramfs_nodes s' q = Some n"
  shows "file_data s' q = file_data s q"
  using assms by (simp add: file_data_def)

lemma grow_resultI:
  assumes "ramfs_ok s' lo hi L'"
    and "\<And>q. q \<noteq> p \<Longrightarrow> ramfs_nodes s' q = ramfs_nodes s q \<and> file_data s' q = file_data s q"
    and "ramfs_nodes s' p = Some (n\<lparr>rn_data := d, rn_vnode := (rn_vnode n)\<lparr>vn_size := v\<rparr>\<rparr>)"
    and "ok \<Longrightarrow> needed \<le> v" "ok \<Longrightarrow> needed \<noteq> 0 \<Longrightarrow> d \<noteq> NULL"
    and "\<And>x k. (x, k) \<in> L \<Longrightarrow> x \<noteq> unat (rn_data n) \<Longrightarrow> (x, k) \<in> L' \<and> x \<noteq> unat d"
    and "\<And>a k. buffer_ok lo hi L (rn_data n) a k \<Longrightarrow> load_bytes (kbytes s') a k = load_bytes (kbytes s) a k"
    and "file_data s' p = file_data s p @ (if ok then replicate (unat needed - unat (vn_size (rn_vnode n))) 0 else [])"
  shows "grow_result s lo hi L p n needed ok s' L'"
  unfolding grow_result_def using assms by blast

lemma grow_result_same:
  assumes "ramfs_ok s' lo hi L" "ramfs_nodes s' = ramfs_nodes s" "kbytes s' = kbytes s"
    and "ramfs_nodes s p = Some n" "ok \<longrightarrow> needed \<le> vn_size (rn_vnode n)"
  shows "grow_result s lo hi L p n needed ok s' L"
proof (rule grow_resultI)
  show "ramfs_nodes s' p = Some (n\<lparr>rn_data := rn_data n, rn_vnode := (rn_vnode n)\<lparr>vn_size := vn_size (rn_vnode n)\<rparr>\<rparr>)"
    using assms(2,4) by simp
  show "rn_data n \<noteq> NULL" if "ok" "needed \<noteq> 0"
    using ramfs_okD(2) [OF assms(1), of p n] assms(2,4,5) that by (auto simp: ramfs_node_ok_def)
  show "file_data s' p = file_data s p @
      (if ok then replicate (unat needed - unat (vn_size (rn_vnode n))) 0 else [])"
    using assms(2-5) by (simp add: file_data_def word_le_nat_alt)
qed (use assms in \<open>simp_all add: file_data_def split: option.splits\<close>)

lemma ramfs_grow_refines:
  assumes ok: "ramfs_ok s lo hi L" and n: "ramfs_nodes s p = Some n" and sz: "unat needed + 7 < 2 ^ 64"
  shows "\<exists>b s' L'. ramfs_grow p needed s = Some (b, s') \<and> grow_result s lo hi L p n needed b s' L'"
proof (cases "needed \<le> vn_size (rn_vnode n)")
  case True
  have "ramfs_grow p needed s = Some (True, s)" using True n by (simp add: ramfs_grow_def)
  moreover have "grow_result s lo hi L p n needed True s L"
    by (rule grow_result_same) (use ok n True in simp_all)
  ultimately show ?thesis by blast
next
  case False
  note h = ramfs_okD(1) [OF ok]
  let ?n = "rn_vnode n" and ?old = "rn_data n"
  from malloc_at [OF h sz] obtain new s1 where s1: "malloc needed s = Some (new, s1)"
    "same_but_blocks s s1" and g: "if new = NULL then heap_at s1 lo hi L
       else \<exists>k \<ge> unat needed. heap_at s1 lo hi (insert (unat new, k) L) \<and> unat new \<notin> fst ` L" by blast
  note same = same_but_blocks_kbytes [OF s1(2)] same_but_blocks_ramfs [OF s1(2)]
  show ?thesis
  proof (cases "new = NULL")
    case True
    have "ramfs_grow p needed s = Some (False, s1)" using True False n s1(1) by (simp add: ramfs_grow_def)
    moreover have "grow_result s lo hi L p n needed False s1 L"
      by (rule grow_result_same) (use ramfs_ok_heap [OF ok s1(2)] g True n same in simp_all)
    ultimately show ?thesis by blast
  next
    case new: False
    with g obtain k where k: "unat needed \<le> k" "heap_at s1 lo hi (insert (unat new, k) L)"
      "unat new \<notin> fst ` L" by auto
    let ?B = "grown_bytes new needed ?old (vn_size ?n) (kbytes s)"
    let ?s2 = "s1\<lparr>kbytes := ?B\<rparr>"
    let ?L' = "insert (unat new, k) L - {x. ?old \<noteq> NULL \<and> fst x = unat ?old}"
    let ?n' = "n\<lparr>rn_data := new, rn_vnode := ?n\<lparr>vn_size := needed\<rparr>\<rparr>"
    have h2: "heap_at ?s2 lo hi (insert (unat new, k) L)" using k(2) by simp
    have apart: "disjoint_ranges new (unat needed) a j"
      if "(unat a, i) \<in> L" "j \<le> i" for a i j
      using in_use_disjoint [OF k(2), of new k a i "unat needed" j] that k(1,3) by force
    have buf: "disjoint_ranges new (unat needed) a j" if b: "buffer_ok lo hi L ?old a j" for a j
    proof -
      have "buffer_ok lo hi (insert (unat new, k) L) new a j"
        using b k(3) unfolding buffer_ok_def by force
      from buffer_ok_disjoint(1) [OF k(2) _ _ this, of k 0 "unat needed"] k(1) show ?thesis by simp
    qed
    have sz_le: "vn_size ?n \<le> needed" using False by simp
    have old: "?old \<noteq> NULL \<Longrightarrow> disjoint_ranges new (unat needed) ?old (unat (vn_size ?n))"
      using ramfs_okD(2) [OF ok n] apart by (auto simp: ramfs_node_ok_def)
    then have old': "?old \<noteq> NULL \<Longrightarrow> disjoint_ranges new (unat (vn_size ?n)) ?old (unat (vn_size ?n))"
      using sz_le by (auto simp: disjoint_ranges_def word_le_nat_alt)
    have "\<exists>s3. (if ?old \<noteq> NULL then free ?old ?s2 else Some ?s2) = Some s3 \<and> same_but_blocks ?s2 s3 \<and>
        heap_at s3 lo hi ?L'"
    proof (cases "?old = NULL")
      case True
      with h2 show ?thesis by (auto simp: same_but_blocks_def)
    next
      case F: False
      from ramfs_okD(2) [OF ok n] F obtain j where j: "(unat ?old, j) \<in> L" by (auto simp: ramfs_node_ok_def)
      have "insert (unat new, k) L - {(unat ?old, j)} = ?L'"
        using remove_start [OF k(2), of "unat ?old" j] j F by simp
      with free_at [OF h2, of ?old j] j F show ?thesis by auto
    qed
    then obtain s3 where s3: "(if ?old \<noteq> NULL then free ?old ?s2 else Some ?s2) = Some s3"
      "same_but_blocks ?s2 s3" "heap_at s3 lo hi ?L'" by blast
    let ?s4 = "s3\<lparr>ramfs_nodes := (ramfs_nodes s3)(p \<mapsto> ?n')\<rparr>"
    have run: "ramfs_grow p needed s = Some (True, ?s4)"
      using ramfs_grow_unfold [OF n False s1(1) new same] s3(1) by (simp add: Let_def)
    have nodes: "ramfs_nodes s3 = ramfs_nodes s" and byt: "kbytes s3 = ?B"
      using same_but_blocks_ramfs [OF s3(2)] same_but_blocks_kbytes [OF s3(2)] same by simp_all
    have ok4: "ramfs_ok ?s4 lo hi ?L'"
      unfolding ramfs_ok_def
    proof (intro conjI allI impI)
      fix q nq assume q: "ramfs_nodes ?s4 q = Some nq"
      then obtain nq0 where "ramfs_nodes s q = Some nq0" using n nodes by (auto split: if_splits)
      from ramfs_node_ok_grow [OF ok n k(3) new k(1) this refl refl] q nodes
      show "ramfs_node_ok (ramfs_nodes ?s4) ?L' q nq" by simp
    qed (use s3(3) in simp)
    have keep: "load_bytes ?B a j = load_bytes (kbytes s) a j"
      if "disjoint_ranges new (unat needed) a j" for a j
      by (rule grown_bytes_other [OF that sz_le old'])
    have others: "ramfs_nodes ?s4 q = ramfs_nodes s q \<and> file_data ?s4 q = file_data s q" if "q \<noteq> p" for q
    proof (cases "ramfs_nodes s q")
      case (Some nq)
      have "load_bytes ?B (rn_data nq) (unat (vn_size (rn_vnode nq))) =
          load_bytes (kbytes s) (rn_data nq) (unat (vn_size (rn_vnode nq)))"
      proof (cases "rn_data nq = NULL")
        case True
        with ramfs_okD(2) [OF ok Some] show ?thesis by (simp add: ramfs_node_ok_def load_bytes_def)
      next
        case F: False
        with ramfs_okD(2) [OF ok Some] obtain j where
          "unat (vn_size (rn_vnode nq)) \<le> j" "(unat (rn_data nq), j) \<in> L" by (auto simp: ramfs_node_ok_def)
        from keep [OF apart [OF this(2,1)]] show ?thesis .
      qed
      with Some \<open>q \<noteq> p\<close> nodes byt show ?thesis by (simp add: file_data_def)
    qed (use that nodes in \<open>simp add: file_data_def\<close>)
    have "?old = NULL \<Longrightarrow> vn_size ?n = 0"
      using ramfs_okD(2) [OF ok n] by (simp add: ramfs_node_ok_def)
    moreover have "unat new + unat needed \<le> 2 ^ 64"
      using heap_at_range [OF k(2), of "unat new" k] k(1) by simp
    ultimately have this_file: "file_data ?s4 p = file_data s p @ replicate (unat needed - unat (vn_size ?n)) 0"
      using grown_bytes_same [OF sz_le _ old] n byt by (simp add: file_data_def)
    have bufs: "load_bytes (kbytes ?s4) a j = load_bytes (kbytes s) a j"
      if b: "buffer_ok lo hi L ?old a j" for a j
      using keep [OF buf [OF b]] byt by simp
    have kept: "(x, i) \<in> ?L' \<and> x \<noteq> unat new" if "(x, i) \<in> L" "x \<noteq> unat ?old" for x i
      using that k(3) by force
    have "grow_result s lo hi L p n needed True ?s4 ?L'"
    proof (rule grow_resultI)
      show "ramfs_ok ?s4 lo hi ?L'" by (rule ok4)
      show "ramfs_nodes ?s4 p = Some ?n'" by simp
      show "file_data ?s4 p = file_data s p @ (if True then replicate (unat needed - unat (vn_size ?n)) 0 else [])"
        unfolding if_True by (rule this_file)
    qed (use others bufs kept new in blast)+
    with run show ?thesis by blast
  qed
qed


lemma length_file_data: "ramfs_nodes s p = Some n \<Longrightarrow> length (file_data s p) = unat (vn_size (rn_vnode n))"
  by (simp add: file_data_def)

text \<open>Overwriting a part of the storage of a file.\<close>

lemma memcpy_0: "memcpy d src 0 m = m"
  using memcpy_copied [of d src 0 m] by (simp add: apart_def copied_def)

lemma load_bytes_overwrite:
  assumes "off + unat sz \<le> n" "unat d + n \<le> 2 ^ 64"
    and "disjoint_ranges (d + of_nat off) (unat sz) src (unat sz)"
  shows "load_bytes (memcpy (d + of_nat off) src sz m) d n =
    take off (load_bytes m d n) @ load_bytes m src (unat sz) @ drop (off + unat sz) (load_bytes m d n)"
proof (cases "sz = 0")
  case True
  then show ?thesis by (simp add: memcpy_0 load_bytes_def [of _ _ 0])
next
  case False
  let ?m = "memcpy (d + of_nat off) src sz m" and ?k = "off + unat sz"
  from False have "0 < unat sz" by (simp add: unat_gt_0)
  with assms(1,2) have o: "unat (d + of_nat off) = unat d + off" by (intro unat_offset) auto
  have far: "load_bytes ?m a j = load_bytes m a j"
    if "unat a + j \<le> unat d + off \<or> unat d + ?k \<le> unat a" "unat a + j \<le> 2 ^ 64" for a j
  proof -
    have "disjoint_ranges (d + of_nat off) (unat sz) a j"
      using that assms(1,2) unfolding disjoint_ranges_def o by linarith
    then show ?thesis by (simp add: memcpy_copied [OF disjoint_apart [OF assms(3)]] load_bytes_copied_other)
  qed
  have "load_bytes ?m d n = load_bytes ?m d off @ load_bytes ?m (d + of_nat off) (unat sz) @
      load_bytes ?m (d + of_nat ?k) (n - ?k)"
    using load_bytes_append [of ?m d ?k "n - ?k"] load_bytes_append [of ?m d off "unat sz"] assms(1) by simp
  also have "load_bytes ?m d off = take off (load_bytes m d n)"
    using far [of d off] assms(1,2) by (simp add: load_bytes_take)
  also have "load_bytes ?m (d + of_nat off) (unat sz) = load_bytes m src (unat sz)"
    by (rule memcpy_load_bytes [OF assms(3)])
  also have "load_bytes ?m (d + of_nat ?k) (n - ?k) = load_bytes m (d + of_nat ?k) (n - ?k)"
  proof (cases "?k < n")
    case True
    then have "unat (d + of_nat ?k) = unat d + ?k" using assms(2) by (intro unat_offset) auto
    then show ?thesis using assms(1,2) by (intro far) auto
  qed (simp add: load_bytes_def)
  also have "\<dots> = drop ?k (load_bytes m d n)" by (rule load_bytes_drop [symmetric])
  finally show ?thesis .
qed

text \<open>Writing at an offset is \<open>write_at\<close> on the bytes of the file, growing it where needed.\<close>

lemma write_at_grown:
  assumes "off + length d \<le> length f + k" "k = off + length d - length f"
  shows "take off (f @ replicate k z) @ d @ drop (off + length d) (f @ replicate k z) =
         take off (f @ replicate (off - length f) z) @ d @ drop (off + length d) f"
  using assms by (auto simp: min_def)

lemma ramfs_write_refines:
  assumes ok: "ramfs_ok s lo hi L" and n: "ramfs_nodes s p = Some n" "vn_type (rn_vnode n) = VNODE_TYPE_FILE"
    and sz: "unat offset + unat sz + 7 < 2 ^ 64"
    and buf: "buffer_ok lo hi L (rn_data n) buffer (unat sz)"
  shows "\<exists>r w s' L' d v. ramfs_write p buffer sz offset s = Some (r, w, s') \<and> ramfs_ok s' lo hi L' \<and>
    ramfs_nodes s' = (ramfs_nodes s)(p \<mapsto> n\<lparr>rn_data := d, rn_vnode := (rn_vnode n)\<lparr>vn_size := v\<rparr>\<rparr>) \<and>
    (\<forall>x k. (x, k) \<in> L \<longrightarrow> x \<noteq> unat (rn_data n) \<longrightarrow> (x, k) \<in> L' \<and> x \<noteq> unat d) \<and>
    (\<forall>q. q \<noteq> p \<longrightarrow> file_data s' q = file_data s q) \<and>
    (r = 0 \<and> w = Some sz \<and>
       file_data s' p = write_at (file_data s p) (unat offset) (load_bytes (kbytes s) buffer (unat sz)) \<or>
     r = - 1 \<and> w = None \<and> file_data s' p = file_data s p)"
proof -
  have needed: "unat (offset + sz) = unat offset + unat sz" using sz by (intro unat_plus_no_wrap) simp
  with sz ramfs_grow_refines [OF ok n(1), of "offset + sz"] obtain b s1 L1 where
    g: "ramfs_grow p (offset + sz) s = Some (b, s1)" "grow_result s lo hi L p n (offset + sz) b s1 L1" by auto
  from g(2) obtain d v where ok1: "ramfs_ok s1 lo hi L1"
    and oth: "\<And>q. q \<noteq> p \<Longrightarrow> ramfs_nodes s1 q = ramfs_nodes s q \<and> file_data s1 q = file_data s q"
    and n1: "ramfs_nodes s1 p = Some (n\<lparr>rn_data := d, rn_vnode := (rn_vnode n)\<lparr>vn_size := v\<rparr>\<rparr>)"
    and dv: "b \<longrightarrow> offset + sz \<le> v \<and> (offset + sz \<noteq> 0 \<longrightarrow> d \<noteq> NULL)"
    and kept: "\<And>x k. (x, k) \<in> L \<Longrightarrow> x \<noteq> unat (rn_data n) \<Longrightarrow> (x, k) \<in> L1 \<and> x \<noteq> unat d"
    and bytes: "load_bytes (kbytes s1) buffer (unat sz) = load_bytes (kbytes s) buffer (unat sz)"
    and dat: "file_data s1 p = file_data s p @ (if b then replicate (unat (offset + sz) - unat (vn_size (rn_vnode n))) 0 else [])"
    unfolding grow_result_def using buf by blast
  have bufs: "buffer_ok lo hi L1 d buffer (unat sz)" by (rule buffer_ok_mono [OF buf]) (use kept in blast)
  have nodes: "ramfs_nodes s1 = (ramfs_nodes s)(p \<mapsto> n\<lparr>rn_data := d, rn_vnode := (rn_vnode n)\<lparr>vn_size := v\<rparr>\<rparr>)"
    using oth n1 by (auto simp: fun_eq_iff)
  have nn: "p \<noteq> NULL" "buffer \<noteq> NULL"
    using ramfs_okD(2) [OF ok n(1)] buf by (auto simp: ramfs_node_ok_def buffer_ok_def)
  have "\<exists>r w s2. ramfs_write p buffer sz offset s = Some (r, w, s2) \<and> ramfs_ok s2 lo hi L1 \<and>
    ramfs_nodes s2 = ramfs_nodes s1 \<and> (\<forall>q. q \<noteq> p \<longrightarrow> file_data s2 q = file_data s q) \<and>
    (r = 0 \<and> w = Some sz \<and>
       file_data s2 p = write_at (file_data s p) (unat offset) (load_bytes (kbytes s) buffer (unat sz)) \<or>
     r = - 1 \<and> w = None \<and> file_data s2 p = file_data s p)"
  proof (cases b)
    case False
    with g(1) n nn have "ramfs_write p buffer sz offset s = Some (- 1, None, s1)"
      by (simp add: ramfs_write_def)
    with ok1 oth dat False show ?thesis by simp
  next
    case True
    let ?d = "d + of_nat (unat offset)"
    let ?s2 = "s1\<lparr>kbytes := memcpy ?d buffer sz (kbytes s1)\<rparr>"
    have run: "ramfs_write p buffer sz offset s = Some (0, Some sz, ?s2)"
      using g(1) n nn True n1 by (simp add: ramfs_write_def)
    have le: "unat offset + unat sz \<le> unat v" using dv True needed by (simp add: word_le_nat_alt)
    have len: "length (file_data s1 p) = unat v" using length_file_data [OF n1] by simp
    have "file_data ?s2 p = write_at (file_data s p) (unat offset) (load_bytes (kbytes s) buffer (unat sz)) \<and>
        (\<forall>q. q \<noteq> p \<longrightarrow> file_data ?s2 q = file_data s1 q)"
    proof (cases "offset + sz = 0")
      case True
      with needed have z: "sz = 0" "unat offset = 0" by (simp_all add: unat_eq_0)
      then show ?thesis using dat \<open>b\<close> True
        by (auto simp: memcpy_0 write_at_def load_bytes_def [of _ _ 0] file_data_def split: option.splits)
    next
      case F: False
      with dv True have d0: "d \<noteq> NULL" by simp
      from ramfs_okD(2) [OF ok1 n1] d0 obtain k where k: "unat v \<le> k" "(unat d, k) \<in> L1"
        by (auto simp: ramfs_node_ok_def)
      have dj: "disjoint_ranges ?d (unat sz) buffer (unat sz)"
        using buffer_ok_disjoint(1) [OF ramfs_okD(1) [OF ok1] k(2) _ bufs, of "unat offset" "unat sz"] le k(1)
        by simp
      have dr: "unat d + unat v \<le> 2 ^ 64" using heap_at_range [OF ramfs_okD(1) [OF ok1] k(2)] k(1) by simp
      have "file_data ?s2 p = take (unat offset) (file_data s1 p) @ load_bytes (kbytes s1) buffer (unat sz) @
          drop (unat offset + unat sz) (file_data s1 p)"
        using load_bytes_overwrite [OF le dr dj, of "kbytes s1"] n1 by (simp add: file_data_def)
      also have "\<dots> = write_at (file_data s p) (unat offset) (load_bytes (kbytes s) buffer (unat sz))"
        using dat \<open>b\<close> bytes len le length_file_data [OF n(1)] needed
          write_at_grown [of "unat offset" "load_bytes (kbytes s) buffer (unat sz)" "file_data s p" _ "0 :: u8"]
        by (simp add: write_at_def)
      finally show ?thesis
        using file_data_memcpy_other [OF ok1 n1, of "unat offset" sz _ buffer] d0 le dj by auto
    qed
    with run ok1 oth show ?thesis by auto
  qed
  from this [unfolded nodes] kept show ?thesis by blast
qed

text \<open>
  A buffer of a client: it lies outside the heap, or in a range in use that is not the contents
  of any file.
\<close>

definition client_buffer :: "'a ramfs_state_scheme \<Rightarrow> nat \<Rightarrow> nat \<Rightarrow> (nat \<times> nat) set \<Rightarrow> u64 \<Rightarrow> nat \<Rightarrow> bool" where
  "client_buffer s lo hi L buf k \<longleftrightarrow> buf \<noteq> NULL \<and> unat buf + k \<le> 2 ^ 64 \<and>
     (unat buf + k \<le> lo \<or> hi \<le> unat buf \<or>
      (\<exists>(x, j) \<in> L. (\<forall>q n. ramfs_nodes s q = Some n \<longrightarrow> x \<noteq> unat (rn_data n)) \<and>
         x \<le> unat buf \<and> unat buf + k \<le> x + j))"

lemma client_buffer_ok:
  "client_buffer s lo hi L buf k \<Longrightarrow> ramfs_nodes s q = Some n \<Longrightarrow> buffer_ok lo hi L (rn_data n) buf k"
  unfolding client_buffer_def buffer_ok_def by fastforce

lemma buffer_ok_shorter: "buffer_ok lo hi L own buf k \<Longrightarrow> j \<le> k \<Longrightarrow> buffer_ok lo hi L own buf j"
  unfolding buffer_ok_def by fastforce

definition file_ready :: "'a ramfs_state_scheme \<Rightarrow> u64 \<Rightarrow> u64 \<Rightarrow> nat \<Rightarrow> bool" where
  "file_ready s p buf k \<longleftrightarrow> (\<exists>lo hi L n. ramfs_ok s lo hi L \<and> ramfs_nodes s p = Some n \<and>
     vn_type (rn_vnode n) = VNODE_TYPE_FILE \<and> client_buffer s lo hi L buf k)"

text \<open>Copying into a buffer of a client changes no file.\<close>

lemma file_data_memcpy_buffer:
  assumes ok: "ramfs_ok s lo hi L" and b: "client_buffer s lo hi L buf k" and sz: "unat sz \<le> k"
    and src: "disjoint_ranges buf (unat sz) src (unat sz)"
  shows "file_data (s\<lparr>kbytes := memcpy buf src sz (kbytes s)\<rparr>) q = file_data s q"
proof (cases "ramfs_nodes s q")
  case (Some n)
  show ?thesis
  proof (cases "rn_data n = NULL")
    case True
    with Some ramfs_okD(2) [OF ok Some] show ?thesis by (simp add: file_data_def ramfs_node_ok_def load_bytes_def)
  next
    case False
    with ramfs_okD(2) [OF ok Some] obtain j where j: "unat (vn_size (rn_vnode n)) \<le> j" "(unat (rn_data n), j) \<in> L"
      by (auto simp: ramfs_node_ok_def)
    from buffer_ok_shorter [OF client_buffer_ok [OF b Some] sz] have "buffer_ok lo hi L (rn_data n) buf (unat sz)" .
    from buffer_ok_disjoint(2) [OF ramfs_okD(1) [OF ok] j(2) _ this, of 0 "unat (vn_size (rn_vnode n))"] j(1)
    have "disjoint_ranges buf (unat sz) (rn_data n) (unat (vn_size (rn_vnode n)))" by simp
    with Some show ?thesis
      by (simp add: file_data_def memcpy_copied [OF disjoint_apart [OF src]] load_bytes_copied_other)
  qed
qed (simp add: file_data_def)

lemma ramfs_read_refines:
  assumes ok: "ramfs_ok s lo hi L" and n: "ramfs_nodes s p = Some n" "vn_type (rn_vnode n) = VNODE_TYPE_FILE"
    and sz: "unat offset + unat sz < 2 ^ 64" and buf: "client_buffer s lo hi L buffer (unat sz)"
  shows "\<exists>w m. ramfs_read p buffer sz offset s = Some (0, Some w, s\<lparr>kbytes := m\<rparr>) \<and>
    unat w = length (take (unat sz) (drop (unat offset) (file_data s p))) \<and>
    load_bytes m buffer (unat w) = take (unat sz) (drop (unat offset) (file_data s p)) \<and>
    (\<forall>q. file_data (s\<lparr>kbytes := m\<rparr>) q = file_data s q)"
proof -
  let ?sz = "vn_size (rn_vnode n)"
  have nn: "p \<noteq> NULL" "buffer \<noteq> NULL"
    using ramfs_okD(2) [OF ok n(1)] buf by (auto simp: ramfs_node_ok_def client_buffer_def)
  have len: "length (file_data s p) = unat ?sz" by (rule length_file_data [OF n(1)])
  have sum: "unat (offset + sz) = unat offset + unat sz" using sz by (rule unat_plus_no_wrap)
  show ?thesis
  proof (cases "rn_data n = NULL \<or> ?sz \<le> offset")
    case True
    then have "unat ?sz \<le> unat offset"
      using ramfs_okD(2) [OF ok n(1)] by (auto simp: ramfs_node_ok_def word_le_nat_alt)
    then have "drop (unat offset) (file_data s p) = []" using len by simp
    moreover have "ramfs_read p buffer sz offset s = Some (0, Some 0, s)"
      using nn n True by (auto simp: ramfs_read_def)
    ultimately show ?thesis
      by (intro exI [where x = 0] exI [where x = "kbytes s"]) (simp add: load_bytes_def)
  next
    case False
    define w where "w = (if ?sz < offset + sz then ?sz - offset else sz)"
    have lt: "unat offset < unat ?sz" using False by (simp add: word_le_nat_alt)
    then have w: "unat w = min (unat sz) (unat ?sz - unat offset)"
      using sum by (auto simp: w_def word_less_nat_alt unat_minus_no_borrow)
    from ramfs_okD(2) [OF ok n(1)] False obtain j where j: "unat ?sz \<le> j" "(unat (rn_data n), j) \<in> L"
      by (auto simp: ramfs_node_ok_def)
    let ?src = "rn_data n + of_nat (unat offset)"
    let ?m = "memcpy buffer ?src w (kbytes s)"
    have b: "buffer_ok lo hi L (rn_data n) buffer (unat w)"
      by (rule buffer_ok_shorter [OF client_buffer_ok [OF buf n(1)]]) (simp add: w)
    have dj: "disjoint_ranges buffer (unat w) ?src (unat w)"
      using buffer_ok_disjoint(2) [OF ramfs_okD(1) [OF ok] j(2) _ b, of "unat offset" "unat w"] j(1) lt w by simp
    have "ramfs_read p buffer sz offset s = Some (0, Some w, s\<lparr>kbytes := ?m\<rparr>)"
      using nn n False by (auto simp: ramfs_read_def w_def Let_def)
    moreover have "load_bytes ?m buffer (unat w) = take (unat sz) (drop (unat offset) (file_data s p))"
      using memcpy_load_bytes [OF dj] n(1) w by (simp add: file_data_def load_bytes_drop load_bytes_take2)
    moreover have "unat w = length (take (unat sz) (drop (unat offset) (file_data s p)))"
      using w len by (simp add: min.commute)
    moreover have "\<forall>q. file_data (s\<lparr>kbytes := ?m\<rparr>) q = file_data s q"
      using file_data_memcpy_buffer [OF ok buf _ dj] w by simp
    ultimately show ?thesis by blast
  qed
qed

section \<open>The contract of files\<close>

type_synonym heap_view = "nat \<times> nat \<times> (nat \<times> nat) set"

fun ramfs_ready :: "heap_view \<Rightarrow> 'a ramfs_state_scheme \<Rightarrow> u64 \<Rightarrow> u64 \<Rightarrow> nat \<Rightarrow> bool" where
  "ramfs_ready (lo, hi, L) s p buf k \<longleftrightarrow> ramfs_ok s lo hi L \<and>
     (\<exists>n. ramfs_nodes s p = Some n \<and> vn_type (rn_vnode n) = VNODE_TYPE_FILE) \<and> client_buffer s lo hi L buf k"

lemma client_buffer_nodes:
  "ramfs_nodes s' = ramfs_nodes s \<Longrightarrow> client_buffer s' lo hi L buf k = client_buffer s lo hi L buf k"
  by (simp add: client_buffer_def)

lemma client_buffer_write:
  assumes b: "client_buffer s lo hi L buf k" and n: "ramfs_nodes s p = Some n"
    and m: "ramfs_nodes s' = (ramfs_nodes s)(p \<mapsto> n\<lparr>rn_data := d, rn_vnode := v\<rparr>)"
    and kept: "\<And>x j. (x, j) \<in> L \<Longrightarrow> x \<noteq> unat (rn_data n) \<Longrightarrow> (x, j) \<in> L' \<and> x \<noteq> unat d"
  shows "client_buffer s' lo hi L' buf k"
proof (cases "unat buf + k \<le> lo \<or> hi \<le> unat buf")
  case True
  with b show ?thesis by (auto simp: client_buffer_def)
next
  case False
  with b obtain x j where x: "(x, j) \<in> L" "x \<le> unat buf" "unat buf + k \<le> x + j"
    "\<And>q n. ramfs_nodes s q = Some n \<Longrightarrow> x \<noteq> unat (rn_data n)" by (auto simp: client_buffer_def)
  with kept n have "(x, j) \<in> L'" "x \<noteq> unat d" by blast+
  moreover have "x \<noteq> unat (rn_data n')" if "ramfs_nodes s' q = Some n'" for q n'
    using that x(4) \<open>x \<noteq> unat d\<close> m by (auto split: if_splits)
  ultimately have "\<exists>(x, j) \<in> L'. (\<forall>q n. ramfs_nodes s' q = Some n \<longrightarrow> x \<noteq> unat (rn_data n)) \<and>
      x \<le> unat buf \<and> unat buf + k \<le> x + j" using x by blast
  with b show ?thesis unfolding client_buffer_def by blast
qed

interpretation ramfs_file: file_store ramfs_read file_data kbytes ramfs_ready ramfs_write
proof (unfold_locales, goal_cases)
  case (1 i s p buf sz off)
  obtain lo hi L where i: "i = (lo, hi, L)" by (cases i)
  with 1(1) obtain n where n: "ramfs_ok s lo hi L" "ramfs_nodes s p = Some n"
    "vn_type (rn_vnode n) = VNODE_TYPE_FILE" "client_buffer s lo hi L buf (unat sz)" by auto
  have "ramfs_ready i (s\<lparr>kbytes := m\<rparr>) q b k" if "ramfs_ready i s q b k" for m q b k
    using that i by (simp add: client_buffer_nodes [of "s\<lparr>kbytes := m\<rparr>" s])
  with ramfs_read_refines [OF n(1-3) 1(2) n(4)] show ?case by fastforce
next
  case (2 i s p buf sz off)
  obtain lo hi L where i: "i = (lo, hi, L)" by (cases i)
  with 2(1) obtain n where n: "ramfs_ok s lo hi L" "ramfs_nodes s p = Some n"
    "vn_type (rn_vnode n) = VNODE_TYPE_FILE" "client_buffer s lo hi L buf (unat sz)" by auto
  from ramfs_write_refines [OF n(1-3) 2(2) client_buffer_ok [OF n(4,2)]] obtain r w s' L' d v where
    w: "ramfs_write p buf sz off s = Some (r, w, s')" "ramfs_ok s' lo hi L'"
    "ramfs_nodes s' = (ramfs_nodes s)(p \<mapsto> n\<lparr>rn_data := d, rn_vnode := (rn_vnode n)\<lparr>vn_size := v\<rparr>\<rparr>)"
    "\<And>x k. (x, k) \<in> L \<Longrightarrow> x \<noteq> unat (rn_data n) \<Longrightarrow> (x, k) \<in> L' \<and> x \<noteq> unat d"
    "\<forall>q. q \<noteq> p \<longrightarrow> file_data s' q = file_data s q"
    "r = 0 \<and> w = Some sz \<and> file_data s' p = write_at (file_data s p) (unat off) (load_bytes (kbytes s) buf (unat sz)) \<or>
     r = - 1 \<and> w = None \<and> file_data s' p = file_data s p" by blast
  have "ramfs_ready (lo, hi, L') s' q b k" if "ramfs_ready i s q b k" for q b k
  proof -
    from that i obtain n' where n': "ramfs_nodes s q = Some n'" "vn_type (rn_vnode n') = VNODE_TYPE_FILE"
      and b: "client_buffer s lo hi L b k" by auto
    from client_buffer_write [OF b n(2) w(3,4)] have "client_buffer s' lo hi L' b k" .
    with n' n(2,3) w(2,3) show ?thesis by auto
  qed
  with w(1,5,6) show ?case by blast
qed

text \<open>C21: Writing to a file of the ramfs is \<open>write_at\<close> on its bytes or, when memory runs out, nothing; no
  other file changes, and every file stays ready for the buffers it was ready for.\<close>

theorem ramfs_write_file:
  assumes "ramfs_ready i s p buf (unat sz)" "unat off + unat sz + 7 < 2 ^ 64"
  shows "\<exists>r w s' i'. ramfs_write p buf sz off s = Some (r, w, s') \<and>
    (\<forall>q. q \<noteq> p \<longrightarrow> file_data s' q = file_data s q) \<and>
    (\<forall>q b k. ramfs_ready i s q b k \<longrightarrow> ramfs_ready i' s' q b k) \<and>
    (r = 0 \<and> w = Some sz \<and>
       file_data s' p = write_at (file_data s p) (unat off) (load_bytes (kbytes s) buf (unat sz)) \<or>
     r = - 1 \<and> w = None \<and> file_data s' p = file_data s p)"
  by (rule ramfs_file.write_law [OF assms])

text \<open>C22: What was written to a file of the ramfs is read back from it, byte by byte.\<close>

theorem ramfs_write_read:
  assumes "ramfs_ready (lo, hi, L) s p buf (unat sz)" "ramfs_ready (lo, hi, L) s p buf' (unat sz)"
    and "unat off + unat sz + 7 < 2 ^ 64" "ramfs_write p buf sz off s = Some (0, w, s')"
  shows "w = Some sz \<and> (\<exists>s''. ramfs_read p buf' sz off s' = Some (0, Some sz, s'') \<and>
    load_bytes (kbytes s'') buf' (unat sz) = load_bytes (kbytes s) buf (unat sz))"
  by (rule ramfs_file.write_read [OF assms])

text \<open>A file system with one empty file, for the witnesses.\<close>

definition example_node :: "vnode_type \<Rightarrow> u8 list \<Rightarrow> ramfs_node" where
  "example_node t name = \<lparr>rn_vnode = \<lparr>vn_ops = Some RAMFS_OPS, vn_type = t, vn_size = 0, vn_mount = NULL,
     vn_private = NULL\<rparr>, rn_name = name, rn_parent = NULL, rn_children = NULL, rn_next = NULL, rn_data = NULL\<rparr>"

definition example_ramfs :: ramfs_state where
  "example_ramfs = \<lparr>hp_head = 0x100000,
     hp_blocks = [0x100000 \<mapsto> \<lparr>hb_size = 136, hb_next = 0x1000A0, hb_free = False\<rparr>,
                  0x1000A0 \<mapsto> \<lparr>hb_size = 0x10000, hb_next = NULL, hb_free = True\<rparr>],
     pmm_initialized = True, kmem = (\<lambda>_. 0), page_table_l4 = NULL, tlb_log = [], kernel_memory_map = [],
     kbytes = (\<lambda>x. ucast x), ramfs_nodes = [0x100018 \<mapsto> example_node VNODE_TYPE_FILE [0x66]]\<rparr>"

lemma example_ramfs_ready:
  "ramfs_ready (0x100000, 0x1100B8, {(0x100018, 136)}) example_ramfs 0x100018 0x4000 100"
proof -
  have "heap_rel example_ramfs 0x100000 0x1100B8 [(0x100000, 136, False), (0x1000A0, 0x10000, True)]"
    by (simp add: heap_rel_def example_ramfs_def)
  then have "heap_at example_ramfs 0x100000 0x1100B8 {(0x100018, 136)}"
    unfolding heap_at_def
    by (intro conjI exI [where x = "[(0x100000, 136, False), (0x1000A0, 0x10000, True)]"])
      (simp_all add: example_ramfs_def allocs_def)
  then show ?thesis
    by (auto simp: ramfs_ok_def ramfs_node_ok_def client_buffer_def example_ramfs_def example_node_def split: if_splits)
qed

theorem ramfs_write_file_witness:
  "\<exists>r w s' i'. ramfs_write 0x100018 0x4000 100 50 example_ramfs = Some (r, w, s') \<and>
    (\<forall>q. q \<noteq> 0x100018 \<longrightarrow> file_data s' q = file_data example_ramfs q) \<and>
    (\<forall>q b k. ramfs_ready (0x100000, 0x1100B8, {(0x100018, 136)}) example_ramfs q b k \<longrightarrow> ramfs_ready i' s' q b k) \<and>
    (r = 0 \<and> w = Some 100 \<and>
       file_data s' 0x100018 = write_at (file_data example_ramfs 0x100018) (unat (50 :: u64))
         (load_bytes (kbytes example_ramfs) 0x4000 (unat (100 :: u64))) \<or>
     r = - 1 \<and> w = None \<and> file_data s' 0x100018 = file_data example_ramfs 0x100018)"
  by (rule ramfs_write_file) (use example_ramfs_ready in simp_all)

text \<open>The first write to an empty file.\<close>

lemma ramfs_write_first:
  assumes n: "ramfs_nodes s p = Some n" "vn_type (rn_vnode n) = VNODE_TYPE_FILE" "rn_data n = NULL"
    "vn_size (rn_vnode n) = 0" "p \<noteq> NULL" "buf \<noteq> NULL"
    and h: "heap_at s lo hi L" "unat (off + sz) + 7 < 2 ^ 64" "off + sz \<noteq> 0"
    and m: "malloc (off + sz) s = Some (new, s1)" "new \<noteq> NULL"
  shows "\<exists>s'. ramfs_write p buf sz off s = Some (0, Some sz, s') \<and> length (file_data s' p) = unat (off + sz)"
proof -
  from malloc_at [OF h(1,2)] m(1) have sb: "same_but_blocks s s1" by auto
  have nz: "\<not> off + sz \<le> vn_size (rn_vnode n)" using h(3) n(4) by simp
  from ramfs_grow_unfold [OF n(1) nz m same_but_blocks_kbytes [OF sb] same_but_blocks_ramfs [OF sb]] n
  obtain s2 where "ramfs_grow p (off + sz) s = Some (True, s2)"
    "ramfs_nodes s2 p = Some (n\<lparr>rn_data := new, rn_vnode := (rn_vnode n)\<lparr>vn_size := off + sz\<rparr>\<rparr>)"
    by (simp add: Let_def)
  with n show ?thesis by (simp add: ramfs_write_def file_data_def)
qed

lemma example_ramfs_first:
  assumes "off + sz = k" "k \<noteq> 0" "unat k < 1000" "buf \<noteq> NULL" "malloc k example_ramfs = Some (0x1000B8, s1)"
  shows "\<exists>s'. ramfs_write 0x100018 buf sz off example_ramfs = Some (0, Some sz, s') \<and>
     length (file_data s' 0x100018) = unat k"
proof -
  from example_ramfs_ready have "heap_at example_ramfs 0x100000 0x1100B8 {(0x100018, 136)}"
    by (simp add: ramfs_ok_def)
  from ramfs_write_first [OF _ _ _ _ _ assms(4) this, where p = "0x100018" and n = "example_node VNODE_TYPE_FILE [0x66]" and off = off and sz = sz]
    assms show ?thesis
    by (simp add: example_ramfs_def example_node_def)
qed

theorem ramfs_write_read_witness:
  "\<exists>w s'. ramfs_write 0x100018 0x4000 3 50 example_ramfs = Some (0, w, s') \<and>
     w = Some 3 \<and> (\<exists>s''. ramfs_read 0x100018 0x5000 3 50 s' = Some (0, Some 3, s'') \<and>
       load_bytes (kbytes s'') 0x5000 (unat (3 :: u64)) = load_bytes (kbytes example_ramfs) 0x4000 (unat (3 :: u64)))"
proof -
  have r: "ramfs_ready (0x100000, 0x1100B8, {(0x100018, 136)}) example_ramfs 0x100018 0x4000 (unat (3 :: u64))"
    "ramfs_ready (0x100000, 0x1100B8, {(0x100018, 136)}) example_ramfs 0x100018 0x5000 (unat (3 :: u64))"
    using example_ramfs_ready by (simp_all add: client_buffer_def)
  have "\<exists>w s'. ramfs_write 0x100018 0x4000 3 50 example_ramfs = Some (0, w, s')"
  proof -
    have "\<exists>s1. malloc 53 example_ramfs = Some (0x1000B8, s1)"
      by (simp add: malloc_def malloc_loop.simps example_ramfs_def)
    then show ?thesis using example_ramfs_first [where off = 50 and sz = 3 and k = 53 and buf = "0x4000"] by fastforce
  qed
  then obtain w s' where w: "ramfs_write 0x100018 0x4000 3 50 example_ramfs = Some (0, w, s')" by blast
  have "unat (50 :: u64) + unat (3 :: u64) + 7 < 2 ^ 64" by simp
  from ramfs_write_read [OF r this w] w show ?thesis by blast
qed

text \<open>
  A write at the last offset wraps around: the file grows to one byte, and the write goes to the
  byte before its contents.
\<close>

lemma ramfs_write_wraps:
  "\<exists>s'. ramfs_write 0x100018 0x4000 2 0xFFFFFFFFFFFFFFFF example_ramfs = Some (0, Some 2, s') \<and>
     length (file_data s' 0x100018) = 1"
proof -
  have "\<exists>s1. malloc 1 example_ramfs = Some (0x1000B8, s1)"
    by (simp add: malloc_def malloc_loop.simps example_ramfs_def)
  then show ?thesis using example_ramfs_first [where off = "0xFFFFFFFFFFFFFFFF" and sz = 2 and k = 1 and buf = "0x4000"] by fastforce
qed

text \<open>A read of the largest size is not cut to the file unless it starts at its beginning.\<close>

lemma ramfs_read_wraps:
  assumes "ramfs_nodes s p = Some n" "vn_type (rn_vnode n) = VNODE_TYPE_FILE" "p \<noteq> NULL" "buf \<noteq> NULL"
    and "rn_data n \<noteq> NULL" "1 \<le> off" "off < vn_size (rn_vnode n)"
  shows "\<exists>s'. ramfs_read p buf 0xFFFFFFFFFFFFFFFF off s = Some (0, Some 0xFFFFFFFFFFFFFFFF, s')"
proof -
  have e: "off + 0xFFFFFFFFFFFFFFFF = off - 1" by simp
  have "\<not> vn_size (rn_vnode n) < off + 0xFFFFFFFFFFFFFFFF"
    unfolding e using assms(6,7) by (simp add: word_less_nat_alt word_le_nat_alt unat_minus_no_borrow)
  with assms show ?thesis by (auto simp: ramfs_read_def Let_def)
qed

section \<open>Directories\<close>

text \<open>
  The entries of a directory, newest first. \<open>dir_inv\<close>: the children of every directory form a
  list, know their parent, and have names that are distinct and were not cut.
\<close>

definition dir_entries :: "'a ramfs_state_scheme \<Rightarrow> u64 \<Rightarrow> (u8 list \<times> u64) list" where
  "dir_entries s d = (case ramfs_nodes s d of None \<Rightarrow> []
     | Some n \<Rightarrow> if vn_type (rn_vnode n) \<noteq> VNODE_TYPE_DIR then []
         else (case list_nodes rn_next (ramfs_nodes s) (rn_children n) of None \<Rightarrow> []
        | Some ps \<Rightarrow> map (\<lambda>p. (rn_name (the (ramfs_nodes s p)), p)) ps))"

definition dir_list_ok :: "(u64 \<rightharpoonup> ramfs_node) \<Rightarrow> u64 \<Rightarrow> u64 list \<Rightarrow> bool" where
  "dir_list_ok m d ps \<longleftrightarrow> distinct (map (\<lambda>p. rn_name (the (m p))) ps) \<and>
     (\<forall>p \<in> set ps. rn_parent (the (m p)) = d \<and> length (rn_name (the (m p))) \<le> 63)"

definition dir_inv :: "'a ramfs_state_scheme \<Rightarrow> bool" where
  "dir_inv s \<longleftrightarrow> (\<forall>d n. ramfs_nodes s d = Some n \<longrightarrow> vn_type (rn_vnode n) = VNODE_TYPE_DIR \<longrightarrow>
     (\<exists>ps. linked rn_next (ramfs_nodes s) (rn_children n) ps \<and> dir_list_ok (ramfs_nodes s) d ps))"

lemma dir_invE:
  assumes "dir_inv s" "ramfs_nodes s d = Some n" "vn_type (rn_vnode n) = VNODE_TYPE_DIR"
  obtains ps where "linked rn_next (ramfs_nodes s) (rn_children n) ps" "dir_list_ok (ramfs_nodes s) d ps"
    "dir_entries s d = map (\<lambda>p. (rn_name (the (ramfs_nodes s p)), p)) ps"
  using assms by (force simp: dir_inv_def dir_entries_def list_nodes_linked)

lemma find_map_of:
  "find (\<lambda>p. f p = name) ps = map_of (map (\<lambda>p. (f p, p)) ps) name"
  by (induction ps) auto

lemma ramfs_find_child_entries:
  assumes "dir_inv s" "ramfs_nodes s d = Some n" "vn_type (rn_vnode n) = VNODE_TYPE_DIR" "d \<noteq> NULL"
  shows "ramfs_find_child d name s = Some (case map_of (dir_entries s d) name of None \<Rightarrow> NULL | Some p \<Rightarrow> p)"
proof -
  from assms(1-3) obtain ps where ps: "linked rn_next (ramfs_nodes s) (rn_children n) ps"
    "dir_entries s d = map (\<lambda>p. (rn_name (the (ramfs_nodes s p)), p)) ps" by (rule dir_invE)
  then show ?thesis using assms(2,4)
    by (simp add: ramfs_find_child_def list_find_linked find_map_of)
qed

lemma map_of_entries_non_NULL:
  assumes "dir_inv s" "ramfs_nodes s d = Some n" "vn_type (rn_vnode n) = VNODE_TYPE_DIR"
    "map_of (dir_entries s d) name = Some p"
  shows "p \<noteq> NULL"
proof -
  from assms(1-3) obtain ps where ps: "linked rn_next (ramfs_nodes s) (rn_children n) ps"
    "dir_entries s d = map (\<lambda>p. (rn_name (the (ramfs_nodes s p)), p)) ps" by (rule dir_invE)
  with assms(4) have "p \<in> set ps" by (auto dest: map_of_SomeD)
  with linked_in [OF ps(1)] show ?thesis by blast
qed

text \<open>Looking up a name is looking it up in the list of entries.\<close>

lemma ramfs_lookup_entries:
  assumes "dir_inv s" "ramfs_nodes s d = Some n" "vn_type (rn_vnode n) = VNODE_TYPE_DIR" "d \<noteq> NULL"
  shows "ramfs_lookup d name s =
    Some (case map_of (dir_entries s d) name of None \<Rightarrow> (- 1, None) | Some p \<Rightarrow> (0, Some p))"
  using assms map_of_entries_non_NULL [OF assms(1-3), of name]
  by (auto simp: ramfs_lookup_def ramfs_find_child_entries split: option.split)

text \<open>Creating a node puts a fresh one in memory.\<close>

lemma ramfs_create_node_ok:
  assumes ok: "ramfs_ok s lo hi L"
  shows "\<exists>p s' L'. ramfs_create_node name t s = Some (p, s') \<and> ramfs_ok s' lo hi L' \<and> L \<subseteq> L' \<and> kbytes s' = kbytes s \<and>
    (if p = NULL then ramfs_nodes s' = ramfs_nodes s
     else ramfs_nodes s p = None \<and> (\<exists>n. ramfs_nodes s' = (ramfs_nodes s)(p \<mapsto> n) \<and> rn_name n = take 63 name \<and>
       vn_type (rn_vnode n) = t \<and> rn_children n = NULL \<and> rn_data n = NULL \<and> vn_size (rn_vnode n) = 0 \<and>
       vn_ops (rn_vnode n) = Some RAMFS_OPS))"
proof -
  have "unat SIZEOF_RAMFS_NODE + 7 < 2 ^ 64" by simp
  from malloc_at [OF ramfs_okD(1) [OF ok] this] obtain p s1 where s1: "malloc SIZEOF_RAMFS_NODE s = Some (p, s1)"
    "same_but_blocks s s1" and g: "if p = NULL then heap_at s1 lo hi L
       else \<exists>k \<ge> unat SIZEOF_RAMFS_NODE. heap_at s1 lo hi (insert (unat p, k) L) \<and> unat p \<notin> fst ` L" by blast
  note same = same_but_blocks_ramfs [OF s1(2)] same_but_blocks_kbytes [OF s1(2)]
  show ?thesis
  proof (cases "p = NULL")
    case True
    with s1 g ramfs_ok_heap [OF ok s1(2)] same show ?thesis
      by (auto simp: ramfs_create_node_def)
  next
    case False
    with g obtain k where k: "heap_at s1 lo hi (insert (unat p, k) L)" "unat p \<notin> fst ` L" by auto
    have fresh: "ramfs_nodes s p = None"
    proof (rule ccontr)
      assume "ramfs_nodes s p \<noteq> None"
      then obtain n where "ramfs_nodes s p = Some n" by blast
      from ramfs_okD(2) [OF ok this] k(2) show False by (force simp: ramfs_node_ok_def)
    qed
    have dat: "rn_data n \<noteq> p" if "ramfs_nodes s q = Some n" for q n
      using ramfs_okD(2) [OF ok that] k(2) False by (force simp: ramfs_node_ok_def split: if_splits)
    let ?n = "\<lparr>rn_vnode = \<lparr>vn_ops = Some RAMFS_OPS, vn_type = t, vn_size = 0, vn_mount = NULL, vn_private = NULL\<rparr>,
      rn_name = take 63 name, rn_parent = NULL, rn_children = NULL, rn_next = NULL, rn_data = NULL\<rparr>"
    have "ramfs_ok (s1\<lparr>ramfs_nodes := (ramfs_nodes s)(p \<mapsto> ?n)\<rparr>) lo hi (insert (unat p, k) L)"
      unfolding ramfs_ok_def
    proof (intro conjI allI impI)
      fix q nq assume q: "ramfs_nodes (s1\<lparr>ramfs_nodes := (ramfs_nodes s)(p \<mapsto> ?n)\<rparr>) q = Some nq"
      show "ramfs_node_ok (ramfs_nodes (s1\<lparr>ramfs_nodes := (ramfs_nodes s)(p \<mapsto> ?n)\<rparr>)) (insert (unat p, k) L) q nq"
      proof (cases "q = p")
        case True
        with q False show ?thesis by (auto simp: ramfs_node_ok_def)
      next
        case F: False
        with q have "ramfs_nodes s q = Some nq" by simp
        from ramfs_okD(2) [OF ok this] dat [OF this] show ?thesis
          by (auto simp: ramfs_node_ok_def split: if_splits)
      qed
    qed (use k(1) in simp)
    moreover have "ramfs_create_node name t s = Some (p, s1\<lparr>ramfs_nodes := (ramfs_nodes s)(p \<mapsto> ?n)\<rparr>)"
      using s1(1) same False by (simp add: ramfs_create_node_def)
    ultimately show ?thesis using same False fresh
      by (intro exI [where x = p] exI [where x = "s1\<lparr>ramfs_nodes := (ramfs_nodes s)(p \<mapsto> ?n)\<rparr>"]
          exI [where x = "insert (unat p, k) L"]) (auto intro!: exI [where x = ?n])
  qed
qed

text \<open>What links the nodes does not matter to their files.\<close>

lemma ramfs_node_ok_cong:
  assumes "\<And>q. map_option (\<lambda>n. (rn_data n, vn_size (rn_vnode n))) (m' q) =
             map_option (\<lambda>n. (rn_data n, vn_size (rn_vnode n))) (m q)"
    and "rn_data n' = rn_data n" "vn_size (rn_vnode n') = vn_size (rn_vnode n)" "ramfs_node_ok m L p n"
  shows "ramfs_node_ok m' L p n'"
proof -
  have d: "(m' q = None) = (m q = None)" "m' q = Some x' \<Longrightarrow> \<exists>x. m q = Some x \<and> rn_data x = rn_data x'" for q x'
    using assms(1) [of q] by (cases "m q"; cases "m' q"; force)+
  with assms(2-4) show ?thesis unfolding ramfs_node_ok_def by (metis (no_types, lifting))
qed

lemma ramfs_ok_cong:
  assumes "ramfs_ok s lo hi L" "heap_at s' lo hi L"
    and m: "\<And>q. map_option (\<lambda>n. (rn_data n, vn_size (rn_vnode n))) (ramfs_nodes s' q) =
             map_option (\<lambda>n. (rn_data n, vn_size (rn_vnode n))) (ramfs_nodes s q)"
  shows "ramfs_ok s' lo hi L"
  unfolding ramfs_ok_def
proof (intro conjI allI impI)
  fix p n assume n: "ramfs_nodes s' p = Some n"
  with m [of p] obtain n0 where "ramfs_nodes s p = Some n0" "rn_data n = rn_data n0"
    "vn_size (rn_vnode n) = vn_size (rn_vnode n0)" by (cases "ramfs_nodes s p") auto
  then show "ramfs_node_ok (ramfs_nodes s') L p n"
    using ramfs_node_ok_cong [where m' = "ramfs_nodes s'" and m = "ramfs_nodes s", OF m] ramfs_okD(2) [OF assms(1)]
    by blast
qed (rule assms(2))

lemma file_data_cong:
  assumes "map_option (\<lambda>n. (rn_data n, vn_size (rn_vnode n))) (ramfs_nodes s' q) =
             map_option (\<lambda>n. (rn_data n, vn_size (rn_vnode n))) (ramfs_nodes s q)" "kbytes s' = kbytes s"
  shows "file_data s' q = file_data s q"
  using assms by (cases "ramfs_nodes s q"; cases "ramfs_nodes s' q") (auto simp: file_data_def)

text \<open>Linking a fresh node in front of the children.\<close>

lemma ramfs_add_child_fresh:
  assumes "ramfs_nodes s d = Some n" "ramfs_nodes s p = Some c" "d \<noteq> p" "d \<noteq> NULL" "p \<noteq> NULL"
  shows "ramfs_add_child d p s = Some (s\<lparr>ramfs_nodes := (ramfs_nodes s)
     (d \<mapsto> n\<lparr>rn_children := p\<rparr>, p \<mapsto> c\<lparr>rn_next := rn_children n, rn_parent := d\<rparr>)\<rparr>)"
  using assms by (simp add: ramfs_add_child_def fun_upd_twist)

lemma dir_list_ok_cong:
  "(\<And>q. q \<in> set ps \<Longrightarrow> rn_name (the (m' q)) = rn_name (the (m q)) \<and> rn_parent (the (m' q)) = rn_parent (the (m q))) \<Longrightarrow>
   dir_list_ok m d ps \<Longrightarrow> dir_list_ok m' d ps"
  unfolding dir_list_ok_def by (metis (no_types, lifting) map_eq_conv)

definition child_added ::
  "'a ramfs_state_scheme \<Rightarrow> 'a ramfs_state_scheme \<Rightarrow> u64 \<Rightarrow> ramfs_node \<Rightarrow> u64 \<Rightarrow> ramfs_node \<Rightarrow> bool" where
  "child_added s s' d n p c \<longleftrightarrow> dir_inv s \<and> ramfs_nodes s d = Some n \<and> vn_type (rn_vnode n) = VNODE_TYPE_DIR \<and>
     ramfs_nodes s p = None \<and> p \<noteq> NULL \<and>
     ramfs_nodes s' = (ramfs_nodes s)
      (d \<mapsto> n\<lparr>rn_children := p\<rparr>, p \<mapsto> c\<lparr>rn_next := rn_children n, rn_parent := d\<rparr>) \<and>
     rn_children c = NULL \<and> length (rn_name c) \<le> 63 \<and> map_of (dir_entries s d) (rn_name c) = None"

lemma child_addedD:
  assumes "child_added s s' d n p c"
  shows "dir_inv s" "ramfs_nodes s d = Some n" "vn_type (rn_vnode n) = VNODE_TYPE_DIR"
    "ramfs_nodes s p = None" "p \<noteq> NULL"
    "ramfs_nodes s' = (ramfs_nodes s)
      (d \<mapsto> n\<lparr>rn_children := p\<rparr>, p \<mapsto> c\<lparr>rn_next := rn_children n, rn_parent := d\<rparr>)"
    "rn_children c = NULL" "length (rn_name c) \<le> 63" "map_of (dir_entries s d) (rn_name c) = None"
  using assms by (simp_all add: child_added_def)

lemma child_added_other:
  assumes A: "child_added s s' d n p c" and e: "ramfs_nodes s e = Some ne" "vn_type (rn_vnode ne) = VNODE_TYPE_DIR"
  obtains ps where "linked rn_next (ramfs_nodes s) (rn_children ne) ps" "linked rn_next (ramfs_nodes s') (rn_children ne) ps"
    "dir_list_ok (ramfs_nodes s') e ps" "p \<notin> set ps"
    "map (\<lambda>q. (rn_name (the (ramfs_nodes s' q)), q)) ps = dir_entries s e"
proof -
  note inv = child_addedD(1) [OF A] and d = child_addedD(2,3) [OF A] and fresh = child_addedD(4,5) [OF A]
    and nodes = child_addedD(6) [OF A] and c = child_addedD(7,8) [OF A] and new = child_addedD(9) [OF A]
  from inv e obtain ps where ps: "linked rn_next (ramfs_nodes s) (rn_children ne) ps" "dir_list_ok (ramfs_nodes s) e ps"
    "dir_entries s e = map (\<lambda>q. (rn_name (the (ramfs_nodes s q)), q)) ps" by (rule dir_invE)
  have p: "p \<notin> set ps" using linked_in [OF ps(1), of p] fresh by auto
  have same: "map_option rn_next (ramfs_nodes s' q) = map_option rn_next (ramfs_nodes s q)"
    "rn_name (the (ramfs_nodes s' q)) = rn_name (the (ramfs_nodes s q)) \<and>
     rn_parent (the (ramfs_nodes s' q)) = rn_parent (the (ramfs_nodes s q))" if "q \<in> set ps" for q
    using that p d(1) by (auto simp: nodes)
  have "linked rn_next (ramfs_nodes s') (rn_children ne) ps"
    using linked_cong [where m' = "ramfs_nodes s'" and m = "ramfs_nodes s" and nxt = rn_next, OF same(1)] ps(1) by blast
  moreover have "dir_list_ok (ramfs_nodes s') e ps" using same(2) ps(2) by (rule dir_list_ok_cong)
  moreover have "map (\<lambda>q. (rn_name (the (ramfs_nodes s' q)), q)) ps = dir_entries s e" using same(2) ps(3) by simp
  ultimately show ?thesis using that ps(1) p by blast
qed

lemma child_added_this:
  assumes A: "child_added s s' d n p c"
  shows "dir_entries s' d = (rn_name c, p) # dir_entries s d"
  "\<exists>ps. linked rn_next (ramfs_nodes s') p ps \<and> dir_list_ok (ramfs_nodes s') d ps"
proof -
  note inv = child_addedD(1) [OF A] and d = child_addedD(2,3) [OF A] and fresh = child_addedD(4,5) [OF A]
    and nodes = child_addedD(6) [OF A] and c = child_addedD(7,8) [OF A] and new = child_addedD(9) [OF A]
  from d obtain ps where ps: "linked rn_next (ramfs_nodes s) (rn_children n) ps" "linked rn_next (ramfs_nodes s') (rn_children n) ps"
    "dir_list_ok (ramfs_nodes s') d ps" "p \<notin> set ps"
    "map (\<lambda>q. (rn_name (the (ramfs_nodes s' q)), q)) ps = dir_entries s d" by (rule child_added_other [OF A])
  have pp: "ramfs_nodes s' p = Some (c\<lparr>rn_next := rn_children n, rn_parent := d\<rparr>)" by (simp add: nodes)
  with ps(2) fresh have l: "linked rn_next (ramfs_nodes s') p (p # ps)" by simp
  have "d \<noteq> p" using d(1) fresh by auto
  then have "ramfs_nodes s' d = Some (n\<lparr>rn_children := p\<rparr>)" by (simp add: nodes)
  with list_nodes_linked [OF l] ps(5) pp d(2) show "dir_entries s' d = (rn_name c, p) # dir_entries s d"
    by (simp add: dir_entries_def [of s'])
  have "rn_name c \<notin> set (map (\<lambda>q. rn_name (the (ramfs_nodes s' q))) ps)"
    using new unfolding ps(5) [symmetric] by (force simp: map_of_eq_None_iff)
  with ps(3) pp c(2) have "dir_list_ok (ramfs_nodes s') d (p # ps)" by (simp add: dir_list_ok_def)
  with l show "\<exists>ps. linked rn_next (ramfs_nodes s') p ps \<and> dir_list_ok (ramfs_nodes s') d ps" by blast
qed

lemma child_added_dir_inv:
  assumes A: "child_added s s' d n p c"
  shows "dir_inv s'"
  unfolding dir_inv_def
proof (intro allI impI)
  note inv = child_addedD(1) [OF A] and d = child_addedD(2,3) [OF A] and fresh = child_addedD(4,5) [OF A]
    and nodes = child_addedD(6) [OF A] and c = child_addedD(7,8) [OF A] and new = child_addedD(9) [OF A]
  fix e ne assume e: "ramfs_nodes s' e = Some ne" "vn_type (rn_vnode ne) = VNODE_TYPE_DIR"
  consider "e = p" | "e = d" "e \<noteq> p" | "e \<noteq> d" "e \<noteq> p" by blast
  then show "\<exists>ps. linked rn_next (ramfs_nodes s') (rn_children ne) ps \<and> dir_list_ok (ramfs_nodes s') e ps"
  proof cases
    case 1
    with e(1) c(1) have "linked rn_next (ramfs_nodes s') (rn_children ne) []" by (auto simp: nodes)
    then show ?thesis by (auto simp: dir_list_ok_def intro!: exI [where x = "[]"])
  next
    case 2
    with e(1) have "rn_children ne = p" by (auto simp: nodes)
    with 2 child_added_this(2) [OF A] show ?thesis by simp
  next
    case 3
    with e have "ramfs_nodes s e = Some ne" by (simp add: nodes)
    from this e(2) show ?thesis by (rule child_added_other [OF A]) blast
  qed
qed


text \<open>The vnodes that were there stay, and new ones are nodes of the ramfs.\<close>

definition nodes_kept :: "'a ramfs_state_scheme \<Rightarrow> 'a ramfs_state_scheme \<Rightarrow> bool" where
  "nodes_kept s s' \<longleftrightarrow>
     (\<forall>e n. ramfs_nodes s e = Some n \<longrightarrow> (\<exists>n'. ramfs_nodes s' e = Some n' \<and> rn_vnode n' = rn_vnode n)) \<and>
     (\<forall>e n'. ramfs_nodes s' e = Some n' \<longrightarrow>
        (\<exists>n. ramfs_nodes s e = Some n \<and> rn_vnode n' = rn_vnode n) \<or> vn_ops (rn_vnode n') = Some RAMFS_OPS)"

lemma nodes_kept_same: "ramfs_nodes s' = ramfs_nodes s \<Longrightarrow> nodes_kept s s'"
  by (simp add: nodes_kept_def)

lemma ramfs_new_child_refines:
  assumes ok: "ramfs_ok s lo hi L" and inv: "dir_inv s"
    and d: "ramfs_nodes s d = Some n" "vn_type (rn_vnode n) = VNODE_TYPE_DIR" and len: "length name \<le> 63"
  shows "\<exists>r q s' L'. ramfs_new_child t d name s = Some (r, q, s') \<and> ramfs_ok s' lo hi L' \<and> dir_inv s' \<and>
    nodes_kept s s' \<and>
    (\<forall>e. e \<noteq> d \<longrightarrow> dir_entries s' e = dir_entries s e) \<and> (\<forall>e. file_data s' e = file_data s e) \<and>
    (r = 0 \<and> map_of (dir_entries s d) name = None \<and> (\<exists>p. q = Some p \<and> dir_entries s' d = (name, p) # dir_entries s d) \<or>
     r = - 1 \<and> q = None \<and> dir_entries s' d = dir_entries s d)"
proof -
  have dn: "d \<noteq> NULL" using ramfs_okD(2) [OF ok d(1)] by (simp add: ramfs_node_ok_def)
  note find = ramfs_find_child_entries [OF inv d dn, of name]
  show ?thesis
  proof (cases "map_of (dir_entries s d) name")
    case (Some p)
    with find map_of_entries_non_NULL [OF inv d Some] d dn
    have "ramfs_new_child t d name s = Some (- 1, None, s)" by (simp add: ramfs_new_child_def)
    with ok inv Some nodes_kept_same [of s s] show ?thesis by auto
  next
    case None
    from ramfs_create_node_ok [OF ok, of name t] obtain p s1 L1 where
      s1: "ramfs_create_node name t s = Some (p, s1)" "ramfs_ok s1 lo hi L1" "kbytes s1 = kbytes s"
      and g: "if p = NULL then ramfs_nodes s1 = ramfs_nodes s
        else ramfs_nodes s p = None \<and> (\<exists>n. ramfs_nodes s1 = (ramfs_nodes s)(p \<mapsto> n) \<and> rn_name n = take 63 name \<and>
          vn_type (rn_vnode n) = t \<and> rn_children n = NULL \<and> rn_data n = NULL \<and> vn_size (rn_vnode n) = 0 \<and>
          vn_ops (rn_vnode n) = Some RAMFS_OPS)" by blast
    show ?thesis
    proof (cases "p = NULL")
      case True
      with g have m: "ramfs_nodes s1 = ramfs_nodes s" by simp
      then have "dir_entries s1 e = dir_entries s e" "file_data s1 e = file_data s e" for e
        by (simp_all only: dir_entries_def file_data_def s1(3))
      moreover have "dir_inv s1" using inv m by (simp add: dir_inv_def)
      moreover have "ramfs_new_child t d name s = Some (- 1, None, s1)"
        using None find d dn s1(1) True by (simp add: ramfs_new_child_def)
      ultimately show ?thesis using s1(2) nodes_kept_same [OF m] by auto
    next
      case False
      with g obtain c where fresh: "ramfs_nodes s p = None" and m: "ramfs_nodes s1 = (ramfs_nodes s)(p \<mapsto> c)"
        and c: "rn_name c = take 63 name" "rn_children c = NULL" "rn_data c = NULL" "vn_size (rn_vnode c) = 0"
        "vn_ops (rn_vnode c) = Some RAMFS_OPS" by auto
      from d(1) fresh have dp: "d \<noteq> p" by auto
      let ?m = "(ramfs_nodes s)(d \<mapsto> n\<lparr>rn_children := p\<rparr>, p \<mapsto> c\<lparr>rn_next := rn_children n, rn_parent := d\<rparr>)"
      define s2 where "s2 = s1\<lparr>ramfs_nodes := ?m\<rparr>"
      have m2: "ramfs_nodes s2 = ?m" "kbytes s2 = kbytes s" using s1(3) by (simp_all add: s2_def)
      have "ramfs_add_child d p s1 = Some s2"
        using ramfs_add_child_fresh [of s1 d n p c] m d(1) dp dn False by (simp add: fun_upd_twist s2_def)
      then have run: "ramfs_new_child t d name s = Some (0, Some p, s2)"
        using None find d dn s1(1) False by (simp add: ramfs_new_child_def)
      have A: "child_added s s2 d n p c"
        using inv d fresh False c len None m2(1) by (simp add: child_added_def)
      have ok2: "ramfs_ok s2 lo hi L1"
        by (rule ramfs_ok_cong [OF s1(2)]) (use ramfs_okD(1) [OF s1(2)] m d(1) dp m2(1) in \<open>auto simp: s2_def\<close>)
      have "file_data s2 e = file_data s e" for e
      proof (cases "e = p")
        case True
        then show ?thesis using fresh c(3,4) m2 by (simp add: file_data_def load_bytes_def)
      next
        case F: False
        then show ?thesis using d(1) m2 by (intro file_data_cong) auto
      qed
      moreover have "dir_entries s2 e = dir_entries s e" if e: "e \<noteq> d" for e
      proof (cases "e = p")
        case True
        then show ?thesis using fresh c(2) dp m2(1)
          by (simp add: dir_entries_def list_nodes_linked [of _ _ _ "[]"])
      next
        case F: False
        show ?thesis
        proof (cases "ramfs_nodes s e")
          case (Some ne)
          with e F m2(1) have n': "ramfs_nodes s2 e = Some ne" by simp
          show ?thesis
          proof (cases "vn_type (rn_vnode ne) = VNODE_TYPE_DIR")
            case True
            obtain ps where ps: "linked rn_next (ramfs_nodes s2) (rn_children ne) ps"
              "map (\<lambda>q. (rn_name (the (ramfs_nodes s2 q)), q)) ps = dir_entries s e"
              by (rule child_added_other [OF A Some True]) blast
            have "dir_entries s2 e = map (\<lambda>q. (rn_name (the (ramfs_nodes s2 q)), q)) ps"
              using n' True list_nodes_linked [OF ps(1)] by (simp add: dir_entries_def)
            with ps(2) show ?thesis by simp
          qed (use Some n' in \<open>simp add: dir_entries_def\<close>)
        qed (use e F m2(1) in \<open>simp add: dir_entries_def\<close>)
      qed
      ultimately have frame: "\<forall>e. e \<noteq> d \<longrightarrow> dir_entries s2 e = dir_entries s e" "\<forall>e. file_data s2 e = file_data s e"
        by simp_all
      have types: "nodes_kept s s2" using fresh d(1) m2(1) c(5) by (auto simp: nodes_kept_def split: if_splits)
      have this_dir: "dir_entries s2 d = (name, p) # dir_entries s d"
        using child_added_this(1) [OF A] c(1) len by simp
      show ?thesis
        by (rule exI [where x = 0], rule exI [where x = "Some p"], rule exI [where x = s2], rule exI [where x = L1])
          (intro conjI run ok2 child_added_dir_inv [OF A] frame disjI1 exI [where x = p] refl None this_dir types)
    qed
  qed
qed

text \<open>The two ways to make an entry meet the contract of directories.\<close>

fun ramfs_dir :: "heap_view \<Rightarrow> 'a ramfs_state_scheme \<Rightarrow> u64 \<Rightarrow> bool" where
  "ramfs_dir (lo, hi, L) s d \<longleftrightarrow> ramfs_ok s lo hi L \<and> dir_inv s \<and>
     (\<exists>n. ramfs_nodes s d = Some n \<and> vn_type (rn_vnode n) = VNODE_TYPE_DIR)"

lemma ramfs_dir_lookup:
  assumes "ramfs_dir i s d"
  shows "ramfs_lookup d name s =
    Some (case map_of (dir_entries s d) name of None \<Rightarrow> (- 1, None) | Some p \<Rightarrow> (0, Some p))"
proof -
  obtain lo hi L where i: "i = (lo, hi, L)" by (cases i)
  with assms obtain n where n: "ramfs_ok s lo hi L" "dir_inv s" "ramfs_nodes s d = Some n"
    "vn_type (rn_vnode n) = VNODE_TYPE_DIR" by auto
  have "d \<noteq> NULL" using ramfs_okD(2) [OF n(1,3)] by (simp add: ramfs_node_ok_def)
  with ramfs_lookup_entries [OF n(2-4)] show ?thesis by blast
qed

lemma ramfs_dir_new_child:
  assumes "ramfs_dir i s d" "length name \<le> 63"
  shows "\<exists>r q s' i'. ramfs_new_child t d name s = Some (r, q, s') \<and>
    (\<forall>e. ramfs_dir i s e \<longrightarrow> ramfs_dir i' s' e) \<and> (\<forall>e. e \<noteq> d \<longrightarrow> dir_entries s' e = dir_entries s e) \<and>
    (r = 0 \<and> map_of (dir_entries s d) name = None \<and> (\<exists>p. q = Some p \<and> dir_entries s' d = (name, p) # dir_entries s d) \<or>
     r = - 1 \<and> q = None \<and> dir_entries s' d = dir_entries s d)"
proof -
  obtain lo hi L where i: "i = (lo, hi, L)" by (cases i)
  with assms(1) obtain n where n: "ramfs_ok s lo hi L" "dir_inv s" "ramfs_nodes s d = Some n"
    "vn_type (rn_vnode n) = VNODE_TYPE_DIR" by auto
  from ramfs_new_child_refines [OF n assms(2), of t] obtain r q s' L' where
    r: "ramfs_new_child t d name s = Some (r, q, s')" "ramfs_ok s' lo hi L'" "dir_inv s'"
    "nodes_kept s s'"
    "\<forall>e. e \<noteq> d \<longrightarrow> dir_entries s' e = dir_entries s e"
    "r = 0 \<and> map_of (dir_entries s d) name = None \<and> (\<exists>p. q = Some p \<and> dir_entries s' d = (name, p) # dir_entries s d) \<or>
     r = - 1 \<and> q = None \<and> dir_entries s' d = dir_entries s d" by blast
  have "ramfs_dir (lo, hi, L') s' e" if "ramfs_dir i s e" for e
    using that i r(2-4) by (fastforce simp: nodes_kept_def)
  with r(1,5,6) show ?thesis by blast
qed

interpretation ramfs_files: directory ramfs_lookup ramfs_create dir_entries ramfs_dir
  unfolding ramfs_create_def
  by unfold_locales (rule ramfs_dir_lookup ramfs_dir_new_child; assumption)+

interpretation ramfs_dirs: directory ramfs_lookup ramfs_mkdir dir_entries ramfs_dir
  unfolding ramfs_mkdir_def
  by unfold_locales (rule ramfs_dir_lookup ramfs_dir_new_child; assumption)+


text \<open>C24: A file that was created is found under its name in that directory, and every other lookup
  answers as before.\<close>

theorem ramfs_create_lookup:
  assumes "ramfs_dir i s d" "length name \<le> 63" "ramfs_create d name s = Some (0, q, s')" "ramfs_dir i s e"
  shows "ramfs_lookup d name s' = Some (0, q) \<and>
    (e \<noteq> d \<or> name' \<noteq> name \<longrightarrow> ramfs_lookup e name' s' = ramfs_lookup e name' s)"
  using ramfs_files.make_lookup [OF assms(1-3)] ramfs_files.make_lookup_other [OF assms] by blast

text \<open>C25: A directory is listed completely and once: after the two entries for itself and its parent come
  its entries, in order, and then the end.\<close>

theorem ramfs_readdir_lists:
  assumes "dir_inv s" "ramfs_nodes s d = Some n" "vn_type (rn_vnode n) = VNODE_TYPE_DIR" "d \<noteq> NULL"
    and "i + 3 < 2 ^ 64"
  shows "\<exists>r e. ramfs_readdir d (of_nat (i + 2)) s = Some (r, e) \<and>
    (if i < length (dir_entries s d)
     then r = 0 \<and> (\<exists>x. e = Some x \<and> (de_name x, de_ino x) = dir_entries s d ! i \<and> de_off x = of_nat (i + 3))
     else r = - 1 \<and> e = None)"
proof -
  from assms(1-3) obtain ps where ps: "linked rn_next (ramfs_nodes s) (rn_children n) ps"
    "dir_entries s d = map (\<lambda>p. (rn_name (the (ramfs_nodes s p)), p)) ps" by (rule dir_invE)
  have u: "unat (of_nat (i + 2) :: u64) = i + 2" using assms(5) by (simp only: unat_of_nat) simp
  then have "(of_nat (i + 2) :: u64) \<noteq> 0" "(of_nat (i + 2) :: u64) \<noteq> 1"
    by (metis unat_0 add_2_eq_Suc' nat.distinct(1)) (metis u unat_1 add_2_eq_Suc' One_nat_def Suc_inject nat.distinct(1))
  moreover have "unat (of_nat (i + 2) - 2 :: u64) = i"
  proof -
    have "(of_nat (i + 2) - 2 :: u64) = of_nat i" by simp
    then show ?thesis using assms(5) by (simp add: unat_of_nat)
  qed
  moreover have "(of_nat (i + 2) :: u64) + 1 = of_nat (i + 3)" by simp
  moreover have "linked rn_next (ramfs_nodes s) (rn_children n) ps \<Longrightarrow> i < length ps \<Longrightarrow>
      ps ! i \<noteq> NULL \<and> (\<exists>c. ramfs_nodes s (ps ! i) = Some c)" by (rule linked_in) auto
  ultimately show ?thesis
    using assms(2-4) ps by (auto simp: ramfs_readdir_def list_skip_linked simp del: of_nat_add)
qed

text \<open>A name that does not fit is cut when the file is made and then not found.\<close>

lemma ramfs_long_name_lost:
  assumes "ramfs_dir i s d" "\<And>n p. (n, p) \<in> set (dir_entries s d) \<Longrightarrow> length n \<le> 63" "63 < length name"
  shows "ramfs_lookup d name s = Some (- 1, None)"
proof -
  have "map_of (dir_entries s d) name = None"
    using assms(2,3) by (force simp: map_of_eq_None_iff)
  with ramfs_dir_lookup [OF assms(1)] show ?thesis by simp
qed

text \<open>A root directory with no entries, for the witnesses.\<close>

definition example_root :: ramfs_state where
  "example_root = example_ramfs\<lparr>ramfs_nodes := [0x100018 \<mapsto> example_node VNODE_TYPE_DIR []]\<rparr>"

lemma example_root_ok: "ramfs_ok example_root 0x100000 0x1100B8 {(0x100018, 136)}"
  by (rule ramfs_ok_cong [where s = example_ramfs])
    (use example_ramfs_ready in \<open>auto simp: example_root_def example_ramfs_def example_node_def ramfs_ok_def heap_at_def heap_rel_def\<close>)

lemma example_root_dir: "dir_inv example_root"
  by (auto simp: dir_inv_def example_root_def example_node_def dir_list_ok_def split: if_splits intro!: exI [where x = "[]"])

lemma example_root_node: "ramfs_nodes example_root 0x100018 = Some (example_node VNODE_TYPE_DIR [])"
  "vn_type (rn_vnode (example_node VNODE_TYPE_DIR [])) = VNODE_TYPE_DIR"
  by (simp_all add: example_root_def example_node_def)


theorem ramfs_readdir_lists_witness:
  "\<exists>r e. ramfs_readdir 0x100018 (of_nat (0 + 2)) example_root = Some (r, e) \<and>
    (if 0 < length (dir_entries example_root 0x100018)
     then r = 0 \<and> (\<exists>x. e = Some x \<and> (de_name x, de_ino x) = dir_entries example_root 0x100018 ! 0 \<and> de_off x = of_nat (0 + 3))
     else r = - 1 \<and> e = None)"
  by (rule ramfs_readdir_lists [OF example_root_dir example_root_node]) simp_all

theorem ramfs_create_lookup_witness:
  "\<exists>q s'. ramfs_create 0x100018 [0x61] example_root = Some (0, q, s') \<and> ramfs_lookup 0x100018 [0x61] s' = Some (0, q) \<and>
    ((0x100018 :: u64) \<noteq> 0x100018 \<or> [0x62 :: u8] \<noteq> [0x61] \<longrightarrow>
       ramfs_lookup 0x100018 [0x62] s' = ramfs_lookup 0x100018 [0x62] example_root)"
proof -
  have i: "ramfs_dir (0x100000, 0x1100B8, {(0x100018, 136)}) example_root 0x100018"
    using example_root_ok example_root_dir example_root_node by auto
  have "\<exists>q s'. ramfs_create 0x100018 [0x61] example_root = Some (0, q, s')"
    by (simp add: ramfs_create_def ramfs_new_child_def ramfs_find_child_def ramfs_create_node_def ramfs_add_child_def
        malloc_def malloc_loop.simps example_root_def example_ramfs_def example_node_def list_find.simps)
  then obtain q s' where c: "ramfs_create 0x100018 [0x61] example_root = Some (0, q, s')" by blast
  have "length [0x61 :: u8] \<le> 63" by simp
  from ramfs_create_lookup [OF i this c i, of "[0x62]"] c show ?thesis by blast
qed

end
