(* ===== verification/Tarfs.thy ===== *)
theory Tarfs
  imports Ramfs
begin

text \<open>
  The read-only file system over a tar archive in memory, \<^verbatim>\<open>src/fs/tarfs.c\<close>: the parser
  that builds a tree of nodes from the headers of the archive, and the operations on that
  tree, which follow symbolic links. The contents of a file stay in the image.

  Strings with an explicit length are lists of bytes. Walking a path and following a link call
  each other; the depth of links is bounded by the code, and the model counts what is left of it.
\<close>

section \<open>The code\<close>

record tarfs_node =
  tn_vnode :: vnode
  tn_name :: "u8 list"
  tn_parent :: u64
  tn_children :: u64
  tn_next :: u64
  tn_data :: u64
  tn_link_target :: "u8 list"
  tn_ino :: u64
  tn_symlink :: bool

record tar_header =
  th_name :: "u8 list"
  th_size :: "u8 list"
  th_typeflag :: u8
  th_linkname :: "u8 list"
  th_prefix :: "u8 list"

record tarfs_state = ramfs_state +
  tarfs_nodes :: "u64 \<rightharpoonup> tarfs_node"
  tarfs_image :: u64
  tarfs_image_size :: u64

abbreviation SIZEOF_TARFS_NODE :: u64 where "SIZEOF_TARFS_NODE \<equiv> 600"
abbreviation (input) TARFS_MAX_SYMLINK_DEPTH :: nat where "TARFS_MAX_SYMLINK_DEPTH \<equiv> 8"
abbreviation (input) SLASH :: u8 where "SLASH \<equiv> 0x2F"
abbreviation (input) DOT :: u8 where "DOT \<equiv> 0x2E"

definition tarfs_set_image :: "u64 \<Rightarrow> u64 \<Rightarrow> 'a tarfs_state_scheme \<Rightarrow> 'a tarfs_state_scheme" where
  "tarfs_set_image data sz s = s\<lparr>tarfs_image := data, tarfs_image_size := sz\<rparr>"

text \<open>The fields of the packed header that the code reads, at their offsets.\<close>

definition tar_header_at :: "bytes_mem \<Rightarrow> u64 \<Rightarrow> tar_header" where
  "tar_header_at m a = \<lparr>th_name = load_bytes m a 100, th_size = load_bytes m (a + 124) 12,
     th_typeflag = m (a + 156), th_linkname = load_bytes m (a + 157) 100, th_prefix = load_bytes m (a + 345) 155\<rparr>"

fun oct_loop :: "u64 \<Rightarrow> u8 list \<Rightarrow> u64" where
  "oct_loop v [] = v"
| "oct_loop v (c # cs) = (if 0x30 \<le> c \<and> c \<le> 0x37 then oct_loop (push_bit 3 v + ucast (c - 0x30)) cs else v)"

definition tarfs_oct2u64 :: "u8 list \<Rightarrow> u64" where
  "tarfs_oct2u64 s = oct_loop 0 s"

definition tarfs_align_up :: "u64 \<Rightarrow> u64" where
  "tarfs_align_up n = (n + 511) AND NOT 511"

definition tarfs_strn :: "u8 list \<Rightarrow> nat \<Rightarrow> u8 list" where
  "tarfs_strn s n = takeWhile (\<lambda>c. c \<noteq> 0) (take n s)"

definition tarfs_block_is_zero :: "u8 list \<Rightarrow> bool" where
  "tarfs_block_is_zero b = list_all (\<lambda>c. c = 0) (take 512 b)"

fun strip_dots :: "u8 list \<Rightarrow> u8 list" where
  "strip_dots (a # b # p) = (if a = 0x2E \<and> b = 0x2F then strip_dots p else a # b # p)"
| "strip_dots p = p"

definition tarfs_strip :: "u8 list \<Rightarrow> u8 list" where
  "tarfs_strip p = dropWhile (\<lambda>c. c = SLASH) (strip_dots (rev (dropWhile (\<lambda>c. c = SLASH) (rev p))))"

definition tarfs_copy_link_target :: "nat \<Rightarrow> u8 list \<Rightarrow> u8 list" where
  "tarfs_copy_link_target dst_size src = take (dst_size - 1) (tarfs_strn src (length src))"

text \<open>The components of a path between its slashes.\<close>

function path_parts :: "u8 list \<Rightarrow> u8 list list" where
  "path_parts p = (case dropWhile (\<lambda>c. c = SLASH) p of [] \<Rightarrow> []
     | c # cs \<Rightarrow> takeWhile (\<lambda>c. c \<noteq> SLASH) (c # cs) # path_parts (dropWhile (\<lambda>c. c \<noteq> SLASH) cs))"
  by auto
termination
proof (relation "measure length", simp, goal_cases)
  case (1 p c cs)
  have "length (dropWhile (\<lambda>c. c \<noteq> SLASH) cs) \<le> length cs" by (rule length_dropWhile_le)
  moreover have "length (c # cs) \<le> length p" using length_dropWhile_le 1 by metis
  ultimately show ?case by simp
qed

declare path_parts.simps [simp del]

definition tarfs_create_node ::
  "u8 list \<Rightarrow> vnode_type \<Rightarrow> 'a tarfs_state_scheme \<Rightarrow> (u64 \<times> 'a tarfs_state_scheme) option" where
  "tarfs_create_node name type s = do {
     (node, s) \<leftarrow> malloc SIZEOF_TARFS_NODE s;
     Some (if node = NULL then (NULL, s)
       else (node, s\<lparr>tarfs_nodes := (tarfs_nodes s)(node \<mapsto>
         \<lparr>tn_vnode = \<lparr>vn_ops = Some TARFS_OPS, vn_type = type, vn_size = 0, vn_mount = NULL, vn_private = NULL\<rparr>,
          tn_name = take 255 name, tn_parent = NULL, tn_children = NULL, tn_next = NULL, tn_data = NULL,
          tn_link_target = [], tn_ino = node, tn_symlink = False\<rparr>)\<rparr>)) }"

definition tarfs_find_child :: "(u64 \<rightharpoonup> tarfs_node) \<Rightarrow> u64 \<Rightarrow> u8 list \<Rightarrow> u64 option" where
  "tarfs_find_child m parent name =
     (if parent = NULL then Some NULL
      else do {
        p \<leftarrow> m parent;
        list_find tn_next (\<lambda>_ n. tn_name n = name) m (tn_children p) })"

definition tarfs_add_child :: "u64 \<Rightarrow> u64 \<Rightarrow> 'a tarfs_state_scheme \<Rightarrow> 'a tarfs_state_scheme option" where
  "tarfs_add_child parent child s =
     (if parent = NULL \<or> child = NULL then Some s
      else do {
        p \<leftarrow> tarfs_nodes s parent;
        c \<leftarrow> tarfs_nodes s child;
        let m = (tarfs_nodes s)(child \<mapsto> c\<lparr>tn_next := tn_children p\<rparr>);
        p \<leftarrow> m parent;
        let m = m(parent \<mapsto> p\<lparr>tn_children := child\<rparr>);
        c \<leftarrow> m child;
        Some (s\<lparr>tarfs_nodes := m(child \<mapsto> c\<lparr>tn_parent := parent\<rparr>)\<rparr>) })"

fun tarfs_resolve_parts ::
  "u64 \<Rightarrow> u8 list list \<Rightarrow> 'a tarfs_state_scheme \<Rightarrow> (u64 \<times> 'a tarfs_state_scheme) option" where
  "tarfs_resolve_parts cur [] s = Some (cur, s)"
| "tarfs_resolve_parts cur (part # parts) s = do {
     child \<leftarrow> tarfs_find_child (tarfs_nodes s) cur part;
     if child \<noteq> NULL then tarfs_resolve_parts child parts s
     else do {
       (child, s) \<leftarrow> tarfs_create_node part VNODE_TYPE_DIR s;
       if child = NULL then Some (NULL, s)
       else do {
         s \<leftarrow> tarfs_add_child cur child s;
         tarfs_resolve_parts child parts s } } }"

definition tarfs_resolve_dir_path ::
  "u64 \<Rightarrow> u8 list \<Rightarrow> 'a tarfs_state_scheme \<Rightarrow> (u64 \<times> 'a tarfs_state_scheme) option" where
  "tarfs_resolve_dir_path root path s = tarfs_resolve_parts root (path_parts path) s"

text \<open>\<^verbatim>\<open>while (cur->parent) cur = cur->parent;\<close>\<close>

partial_function (option) tarfs_top :: "(u64 \<rightharpoonup> tarfs_node) \<Rightarrow> u64 \<Rightarrow> u64 option" where
  "tarfs_top m cur = do {
     n \<leftarrow> m cur;
     if tn_parent n = NULL then Some cur else tarfs_top m (tn_parent n) }"

fun tarfs_walk_parts ::
  "(u64 \<Rightarrow> u64 option) \<Rightarrow> (u64 \<rightharpoonup> tarfs_node) \<Rightarrow> u64 \<Rightarrow> u8 list list \<Rightarrow> u64 option" where
  "tarfs_walk_parts follow m cur [] = Some cur"
| "tarfs_walk_parts follow m cur (part # parts) = do {
     n \<leftarrow> m cur;
     if vn_type (tn_vnode n) \<noteq> VNODE_TYPE_DIR then Some NULL
     else if part = [DOT] then tarfs_walk_parts follow m cur parts
     else if part = [DOT, DOT]
     then tarfs_walk_parts follow m (if tn_parent n \<noteq> NULL then tn_parent n else cur) parts
     else do {
       child \<leftarrow> tarfs_find_child m cur part;
       cur \<leftarrow> follow child;
       if cur = NULL then Some NULL else tarfs_walk_parts follow m cur parts } }"

definition tarfs_walk_with ::
  "(u64 \<Rightarrow> u64 option) \<Rightarrow> (u64 \<rightharpoonup> tarfs_node) \<Rightarrow> u64 \<Rightarrow> u8 list \<Rightarrow> u64 option" where
  "tarfs_walk_with follow m start path = do {
     cur \<leftarrow> (case path of c # _ \<Rightarrow> if c = SLASH then tarfs_top m start else Some start | [] \<Rightarrow> Some start);
     tarfs_walk_parts follow m cur (path_parts path) }"

text \<open>The first argument is how many more links may be followed.\<close>

primrec tarfs_follow_left :: "nat \<Rightarrow> (u64 \<rightharpoonup> tarfs_node) \<Rightarrow> u64 \<Rightarrow> u64 option" where
  "tarfs_follow_left 0 m p =
     (if p = NULL then Some NULL
      else do { n \<leftarrow> m p; Some (if tn_symlink n then NULL else p) })"
| "tarfs_follow_left (Suc k) m p =
     (if p = NULL then Some NULL
      else do {
        n \<leftarrow> m p;
        if \<not> tn_symlink n then Some p
        else tarfs_walk_with (tarfs_follow_left k m) m (tn_parent n) (tn_link_target n) })"

definition tarfs_follow :: "(u64 \<rightharpoonup> tarfs_node) \<Rightarrow> u64 \<Rightarrow> nat \<Rightarrow> u64 option" where
  "tarfs_follow m p depth = tarfs_follow_left (TARFS_MAX_SYMLINK_DEPTH - depth) m p"

definition tarfs_walk :: "(u64 \<rightharpoonup> tarfs_node) \<Rightarrow> u64 \<Rightarrow> u8 list \<Rightarrow> nat \<Rightarrow> u64 option" where
  "tarfs_walk m start path depth = tarfs_walk_with (\<lambda>p. tarfs_follow m p depth) m start path"

definition tarfs_readdir ::
  "u64 \<Rightarrow> u64 \<Rightarrow> 'a tarfs_state_scheme \<Rightarrow> (int \<times> vfs_dirent option) option" where
  "tarfs_readdir node index s =
     (if node = NULL then Some (- 1, None)
      else do {
        dir \<leftarrow> tarfs_nodes s node;
        if vn_type (tn_vnode dir) \<noteq> VNODE_TYPE_DIR then Some (- 1, None)
        else if index < 2 then do {
          t \<leftarrow> tarfs_nodes s (if index = 1 \<and> tn_parent dir \<noteq> NULL then tn_parent dir else node);
          Some (0, Some \<lparr>de_ino = tn_ino t, de_off = index + 1, de_type = 4,
                         de_name = (if index \<noteq> 0 then [DOT, DOT] else [DOT])\<rparr>) }
        else do {
          child \<leftarrow> list_skip tn_next (tarfs_nodes s) (tn_children dir) (unat (index - 2));
          if child = NULL then Some (- 1, None)
          else do {
            c \<leftarrow> tarfs_nodes s child;
            r \<leftarrow> tarfs_follow (tarfs_nodes s) child 0;
            t \<leftarrow> tarfs_nodes s (if r = NULL then child else r);
            Some (0, Some \<lparr>de_ino = tn_ino t, de_off = index + 1,
                           de_type = (if vn_type (tn_vnode t) = VNODE_TYPE_DIR then 4 else 8),
                           de_name = tn_name c\<rparr>) } } })"

definition tarfs_lookup :: "u64 \<Rightarrow> u8 list \<Rightarrow> 'a tarfs_state_scheme \<Rightarrow> (int \<times> u64 option) option" where
  "tarfs_lookup parent name s =
     (if parent = NULL then Some (- 1, None)
      else do {
        p \<leftarrow> tarfs_nodes s parent;
        if vn_type (tn_vnode p) \<noteq> VNODE_TYPE_DIR then Some (- 1, None)
        else do {
          child \<leftarrow> tarfs_find_child (tarfs_nodes s) parent name;
          found \<leftarrow> tarfs_follow (tarfs_nodes s) child 0;
          Some (if found = NULL then (- 1, None) else (0, Some found)) } })"

definition tarfs_read ::
  "u64 \<Rightarrow> u64 \<Rightarrow> u64 \<Rightarrow> u64 \<Rightarrow> 'a tarfs_state_scheme \<Rightarrow> (int \<times> u64 option \<times> 'a tarfs_state_scheme) option" where
  "tarfs_read node buffer sz offset s =
     (if node = NULL \<or> buffer = NULL then Some (- 1, None, s)
      else do {
        n \<leftarrow> tarfs_nodes s node;
        if vn_type (tn_vnode n) \<noteq> VNODE_TYPE_FILE then Some (- 1, None, s)
        else if tn_data n = NULL \<or> vn_size (tn_vnode n) \<le> offset then Some (0, Some 0, s)
        else do {
          let sz = (if vn_size (tn_vnode n) < offset + sz then vn_size (tn_vnode n) - offset else sz);
          Some (0, Some sz, s\<lparr>kbytes := memcpy buffer (tn_data n + offset) sz (kbytes s)\<rparr>) } })"

definition tarfs_create ::
  "u64 \<Rightarrow> u8 list \<Rightarrow> 'a tarfs_state_scheme \<Rightarrow> (int \<times> u64 option \<times> 'a tarfs_state_scheme) option" where
  "tarfs_create p n s = Some (- 1, None, s)"

definition tarfs_mkdir ::
  "u64 \<Rightarrow> u8 list \<Rightarrow> 'a tarfs_state_scheme \<Rightarrow> (int \<times> u64 option \<times> 'a tarfs_state_scheme) option" where
  "tarfs_mkdir p n s = Some (- 1, None, s)"

definition tarfs_write ::
  "u64 \<Rightarrow> u64 \<Rightarrow> u64 \<Rightarrow> u64 \<Rightarrow> 'a tarfs_state_scheme \<Rightarrow> (int \<times> u64 option \<times> 'a tarfs_state_scheme) option" where
  "tarfs_write n b sz off s = Some (- 1, None, s)"

section \<open>The archive\<close>

definition tarfs_build_path :: "tar_header \<Rightarrow> nat \<Rightarrow> u8 list" where
  "tarfs_build_path h cap =
     (let prefix = tarfs_strn (th_prefix h) 155;
          name = tarfs_strn (th_name h) 100;
          out = (if prefix \<noteq> [] then
                   (let p = take cap prefix in if length p < cap then p @ [SLASH] else p) else [])
      in out @ take (cap - length out) name)"

definition tarfs_add_entry ::
  "u64 \<Rightarrow> u64 \<Rightarrow> u8 list \<Rightarrow> tar_header \<Rightarrow> u64 \<Rightarrow> u64 \<Rightarrow> 'a tarfs_state_scheme \<Rightarrow> 'a tarfs_state_scheme option" where
  "tarfs_add_entry root parent base h data sz s =
     (if th_typeflag h = 0x35 then do {
        (n, s) \<leftarrow> tarfs_create_node base VNODE_TYPE_DIR s;
        if n = NULL then Some s else tarfs_add_child parent n s }
      else if th_typeflag h = 0x32 then do {
        (n, s) \<leftarrow> tarfs_create_node base VNODE_TYPE_FILE s;
        if n = NULL then Some s else do {
          x \<leftarrow> tarfs_nodes s n;
          tarfs_add_child parent n (s\<lparr>tarfs_nodes := (tarfs_nodes s)(n \<mapsto>
            x\<lparr>tn_symlink := True, tn_link_target := tarfs_copy_link_target 256 (th_linkname h)\<rparr>)\<rparr>) } }
      else if th_typeflag h = 0x31 then do {
        t \<leftarrow> tarfs_walk (tarfs_nodes s) root (tarfs_strip (tarfs_strn (th_linkname h) 100)) 0;
        if t = NULL then Some s else do {
          y \<leftarrow> tarfs_nodes s t;
          if vn_type (tn_vnode y) = VNODE_TYPE_DIR then Some s else do {
            (n, s) \<leftarrow> tarfs_create_node base (vn_type (tn_vnode y)) s;
            if n = NULL then Some s else do {
              x \<leftarrow> tarfs_nodes s n;
              tarfs_add_child parent n (s\<lparr>tarfs_nodes := (tarfs_nodes s)(n \<mapsto>
                x\<lparr>tn_vnode := (tn_vnode x)\<lparr>vn_size := vn_size (tn_vnode y)\<rparr>,
                  tn_data := tn_data y, tn_ino := tn_ino y\<rparr>)\<rparr>) } } } }
      else do {
        (n, s) \<leftarrow> tarfs_create_node base VNODE_TYPE_FILE s;
        if n = NULL then Some s else do {
          x \<leftarrow> tarfs_nodes s n;
          tarfs_add_child parent n (s\<lparr>tarfs_nodes := (tarfs_nodes s)(n \<mapsto>
            x\<lparr>tn_data := data, tn_vnode := (tn_vnode x)\<lparr>vn_size := sz\<rparr>\<rparr>)\<rparr>) } })"

text \<open>What the parser does with one header: the path is split at its last slash.\<close>

definition tarfs_parse_entry ::
  "u64 \<Rightarrow> tar_header \<Rightarrow> u64 \<Rightarrow> u64 \<Rightarrow> 'a tarfs_state_scheme \<Rightarrow> 'a tarfs_state_scheme option" where
  "tarfs_parse_entry root h data sz s =
     (if th_typeflag h \<notin> {0, 0x30, 0x31, 0x32, 0x35} then Some s
      else let p = tarfs_strip (tarfs_build_path h 256);
               base = rev (takeWhile (\<lambda>c. c \<noteq> SLASH) (rev p));
               split = length p - length base
           in if base = [] then Some s
              else do {
                (parent, s) \<leftarrow> tarfs_resolve_dir_path root (take (split - 1) p) s;
                if parent = NULL then Some s
                else do {
                  found \<leftarrow> tarfs_find_child (tarfs_nodes s) parent base;
                  if found \<noteq> NULL then Some s
                  else tarfs_add_entry root parent base h data sz s } })"

partial_function (option) tarfs_parse_loop ::
  "u64 \<Rightarrow> u64 \<Rightarrow> 'a tarfs_state_scheme \<Rightarrow> 'a tarfs_state_scheme option" where
  "tarfs_parse_loop root offset s =
     (if \<not> offset + 512 \<le> tarfs_image_size s then Some s
      else if tarfs_block_is_zero (load_bytes (kbytes s) (tarfs_image s + offset) 512) then Some s
      else let h = tar_header_at (kbytes s) (tarfs_image s + offset);
               t = th_typeflag h;
               sz = (if t = 0x31 \<or> t = 0x32 then 0 else tarfs_oct2u64 (th_size h));
               offset = offset + 512
           in if tarfs_image_size s < offset + sz then Some s
              else do {
                s \<leftarrow> tarfs_parse_entry root h (tarfs_image s + offset) sz s;
                tarfs_parse_loop root (offset + tarfs_align_up sz) s })"

definition tarfs_parse_archive :: "u64 \<Rightarrow> 'a tarfs_state_scheme \<Rightarrow> 'a tarfs_state_scheme option" where
  "tarfs_parse_archive root s =
     (if tarfs_image s = NULL \<or> tarfs_image_size s < 512 then Some s else tarfs_parse_loop root 0 s)"

text \<open>Mounting: the root knows its mount, then the archive is parsed below it.\<close>

definition tarfs_mount_root :: "u64 \<Rightarrow> 'a tarfs_state_scheme \<Rightarrow> (u64 \<times> 'a tarfs_state_scheme) option" where
  "tarfs_mount_root mount s = do {
     (root, s) \<leftarrow> tarfs_create_node [] VNODE_TYPE_DIR s;
     if root = NULL then Some (NULL, s)
     else do {
       r \<leftarrow> tarfs_nodes s root;
       s \<leftarrow> tarfs_parse_archive root (s\<lparr>tarfs_nodes := (tarfs_nodes s)(root \<mapsto>
         r\<lparr>tn_vnode := (tn_vnode r)\<lparr>vn_mount := mount, vn_private := root\<rparr>\<rparr>)\<rparr>);
       Some (root, s) } }"

section \<open>The tree\<close>

text \<open>
  \<open>tar_ok s lo hi L\<close>: the heap is well formed, every node lies in memory in use, the children of
  every node form a list, parents lead to the root, only the root has none, so links have one,
  and the contents of every file lie inside the image.
\<close>

definition in_image :: "'a tarfs_state_scheme \<Rightarrow> tarfs_node \<Rightarrow> bool" where
  "in_image s n \<longleftrightarrow> tn_data n \<noteq> NULL \<longrightarrow> unat (tarfs_image s) \<le> unat (tn_data n) \<and>
     unat (tn_data n) + unat (vn_size (tn_vnode n)) \<le> unat (tarfs_image s) + unat (tarfs_image_size s)"

definition tar_node_ok :: "'a tarfs_state_scheme \<Rightarrow> (nat \<times> nat) set \<Rightarrow> (u64 \<Rightarrow> nat) \<Rightarrow> u64 \<Rightarrow> tarfs_node \<Rightarrow> bool" where
  "tar_node_ok s L rank p n \<longleftrightarrow> p \<noteq> NULL \<and> (\<exists>k. (unat p, k) \<in> L) \<and>
     (\<exists>ps. linked tn_next (tarfs_nodes s) (tn_children n) ps) \<and>
     (tn_parent n \<noteq> NULL \<longrightarrow> tarfs_nodes s (tn_parent n) \<noteq> None \<and> rank (tn_parent n) < rank p) \<and>
     (tn_symlink n \<longrightarrow> tn_parent n \<noteq> NULL) \<and> in_image s n"

definition tar_ok :: "'a tarfs_state_scheme \<Rightarrow> nat \<Rightarrow> nat \<Rightarrow> (nat \<times> nat) set \<Rightarrow> bool" where
  "tar_ok s lo hi L \<longleftrightarrow> heap_at s lo hi L \<and> unat (tarfs_image s) + unat (tarfs_image_size s) < 2 ^ 64 \<and>
     (\<exists>rank. \<forall>p n. tarfs_nodes s p = Some n \<longrightarrow> tar_node_ok s L rank p n)"

lemma tar_okD:
  assumes "tar_ok s lo hi L"
  shows "heap_at s lo hi L" "unat (tarfs_image s) + unat (tarfs_image_size s) < 2 ^ 64"
    "\<exists>rank. \<forall>p n. tarfs_nodes s p = Some n \<longrightarrow> tar_node_ok s L rank p n"
  using assms by (simp_all add: tar_ok_def)

text \<open>A pointer to a node, or NULL.\<close>

definition tar_ptr :: "(u64 \<rightharpoonup> tarfs_node) \<Rightarrow> u64 \<Rightarrow> bool" where
  "tar_ptr m p \<longleftrightarrow> p = NULL \<or> (\<exists>n. m p = Some n)"

lemma tar_find_child_ok:
  assumes ok: "tar_ok s lo hi L" and p: "tarfs_nodes s p = Some n"
  shows "\<exists>c. tarfs_find_child (tarfs_nodes s) p name = Some c \<and> tar_ptr (tarfs_nodes s) c"
proof -
  from tar_okD(3) [OF ok] obtain rank where r: "\<And>p n. tarfs_nodes s p = Some n \<Longrightarrow> tar_node_ok s L rank p n" by blast
  from r [OF p] obtain ps where ps: "linked tn_next (tarfs_nodes s) (tn_children n) ps" "p \<noteq> NULL"
    by (auto simp: tar_node_ok_def)
  have "tar_ptr (tarfs_nodes s) (case find P ps of None \<Rightarrow> NULL | Some p \<Rightarrow> p)" for P
    using linked_in [OF ps(1)] by (auto simp: tar_ptr_def find_Some_iff split: option.split)
  with ps p show ?thesis by (simp add: tarfs_find_child_def list_find_linked)
qed

lemma tar_top_ok:
  assumes ok: "tar_ok s lo hi L" and p: "tarfs_nodes s p = Some n"
  shows "\<exists>q x. tarfs_top (tarfs_nodes s) p = Some q \<and> tarfs_nodes s q = Some x \<and> tn_parent x = NULL"
proof -
  from tar_okD(3) [OF ok] obtain rank where r: "\<And>p n. tarfs_nodes s p = Some n \<Longrightarrow> tar_node_ok s L rank p n" by blast
  from p show ?thesis
  proof (induction "rank p" arbitrary: p n rule: less_induct)
    case less
    show ?case
    proof (cases "tn_parent n = NULL")
      case True
      with less.prems show ?thesis by (subst tarfs_top.simps) auto
    next
      case False
      with r [OF less.prems] obtain x where "tarfs_nodes s (tn_parent n) = Some x" "rank (tn_parent n) < rank p"
        by (auto simp: tar_node_ok_def)
      with less.hyps [OF this(2,1)] less.prems False show ?thesis by (subst tarfs_top.simps) auto
    qed
  qed
qed

text \<open>Walking a path ends, at a node or nowhere, and so does following a link.\<close>

lemma tar_walk_parts_ok:
  assumes ok: "tar_ok s lo hi L" and p: "tarfs_nodes s p = Some n"
    and f: "\<And>q. tar_ptr (tarfs_nodes s) q \<Longrightarrow> \<exists>r. follow q = Some r \<and> tar_ptr (tarfs_nodes s) r"
  shows "\<exists>r. tarfs_walk_parts follow (tarfs_nodes s) p parts = Some r \<and> tar_ptr (tarfs_nodes s) r"
  using p
proof (induction parts arbitrary: p n)
  case Nil
  then show ?case by (auto simp: tar_ptr_def)
next
  case (Cons part parts)
  from tar_okD(3) [OF ok] obtain rank where r: "\<And>p n. tarfs_nodes s p = Some n \<Longrightarrow> tar_node_ok s L rank p n" by blast
  from tar_find_child_ok [OF ok Cons.prems, of part] obtain c where
    c: "tarfs_find_child (tarfs_nodes s) p part = Some c" "tar_ptr (tarfs_nodes s) c" by blast
  from f [OF c(2)] obtain q where q: "follow c = Some q" "tar_ptr (tarfs_nodes s) q" by blast
  have up: "\<exists>x. tarfs_nodes s (if tn_parent n \<noteq> NULL then tn_parent n else p) = Some x"
    using r [OF Cons.prems] Cons.prems by (auto simp: tar_node_ok_def)
  have down: "q \<noteq> NULL \<Longrightarrow> \<exists>x. tarfs_nodes s q = Some x" using q(2) by (auto simp: tar_ptr_def)
  show ?case
    using Cons.prems Cons.IH [OF Cons.prems] up down Cons.IH c(1) q(1)
    by (auto simp: tar_ptr_def)
qed

lemma tar_walk_with_ok:
  assumes ok: "tar_ok s lo hi L" and p: "tarfs_nodes s p = Some n"
    and f: "\<And>q. tar_ptr (tarfs_nodes s) q \<Longrightarrow> \<exists>r. follow q = Some r \<and> tar_ptr (tarfs_nodes s) r"
  shows "\<exists>r. tarfs_walk_with follow (tarfs_nodes s) p path = Some r \<and> tar_ptr (tarfs_nodes s) r"
proof -
  from tar_top_ok [OF ok p] obtain q x where "tarfs_top (tarfs_nodes s) p = Some q" "tarfs_nodes s q = Some x" by blast
  with tar_walk_parts_ok [where parts = "path_parts path", OF ok p f]
    tar_walk_parts_ok [where parts = "path_parts path", OF ok this(2) f]
  show ?thesis by (auto simp: tarfs_walk_with_def split: list.split)
qed

lemma tar_follow_left_ok:
  assumes ok: "tar_ok s lo hi L" and p: "tar_ptr (tarfs_nodes s) p"
  shows "\<exists>r. tarfs_follow_left k (tarfs_nodes s) p = Some r \<and> tar_ptr (tarfs_nodes s) r"
  using p
proof (induction k arbitrary: p)
  case 0
  then show ?case by (auto simp: tar_ptr_def)
next
  case (Suc k)
  from tar_okD(3) [OF ok] obtain rank where r: "\<And>p n. tarfs_nodes s p = Some n \<Longrightarrow> tar_node_ok s L rank p n" by blast
  show ?case
  proof (cases "p = NULL")
    case False
    with Suc.prems obtain n where n: "tarfs_nodes s p = Some n" by (auto simp: tar_ptr_def)
    show ?thesis
    proof (cases "tn_symlink n")
      case True
      with r [OF n] obtain x where "tarfs_nodes s (tn_parent n) = Some x" by (auto simp: tar_node_ok_def)
      from tar_walk_with_ok [OF ok this Suc.IH] True n False show ?thesis by simp
    qed (use n False in \<open>simp add: tar_ptr_def\<close>)
  qed (simp add: tar_ptr_def)
qed

text \<open>The tree with one more node: a fresh one in front of the children of \<open>d\<close>.\<close>

lemma tar_ok_add:
  assumes ok: "tar_ok s lo hi L" and d: "tarfs_nodes s d = Some n" and fresh: "tarfs_nodes s p = None" "p \<noteq> NULL"
    and h: "heap_at s' lo hi (insert (unat p, k) L)"
    and img: "tarfs_image s' = tarfs_image s" "tarfs_image_size s' = tarfs_image_size s"
    and m: "tarfs_nodes s' = (tarfs_nodes s)(d \<mapsto> n\<lparr>tn_children := p\<rparr>, p \<mapsto> c\<lparr>tn_next := tn_children n, tn_parent := d\<rparr>)"
    and c: "tn_children c = NULL" "in_image s c"
  shows "tar_ok s' lo hi (insert (unat p, k) L)"
proof -
  from tar_okD(3) [OF ok] obtain rank where r: "\<And>p n. tarfs_nodes s p = Some n \<Longrightarrow> tar_node_ok s L rank p n" by blast
  have dp: "d \<noteq> p" using d fresh by auto
  have keep: "linked tn_next (tarfs_nodes s') x ps" if "linked tn_next (tarfs_nodes s) x ps" for x ps
  proof -
    have "p \<notin> set ps" using linked_in [OF that, of p] fresh by auto
    then have "map_option tn_next (tarfs_nodes s' q) = map_option tn_next (tarfs_nodes s q)" if "q \<in> set ps" for q
      using that d by (auto simp: m)
    from linked_cong [where m' = "tarfs_nodes s'" and m = "tarfs_nodes s" and nxt = tn_next, OF this] that
    show ?thesis by blast
  qed
  from r [OF d] obtain ps where ps: "linked tn_next (tarfs_nodes s) (tn_children n) ps" "d \<noteq> NULL"
    by (auto simp: tar_node_ok_def)
  have "linked tn_next (tarfs_nodes s') p (p # ps)"
    using keep [OF ps(1)] fresh(2) by (simp add: m)
  then have l: "\<exists>qs. linked tn_next (tarfs_nodes s') p qs" by blast
  let ?rank = "\<lambda>q. if q = p then Suc (rank d) else rank q"
  have "tar_node_ok s' (insert (unat p, k) L) ?rank q x" if q: "tarfs_nodes s' q = Some x" for q x
  proof -
    have par: "tarfs_nodes s' y \<noteq> None \<and> y \<noteq> p" if "tarfs_nodes s y \<noteq> None" for y
      using that fresh by (auto simp: m)
    consider "q = p" | "q = d" | "q \<noteq> p" "q \<noteq> d" by blast
    then show ?thesis
    proof cases
      case 1
      with q have "x = c\<lparr>tn_next := tn_children n, tn_parent := d\<rparr>" by (simp add: m)
      then show ?thesis using 1 fresh(2) c ps(2) dp par [of d] d img
        by (auto simp: tar_node_ok_def in_image_def intro: exI [where x = "[]"])
    next
      case 2
      with q dp have "x = n\<lparr>tn_children := p\<rparr>" by (simp add: m)
      then show ?thesis using 2 dp r [OF d] l par [of "tn_parent n"] img
        by (auto simp: tar_node_ok_def in_image_def)
    next
      case 3
      with q have "tarfs_nodes s q = Some x" by (simp add: m)
      from r [OF this] 3 show ?thesis using par [of "tn_parent x"] img keep
        by (auto simp: tar_node_ok_def in_image_def)
    qed
  qed
  with h tar_okD(2) [OF ok] img show ?thesis unfolding tar_ok_def by auto
qed

text \<open>The state after malloc: everything but the heap is as before.\<close>

lemma same_but_blocks_tarfs:
  assumes "same_but_blocks s s'"
  shows "tarfs_nodes s' = tarfs_nodes s" "tarfs_image s' = tarfs_image s" "tarfs_image_size s' = tarfs_image_size s"
    "kbytes s' = kbytes s"
proof -
  from assms have s': "s' = s\<lparr>hp_blocks := hp_blocks s'\<rparr>" by (simp add: same_but_blocks_def)
  show "tarfs_nodes s' = tarfs_nodes s" by (subst s') simp
  show "tarfs_image s' = tarfs_image s" by (subst s') simp
  show "tarfs_image_size s' = tarfs_image_size s" by (subst s') simp
  show "kbytes s' = kbytes s" by (subst s') simp
qed

lemma heap_at_tarfs_nodes [simp]: "heap_at (s\<lparr>tarfs_nodes := m\<rparr>) lo hi L = heap_at s lo hi L"
  by (simp add: heap_at_def heap_rel_def)

text \<open>What the parser may do to the state: allocate and add nodes; \<open>tar_step\<close> relates before and after.\<close>

definition tar_step :: "'a tarfs_state_scheme \<Rightarrow> 'a tarfs_state_scheme \<Rightarrow> bool" where
  "tar_step s s' \<longleftrightarrow> tarfs_image s' = tarfs_image s \<and> tarfs_image_size s' = tarfs_image_size s \<and> kbytes s' = kbytes s \<and>
     (\<forall>p n. tarfs_nodes s p = Some n \<longrightarrow> (\<exists>n'. tarfs_nodes s' p = Some n' \<and> tn_vnode n' = tn_vnode n))"

lemma tar_step_refl [simp]: "tar_step s s"
  by (simp add: tar_step_def)

lemma tar_step_trans: "tar_step s s' \<Longrightarrow> tar_step s' s'' \<Longrightarrow> tar_step s s''"
  unfolding tar_step_def by metis

text \<open>Making a node, filling it in with \<open>f\<close> and hanging it below \<open>d\<close>.\<close>

definition make_child ::
  "(tarfs_node \<Rightarrow> tarfs_node) \<Rightarrow> u64 \<Rightarrow> u8 list \<Rightarrow> vnode_type \<Rightarrow> 'a tarfs_state_scheme \<Rightarrow> (u64 \<times> 'a tarfs_state_scheme) option" where
  "make_child f d name t s = do {
     (c, s) \<leftarrow> tarfs_create_node name t s;
     if c = NULL then Some (NULL, s)
     else do {
       x \<leftarrow> tarfs_nodes s c;
       s \<leftarrow> tarfs_add_child d c (s\<lparr>tarfs_nodes := (tarfs_nodes s)(c \<mapsto> f x)\<rparr>);
       Some (c, s) } }"

lemma make_child_ok:
  assumes ok: "tar_ok s lo hi L" and d: "tarfs_nodes s d = Some n"
    and f: "\<And>x. tn_data x = NULL \<Longrightarrow> in_image s (f x)" "\<And>x. tn_children (f x) = tn_children x"
  shows "\<exists>c s' L'. make_child f d name t s = Some (c, s') \<and> tar_ok s' lo hi L' \<and> tar_step s s' \<and> tar_ptr (tarfs_nodes s') c"
proof -
  have "unat SIZEOF_TARFS_NODE + 7 < 2 ^ 64" by simp
  from malloc_at [OF tar_okD(1) [OF ok] this] obtain p s1 where s1: "malloc SIZEOF_TARFS_NODE s = Some (p, s1)"
    "same_but_blocks s s1" and g: "if p = NULL then heap_at s1 lo hi L
       else \<exists>k \<ge> unat SIZEOF_TARFS_NODE. heap_at s1 lo hi (insert (unat p, k) L) \<and> unat p \<notin> fst ` L" by blast
  note same = same_but_blocks_tarfs [OF s1(2)]
  from tar_okD(3) [OF ok] obtain rank where r: "\<And>p n. tarfs_nodes s p = Some n \<Longrightarrow> tar_node_ok s L rank p n" by blast
  show ?thesis
  proof (cases "p = NULL")
    case True
    have "tar_node_ok s1 L rank q x = tar_node_ok s L rank q x" for q x
      using same by (simp add: tar_node_ok_def in_image_def)
    with True g tar_okD(2) [OF ok] r same have "tar_ok s1 lo hi L"
      unfolding tar_ok_def by (intro conjI exI [where x = rank]) simp_all
    with True s1(1) same show ?thesis
      by (auto simp: make_child_def tarfs_create_node_def tar_step_def tar_ptr_def)
  next
    case False
    with g obtain k where k: "heap_at s1 lo hi (insert (unat p, k) L)" "unat p \<notin> fst ` L" by auto
    have fresh: "tarfs_nodes s p = None"
    proof (rule ccontr)
      assume "tarfs_nodes s p \<noteq> None"
      then obtain x where "tarfs_nodes s p = Some x" by blast
      from r [OF this] k(2) show False by (force simp: tar_node_ok_def)
    qed
    let ?c = "\<lparr>tn_vnode = \<lparr>vn_ops = Some TARFS_OPS, vn_type = t, vn_size = 0, vn_mount = NULL, vn_private = NULL\<rparr>,
      tn_name = take 255 name, tn_parent = NULL, tn_children = NULL, tn_next = NULL, tn_data = NULL,
      tn_link_target = [], tn_ino = p, tn_symlink = False\<rparr>"
    let ?m = "(tarfs_nodes s)(d \<mapsto> n\<lparr>tn_children := p\<rparr>, p \<mapsto> (f ?c)\<lparr>tn_next := tn_children n, tn_parent := d\<rparr>)"
    let ?s2 = "s1\<lparr>tarfs_nodes := ?m\<rparr>"
    from d fresh have dp: "d \<noteq> p" by auto
    have dn: "d \<noteq> NULL" using r [OF d] by (simp add: tar_node_ok_def)
    have "make_child f d name t s = Some (p, ?s2)"
      using s1(1) False d dp dn same by (simp add: make_child_def tarfs_create_node_def tarfs_add_child_def fun_upd_twist)
    moreover have "tar_ok ?s2 lo hi (insert (unat p, k) L)"
      by (rule tar_ok_add [OF ok d fresh False]) (use k(1) same f(1) [of ?c] f(2) [of ?c] in simp_all)
    moreover have "tar_step s ?s2" using same d fresh by (auto simp: tar_step_def)
    ultimately show ?thesis by (auto simp: tar_ptr_def)
  qed
qed

lemma bind_case: "Option.bind x f = (case x of None \<Rightarrow> None | Some y \<Rightarrow> f y)"
  by (cases x) simp_all

lemma create_add_child:
  "do { (c, s1) \<leftarrow> tarfs_create_node name t s;
        if c = NULL then Some (NULL, s1) else do { s2 \<leftarrow> tarfs_add_child d c s1; Some (c, s2) } } =
   make_child (\<lambda>x. x) d name t s"
proof -
  have "s1\<lparr>tarfs_nodes := (tarfs_nodes s1)(c \<mapsto> x)\<rparr> = s1" if "tarfs_nodes s1 c = Some x" for s1 :: "'a tarfs_state_scheme" and c x
    using that by (cases s1) (simp add: map_upd_triv)
  moreover have "tarfs_add_child d c s1 = None" if "tarfs_nodes s1 c = None" "d \<noteq> NULL" "c \<noteq> NULL" for c and s1 :: "'a tarfs_state_scheme"
    using that by (simp add: tarfs_add_child_def bind_case split: option.split)
  ultimately show ?thesis
    by (auto simp: make_child_def tarfs_create_node_def bind_case split: option.split prod.split)
qed

lemma resolve_step:
  "tarfs_resolve_parts cur (part # parts) s = do {
     child \<leftarrow> tarfs_find_child (tarfs_nodes s) cur part;
     if child \<noteq> NULL then tarfs_resolve_parts child parts s
     else do {
       (child, s) \<leftarrow> make_child (\<lambda>x. x) cur part VNODE_TYPE_DIR s;
       if child = NULL then Some (NULL, s) else tarfs_resolve_parts child parts s } }"
  unfolding create_add_child [symmetric]
  by (auto simp: bind_case split: option.split prod.split)

lemma tar_resolve_ok:
  assumes "tar_ok s lo hi L" "tarfs_nodes s cur = Some n"
  shows "\<exists>p s' L'. tarfs_resolve_parts cur parts s = Some (p, s') \<and> tar_ok s' lo hi L' \<and> tar_step s s' \<and>
    tar_ptr (tarfs_nodes s') p"
  using assms
proof (induction parts arbitrary: s cur n L)
  case Nil
  then show ?case by (auto simp: tar_ptr_def)
next
  case (Cons part parts)
  from tar_find_child_ok [OF Cons.prems, of part] obtain c where
    c: "tarfs_find_child (tarfs_nodes s) cur part = Some c" "tar_ptr (tarfs_nodes s) c" by blast
  show ?case
  proof (cases "c = NULL")
    case False
    with c(2) obtain x where "tarfs_nodes s c = Some x" by (auto simp: tar_ptr_def)
    from Cons.IH [OF Cons.prems(1) this] c(1) False show ?thesis by simp
  next
    case True
    have f: "in_image s x" if "tn_data x = NULL" for x :: tarfs_node using that by (simp add: in_image_def)
    from make_child_ok [where f = "\<lambda>x. x", OF Cons.prems f refl, of part VNODE_TYPE_DIR] obtain c' s1 L1 where
      m: "make_child (\<lambda>x. x) cur part VNODE_TYPE_DIR s = Some (c', s1)" "tar_ok s1 lo hi L1" "tar_step s s1"
      "tar_ptr (tarfs_nodes s1) c'" by blast
    show ?thesis
    proof (cases "c' = NULL")
      case True
      with \<open>c = NULL\<close> c(1) m show ?thesis by (auto simp: resolve_step simp del: tarfs_resolve_parts.simps)
    next
      case F: False
      with m(4) obtain x where "tarfs_nodes s1 c' = Some x" by (auto simp: tar_ptr_def)
      from Cons.IH [OF m(2) this] obtain p s' L' where
        "tarfs_resolve_parts c' parts s1 = Some (p, s')" "tar_ok s' lo hi L'" "tar_step s1 s'" "tar_ptr (tarfs_nodes s') p"
        by blast
      then show ?thesis using True F c(1) m tar_step_trans [OF m(3)]
        by (auto simp: resolve_step simp del: tarfs_resolve_parts.simps)
    qed
  qed
qed

lemma tar_follow_ok:
  assumes "tar_ok s lo hi L" "tar_ptr (tarfs_nodes s) p"
  shows "\<exists>r. tarfs_follow (tarfs_nodes s) p d = Some r \<and> tar_ptr (tarfs_nodes s) r"
  unfolding tarfs_follow_def by (rule tar_follow_left_ok [OF assms])

lemma tar_walk_ok:
  assumes "tar_ok s lo hi L" "tarfs_nodes s p = Some n"
  shows "\<exists>r. tarfs_walk (tarfs_nodes s) p path d = Some r \<and> tar_ptr (tarfs_nodes s) r"
  unfolding tarfs_walk_def by (rule tar_walk_with_ok [OF assms]) (rule tar_follow_ok [OF assms(1)])

text \<open>Every kind of entry is a node that is filled in and hung below its parent.\<close>

lemma tar_add_entry_child:
  assumes ok: "tar_ok s lo hi L" and root: "tarfs_nodes s root = Some r"
    and img: "in_image s \<lparr>tn_vnode = \<lparr>vn_ops = None, vn_type = t0, vn_size = sz, vn_mount = m0, vn_private = p0\<rparr>,
      tn_name = n0, tn_parent = x0, tn_children = x1, tn_next = x2, tn_data = data, tn_link_target = l0, tn_ino = i0, tn_symlink = b0\<rparr>"
  shows "tarfs_add_entry root parent base h data sz s = Some s \<or>
    (\<exists>f t. tarfs_add_entry root parent base h data sz s = map_option snd (make_child f parent base t s) \<and>
       (\<forall>x. tn_data x = NULL \<longrightarrow> in_image s (f x)) \<and> (\<forall>x. tn_children (f x) = tn_children x))"
proof -
  have eq: "do { (n, s) \<leftarrow> tarfs_create_node base t s;
        if n = NULL then Some s else do { x \<leftarrow> tarfs_nodes s n;
          tarfs_add_child parent n (s\<lparr>tarfs_nodes := (tarfs_nodes s)(n \<mapsto> f x)\<rparr>) } } =
      map_option snd (make_child f parent base t s)" for f t
    by (auto simp: make_child_def bind_case split: option.split prod.split)
  have eq0: "do { (n, s) \<leftarrow> tarfs_create_node base t s; if n = NULL then Some s else tarfs_add_child parent n s } =
      map_option snd (make_child (\<lambda>x. x) parent base t s)" for t
    unfolding create_add_child [symmetric]
    by (auto simp: bind_case split: option.split prod.split)
  consider "th_typeflag h = 0x35" | "th_typeflag h = 0x32" | "th_typeflag h = 0x31"
    | "th_typeflag h \<notin> {0x35, 0x32, 0x31}" by blast
  then show ?thesis
  proof cases
    case 1
    have "tarfs_add_entry root parent base h data sz s = map_option snd (make_child (\<lambda>x. x) parent base VNODE_TYPE_DIR s)"
      unfolding eq0 [symmetric] by (simp add: tarfs_add_entry_def 1)
    then show ?thesis
      by (intro disjI2 exI [where x = "\<lambda>x. x"] exI [where x = VNODE_TYPE_DIR]) (simp add: in_image_def)
  next
    case 2
    let ?f = "\<lambda>x :: tarfs_node. x\<lparr>tn_symlink := True, tn_link_target := tarfs_copy_link_target 256 (th_linkname h)\<rparr>"
    have "tarfs_add_entry root parent base h data sz s = map_option snd (make_child ?f parent base VNODE_TYPE_FILE s)"
      unfolding eq [symmetric] by (simp add: tarfs_add_entry_def 2)
    then show ?thesis
      by (intro disjI2 exI [where x = ?f] exI [where x = VNODE_TYPE_FILE]) (simp add: in_image_def)
  next
    case 3
    let ?path = "tarfs_strip (tarfs_strn (th_linkname h) 100)"
    from tar_walk_ok [OF ok root] obtain q where
      q: "tarfs_walk (tarfs_nodes s) root ?path 0 = Some q" "tar_ptr (tarfs_nodes s) q" by blast
    show ?thesis
    proof (cases "q = NULL")
      case True
      with 3 q(1) show ?thesis by (simp add: tarfs_add_entry_def)
    next
      case False
      with q(2) obtain y where y: "tarfs_nodes s q = Some y" by (auto simp: tar_ptr_def)
      show ?thesis
      proof (cases "vn_type (tn_vnode y) = VNODE_TYPE_DIR")
        case True
        with 3 q(1) y False show ?thesis by (simp add: tarfs_add_entry_def)
      next
        case F: False
        let ?f = "\<lambda>x :: tarfs_node. x\<lparr>tn_vnode := (tn_vnode x)\<lparr>vn_size := vn_size (tn_vnode y)\<rparr>, tn_data := tn_data y, tn_ino := tn_ino y\<rparr>"
        have "in_image s y" using tar_okD(3) [OF ok] y by (auto simp: tar_node_ok_def)
        then have "in_image s (?f x)" for x by (simp add: in_image_def)
        moreover have "tarfs_add_entry root parent base h data sz s =
            map_option snd (make_child ?f parent base (vn_type (tn_vnode y)) s)"
          unfolding eq [symmetric] using 3 q(1) y False F by (simp add: tarfs_add_entry_def)
        ultimately show ?thesis
          by (intro disjI2 exI [where x = ?f] exI [where x = "vn_type (tn_vnode y)"]) simp
      qed
    qed
  next
    case 4
    let ?f = "\<lambda>x :: tarfs_node. x\<lparr>tn_data := data, tn_vnode := (tn_vnode x)\<lparr>vn_size := sz\<rparr>\<rparr>"
    have "tarfs_add_entry root parent base h data sz s = map_option snd (make_child ?f parent base VNODE_TYPE_FILE s)"
      unfolding eq [symmetric] using 4 by (simp add: tarfs_add_entry_def)
    with img show ?thesis
      by (intro disjI2 exI [where x = ?f] exI [where x = VNODE_TYPE_FILE]) (simp add: in_image_def)
  qed
qed

lemma tar_add_entry_ok:
  assumes ok: "tar_ok s lo hi L" and root: "tarfs_nodes s root = Some r" and d: "tarfs_nodes s parent = Some n"
    and img: "unat (tarfs_image s) \<le> unat data" "unat data + unat sz \<le> unat (tarfs_image s) + unat (tarfs_image_size s)"
  shows "\<exists>s' L'. tarfs_add_entry root parent base h data sz s = Some s' \<and> tar_ok s' lo hi L' \<and> tar_step s s'"
proof -
  have "in_image s \<lparr>tn_vnode = \<lparr>vn_ops = None, vn_type = VNODE_TYPE_FILE, vn_size = sz, vn_mount = 0, vn_private = 0\<rparr>,
      tn_name = [], tn_parent = 0, tn_children = 0, tn_next = 0, tn_data = data, tn_link_target = [], tn_ino = 0, tn_symlink = False\<rparr>"
    using img by (simp add: in_image_def)
  from tar_add_entry_child [OF ok root this] consider
    "tarfs_add_entry root parent base h data sz s = Some s"
  | f t where "tarfs_add_entry root parent base h data sz s = map_option snd (make_child f parent base t s)"
      "\<And>x. tn_data x = NULL \<Longrightarrow> in_image s (f x)" "\<And>x. tn_children (f x) = tn_children x" by blast
  then show ?thesis
  proof cases
    case 1
    with ok show ?thesis by auto
  next
    case (2 f t)
    from make_child_ok [OF ok d 2(2,3), of base t] 2(1) show ?thesis by fastforce
  qed
qed

lemma tar_parse_entry_ok:
  assumes ok: "tar_ok s lo hi L" and root: "tarfs_nodes s root = Some r"
    and img: "unat (tarfs_image s) \<le> unat data" "unat data + unat sz \<le> unat (tarfs_image s) + unat (tarfs_image_size s)"
  shows "\<exists>s' L'. tarfs_parse_entry root h data sz s = Some s' \<and> tar_ok s' lo hi L' \<and> tar_step s s'"
proof -
  let ?p = "tarfs_strip (tarfs_build_path h 256)"
  let ?base = "rev (takeWhile (\<lambda>c. c \<noteq> SLASH) (rev ?p))"
  from tar_resolve_ok [OF ok root, of "path_parts (take (length ?p - length ?base - 1) ?p)"] obtain d s1 L1 where
    d: "tarfs_resolve_dir_path root (take (length ?p - length ?base - 1) ?p) s = Some (d, s1)"
    "tar_ok s1 lo hi L1" "tar_step s s1" "tar_ptr (tarfs_nodes s1) d"
    unfolding tarfs_resolve_dir_path_def by blast
  show ?thesis
  proof (cases "d = NULL \<or> ?base = [] \<or> th_typeflag h \<notin> {0, 0x30, 0x31, 0x32, 0x35}")
    case True
    with d ok show ?thesis by (auto simp: tarfs_parse_entry_def Let_def)
  next
    case False
    with d(4) obtain n where n: "tarfs_nodes s1 d = Some n" by (auto simp: tar_ptr_def)
    from tar_find_child_ok [OF d(2) n, of ?base] obtain c where
      c: "tarfs_find_child (tarfs_nodes s1) d ?base = Some c" by blast
    from d(3) root obtain r1 where "tarfs_nodes s1 root = Some r1" by (auto simp: tar_step_def)
    from tar_add_entry_ok [OF d(2) this n, of data sz ?base h] img d(3) obtain s2 L2 where
      "tarfs_add_entry root d ?base h data sz s1 = Some s2" "tar_ok s2 lo hi L2" "tar_step s1 s2"
      by (auto simp: tar_step_def)
    with False c d tar_step_trans [OF d(3)] show ?thesis
      by (cases "c = NULL") (auto simp: tarfs_parse_entry_def Let_def)
  qed
qed

section \<open>Octal numbers\<close>

lemma oct_step:
  assumes "unat v * 8 + 8 \<le> 2 ^ 64" "0x30 \<le> c" "(c :: u8) \<le> 0x37"
  shows "unat (push_bit 3 v + ucast (c - 0x30) :: u64) = unat v * 8 + (unat c - 48)" "unat c - 48 < 8"
proof -
  have c: "unat (c - 0x30) = unat c - 48" "unat c \<le> 55" using assms(2,3)
    by (simp_all add: unat_sub word_le_nat_alt)
  then have "unat (ucast (c - 0x30) :: u64) = unat c - 48"
    by (simp add: unsigned_ucast_eq take_bit_nat_eq_self)
  moreover have "unat (push_bit 3 v :: u64) = unat v * 8"
  proof -
    have "push_bit 3 v = v * 8" by (simp add: push_bit_eq_mult)
    then show ?thesis using assms(1) by (simp add: unat_word_ariths)
  qed
  ultimately show "unat (push_bit 3 v + ucast (c - 0x30) :: u64) = unat v * 8 + (unat c - 48)"
    using assms(1) c(2) by (subst unat_plus_no_wrap) simp_all
  show "unat c - 48 < 8" using c(2) by simp
qed

lemma oct_loop_bound: "unat v < 8 ^ k \<Longrightarrow> k + length cs \<le> 21 \<Longrightarrow> unat (oct_loop v cs) < 8 ^ (k + length cs)"
proof (induction cs arbitrary: v k)
  case Nil
  then show ?case by simp
next
  case (Cons c cs)
  have p: "(8 :: nat) ^ k \<le> 8 ^ (k + length (c # cs))" by (rule power_increasing) simp_all
  show ?case
  proof (cases "0x30 \<le> c \<and> c \<le> 0x37")
    case True
    have "(8 :: nat) ^ Suc k \<le> 8 ^ 21" by (rule power_increasing) (use Cons.prems(2) in simp_all)
    then have "unat v * 8 + 8 \<le> 2 ^ 64" using Cons.prems(1) by simp
    from oct_step [OF this, of c] True Cons.prems(1)
    have "unat (push_bit 3 v + ucast (c - 0x30) :: u64) < 8 ^ Suc k" unfolding power_Suc by linarith
    from Cons.IH [OF this] Cons.prems(2) True show ?thesis by simp
  next
    case False
    then have "oct_loop v (c # cs) = v" by auto
    with Cons.prems(1) p show ?thesis by simp
  qed
qed

lemma tarfs_oct2u64_bound: "length cs \<le> 12 \<Longrightarrow> unat (tarfs_oct2u64 cs) < 2 ^ 36"
proof -
  assume l: "length cs \<le> 12"
  then have "unat (oct_loop 0 cs) < 8 ^ (0 + length cs)" by (intro oct_loop_bound) simp_all
  also have "(8 :: nat) ^ (0 + length cs) \<le> 8 ^ 12" by (rule power_increasing) (use l in simp_all)
  finally show ?thesis by (simp add: tarfs_oct2u64_def)
qed

text \<open>The octal digits of a number, most significant first, with the padding and the terminator of an archive.\<close>

fun oct_digits :: "nat \<Rightarrow> nat \<Rightarrow> u8 list" where
  "oct_digits 0 n = []"
| "oct_digits (Suc k) n = of_nat (48 + n div 8 ^ k mod 8) # oct_digits k n"

lemma oct_loop_digits:
  "n < 8 ^ k \<Longrightarrow> unat v * 8 ^ k + n < 2 ^ 61 \<Longrightarrow> unat (oct_loop v (oct_digits k n @ [0])) = unat v * 8 ^ k + n"
proof (induction k arbitrary: n v)
  case 0
  then show ?case by simp
next
  case (Suc k)
  let ?d = "n div 8 ^ k" and ?c = "of_nat (48 + n div 8 ^ k mod 8) :: u8"
  have d: "?d < 8" using Suc.prems(1) by (simp add: div_less_iff_less_mult mult.commute)
  have "unat (of_nat (48 + j) :: u8) = 48 + j" if "j < 8" for j
    using that by (simp only: unat_of_nat) simp
  with d have c: "unat ?c = 48 + ?d" by simp
  have cc: "0x30 \<le> ?c" "?c \<le> 0x37" using c d by (simp_all add: word_le_nat_alt)
  have "unat v * 8 < 2 ^ 61"
    by (rule le_less_trans [OF _ Suc.prems(2)]) (simp add: trans_le_add1)
  then have "unat v * 8 + 8 \<le> 2 ^ 64" by simp
  from oct_step(1) [OF this cc] c have s: "unat (push_bit 3 v + ucast (?c - 0x30) :: u64) = unat v * 8 + ?d" by simp
  have e: "(unat v * 8 + ?d) * 8 ^ k + n mod 8 ^ k = unat v * 8 ^ Suc k + n"
    using div_mult_mod_eq [of n "8 ^ k"] by (simp add: add_mult_distrib add.assoc)
  have "oct_digits k n = oct_digits k (n mod 8 ^ k)"
  proof -
    have "oct_digits j n = oct_digits j (n mod 8 ^ k)" if "j \<le> k" for j
      using that
    proof (induction j)
      case (Suc j)
      have "(8 :: nat) ^ k = 8 ^ j * 8 ^ (k - j)" "k - j = Suc (k - j - 1)"
        using Suc.prems by (simp_all flip: power_add)
      then have "8 ^ k = 8 ^ j * (8 * 8 ^ (k - j - 1) :: nat)" by (metis power_Suc)
      then have "n mod 8 ^ k div 8 ^ j = n div 8 ^ j mod (8 * 8 ^ (k - j - 1))"
        by (simp add: mod_mult2_eq)
      then have "n mod 8 ^ k div 8 ^ j mod 8 = n div 8 ^ j mod 8" by (simp add: mod_mod_cancel)
      with Suc show ?case by simp
    qed simp
    then show ?thesis by blast
  qed
  moreover have "n mod 8 ^ k < 8 ^ k" by simp
  ultimately have "unat (oct_loop (push_bit 3 v + ucast (?c - 0x30)) (oct_digits k n @ [0])) =
      (unat v * 8 + ?d) * 8 ^ k + n mod 8 ^ k"
    using Suc.IH [of "n mod 8 ^ k" "push_bit 3 v + ucast (?c - 0x30)"] Suc.prems(2) s e by simp
  with e cc show ?case by (simp del: of_nat_add)
qed

section \<open>Parsing ends\<close>

lemma unat_align_up:
  assumes "unat (n :: u64) + 511 < 2 ^ 64"
  shows "unat (tarfs_align_up n) = round_up 512 (unat n)"
proof -
  have m: "(511 :: u64) = mask 9" by (simp add: mask_numeral)
  have "unat (tarfs_align_up n) = unat (n + 511) div 512 * 512"
    unfolding tarfs_align_up_def m by (simp add: unat_and_not_mask)
  moreover have "unat (n + 511) = unat n + 511" using assms by (simp add: unat_plus_no_wrap)
  ultimately show ?thesis by (simp add: round_up_def)
qed

text \<open>
  Every round of the parser moves the offset forward by at least a header, and the offset does
  not wrap around in an image of at most 2^63 bytes.
\<close>

lemma tar_parse_loop_ok:
  assumes "tar_ok s lo hi L" "tarfs_nodes s root = Some r" "unat (tarfs_image_size s) \<le> 2 ^ 63"
    and "unat offset \<le> unat (tarfs_image_size s) + 511"
  shows "\<exists>s' L'. tarfs_parse_loop root offset s = Some s' \<and> tar_ok s' lo hi L' \<and> tar_step s s'"
  using assms
proof (induction "unat (tarfs_image_size s) + 512 - unat offset" arbitrary: s offset L r rule: less_induct)
  case less
  let ?n = "unat (tarfs_image_size s)"
  let ?h = "tar_header_at (kbytes s) (tarfs_image s + offset)"
  define sz where "sz = (if th_typeflag ?h = 0x31 \<or> th_typeflag ?h = 0x32 then 0 else tarfs_oct2u64 (th_size ?h))"
  have o: "unat (offset + 512) = unat offset + 512" using less.prems(3,4) by (simp add: unat_plus_no_wrap)
  show ?case
  proof (cases "offset + 512 \<le> tarfs_image_size s \<and> \<not> tarfs_block_is_zero (load_bytes (kbytes s) (tarfs_image s + offset) 512)
      \<and> \<not> tarfs_image_size s < offset + 512 + sz")
    case False
    with less.prems(1) show ?thesis
      by (subst tarfs_parse_loop.simps) (auto simp: Let_def sz_def)
  next
    case True
    then have le: "unat offset + 512 \<le> ?n" using o by (simp add: word_le_nat_alt)
    show ?thesis
    proof (cases "unat offset + 512 + unat sz \<le> ?n")
      case fits: True
      have img: "unat (tarfs_image s) + ?n < 2 ^ 64" by (rule tar_okD(2) [OF less.prems(1)])
      have "unat (tarfs_image s + (offset + 512)) = unat (tarfs_image s) + (unat offset + 512)"
        using o le img by (subst unat_plus_no_wrap) simp_all
      then have d: "unat (tarfs_image s) \<le> unat (tarfs_image s + (offset + 512))"
        "unat (tarfs_image s + (offset + 512)) + unat sz \<le> unat (tarfs_image s) + ?n"
        using fits by simp_all
      from tar_parse_entry_ok [OF less.prems(1,2) d, of ?h] obtain s1 L1 where
        s1: "tarfs_parse_entry root ?h (tarfs_image s + (offset + 512)) sz s = Some s1" "tar_ok s1 lo hi L1" "tar_step s s1"
        by blast
      have n1: "tarfs_image_size s1 = tarfs_image_size s" using s1(3) by (simp add: tar_step_def)
      obtain r1 where r1: "tarfs_nodes s1 root = Some r1" using s1(3) less.prems(2) by (auto simp: tar_step_def)
      let ?o = "offset + 512 + tarfs_align_up sz"
      have a: "unat (tarfs_align_up sz) = round_up 512 (unat sz)"
        by (rule unat_align_up) (use fits less.prems(3) in simp)
      have "unat offset + 512 + round_up 512 (unat sz) < 2 ^ 64"
        using round_up_less [of 512 "unat sz"] fits less.prems(3) by simp
      then have o': "unat ?o = unat offset + 512 + round_up 512 (unat sz)"
        using o a by (subst unat_plus_no_wrap) simp_all
      have "\<exists>s' L'. tarfs_parse_loop root ?o s1 = Some s' \<and> tar_ok s' lo hi L' \<and> tar_step s1 s'"
      proof (rule less.hyps [OF _ s1(2) r1])
        show "unat (tarfs_image_size s1) + 512 - unat ?o < ?n + 512 - unat offset"
          using o' le n1 by simp
        show "unat (tarfs_image_size s1) \<le> 2 ^ 63" using less.prems(3) n1 by simp
        show "unat ?o \<le> unat (tarfs_image_size s1) + 511"
          using o' n1 fits round_up_less [of 512 "unat sz"] by simp
      qed
      moreover have "tarfs_parse_loop root offset s = tarfs_parse_loop root ?o s1"
        using True s1(1) by (subst tarfs_parse_loop.simps) (auto simp: Let_def sz_def add.assoc)
      ultimately show ?thesis using tar_step_trans [OF s1(3)] by auto
    next
      case wraps: False
      from True have "\<not> ?n < unat (offset + 512 + sz)" by (simp add: word_less_nat_alt)
      moreover have "unat sz < 2 ^ 36"
        using tarfs_oct2u64_bound [of "th_size ?h"] by (auto simp: sz_def tar_header_at_def)
      then have "unat (offset + 512 + sz) = unat offset + 512 + unat sz"
        using o le less.prems(3) by (subst unat_plus_no_wrap) simp_all
      ultimately show ?thesis using wraps by simp
    qed
  qed
qed

section \<open>Mounting and reading\<close>

lemma tar_ok_malloc:
  assumes ok: "tar_ok s lo hi L" and sb: "same_but_blocks s s1" and h: "heap_at s1 lo hi L'" and L: "L \<subseteq> L'"
  shows "tar_ok s1 lo hi L'"
proof -
  note same = same_but_blocks_tarfs [OF sb]
  from tar_okD(3) [OF ok] obtain rank where r: "\<And>p n. tarfs_nodes s p = Some n \<Longrightarrow> tar_node_ok s L rank p n" by blast
  have "tar_node_ok s1 L' rank p n" if "tarfs_nodes s1 p = Some n" for p n
    using r [of p n] that same L by (auto simp: tar_node_ok_def in_image_def)
  with h tar_okD(2) [OF ok] same show ?thesis by (auto simp: tar_ok_def)
qed

text \<open>A node without parent, a root.\<close>

lemma tar_ok_root:
  assumes ok: "tar_ok s lo hi L" and p: "tarfs_nodes s p = None" "p \<noteq> NULL" "(unat p, k) \<in> L"
    and c: "tn_children c = NULL" "tn_parent c = NULL" "\<not> tn_symlink c" "tn_data c = NULL"
  shows "tar_ok (s\<lparr>tarfs_nodes := (tarfs_nodes s)(p \<mapsto> c)\<rparr>) lo hi L"
proof -
  from tar_okD(3) [OF ok] obtain rank where r: "\<And>p n. tarfs_nodes s p = Some n \<Longrightarrow> tar_node_ok s L rank p n" by blast
  let ?s = "s\<lparr>tarfs_nodes := (tarfs_nodes s)(p \<mapsto> c)\<rparr>"
  have "tar_node_ok ?s L rank q n" if q: "tarfs_nodes ?s q = Some n" for q n
  proof (cases "q = p")
    case True
    with q p c show ?thesis by (auto simp: tar_node_ok_def in_image_def intro: exI [where x = "[]"])
  next
    case False
    with q have "tarfs_nodes s q = Some n" by simp
    from r [OF this] have n: "tar_node_ok s L rank q n" .
    then obtain ps where ps: "linked tn_next (tarfs_nodes s) (tn_children n) ps" by (auto simp: tar_node_ok_def)
    from linked_in [OF this, of p] p(1) have "p \<notin> set ps" by auto
    with ps have "linked tn_next ((tarfs_nodes s)(p \<mapsto> c)) (tn_children n) ps" by simp
    with n p(1) show ?thesis by (auto simp: tar_node_ok_def in_image_def)
  qed
  then have "\<forall>q n. tarfs_nodes ?s q = Some n \<longrightarrow> tar_node_ok ?s L rank q n" by blast
  moreover have "heap_at ?s lo hi L" "unat (tarfs_image ?s) + unat (tarfs_image_size ?s) < 2 ^ 64"
    using tar_okD(1,2) [OF ok] by simp_all
  ultimately show ?thesis unfolding tar_ok_def by blast
qed

lemma tar_mount_ok:
  assumes ok: "tar_ok s lo hi L" and sz: "unat (tarfs_image_size s) \<le> 2 ^ 63"
  shows "\<exists>root s' L'. tarfs_mount_root mount s = Some (root, s') \<and> tar_ok s' lo hi L' \<and> tar_step s s' \<and>
    (root \<noteq> NULL \<longrightarrow> (\<exists>n. tarfs_nodes s' root = Some n \<and> vn_type (tn_vnode n) = VNODE_TYPE_DIR \<and>
       vn_ops (tn_vnode n) = Some TARFS_OPS))"
proof -
  have "unat SIZEOF_TARFS_NODE + 7 < 2 ^ 64" by simp
  from malloc_at [OF tar_okD(1) [OF ok] this] obtain p s1 where s1: "malloc SIZEOF_TARFS_NODE s = Some (p, s1)"
    "same_but_blocks s s1" and g: "if p = NULL then heap_at s1 lo hi L
       else \<exists>k \<ge> unat SIZEOF_TARFS_NODE. heap_at s1 lo hi (insert (unat p, k) L) \<and> unat p \<notin> fst ` L" by blast
  note same = same_but_blocks_tarfs [OF s1(2)]
  from tar_okD(3) [OF ok] obtain rank where r: "\<And>p n. tarfs_nodes s p = Some n \<Longrightarrow> tar_node_ok s L rank p n" by blast
  show ?thesis
  proof (cases "p = NULL")
    case True
    with g tar_ok_malloc [OF ok s1(2), of L] have "tar_ok s1 lo hi L" by simp
    moreover have "tarfs_mount_root mount s = Some (NULL, s1)"
      using True s1(1) by (simp add: tarfs_mount_root_def tarfs_create_node_def)
    moreover have "tar_step s s1" using same by (simp add: tar_step_def)
    ultimately show ?thesis by blast
  next
    case False
    with g obtain k where k: "heap_at s1 lo hi (insert (unat p, k) L)" "unat p \<notin> fst ` L" by auto
    have fresh: "tarfs_nodes s p = None"
    proof (rule ccontr)
      assume "tarfs_nodes s p \<noteq> None"
      then obtain x where "tarfs_nodes s p = Some x" by blast
      from r [OF this] k(2) show False by (force simp: tar_node_ok_def)
    qed
    let ?c = "\<lparr>tn_vnode = \<lparr>vn_ops = Some TARFS_OPS, vn_type = VNODE_TYPE_DIR, vn_size = 0, vn_mount = mount, vn_private = p\<rparr>,
      tn_name = [], tn_parent = NULL, tn_children = NULL, tn_next = NULL, tn_data = NULL,
      tn_link_target = [], tn_ino = p, tn_symlink = False\<rparr>"
    let ?s2 = "s1\<lparr>tarfs_nodes := (tarfs_nodes s1)(p \<mapsto> ?c)\<rparr>"
    have run: "tarfs_mount_root mount s = map_option (\<lambda>s. (p, s)) (tarfs_parse_archive p ?s2)"
      using s1(1) False same by (auto simp: tarfs_mount_root_def tarfs_create_node_def bind_case split: option.split)
    have ok1: "tar_ok s1 lo hi (insert (unat p, k) L)" by (rule tar_ok_malloc [OF ok s1(2) k(1)]) blast
    have ok2: "tar_ok ?s2 lo hi (insert (unat p, k) L)"
      by (rule tar_ok_root [OF ok1, of p k]) (use fresh same False in simp_all)
    have st: "tar_step s ?s2" using same fresh by (auto simp: tar_step_def)
    have n2: "tarfs_nodes ?s2 p = Some ?c" by simp
    have "\<exists>s' L'. tarfs_parse_archive p ?s2 = Some s' \<and> tar_ok s' lo hi L' \<and> tar_step ?s2 s'"
    proof (cases "tarfs_image ?s2 = NULL \<or> tarfs_image_size ?s2 < 512")
      case True
      then show ?thesis using ok2 by (auto simp: tarfs_parse_archive_def)
    next
      case F: False
      with tar_parse_loop_ok [OF ok2 n2, of 0] sz same show ?thesis by (simp add: tarfs_parse_archive_def)
    qed
    then obtain s' L' where s': "tarfs_parse_archive p ?s2 = Some s'" "tar_ok s' lo hi L'" "tar_step ?s2 s'" by blast
    from s'(3) n2 obtain n where "tarfs_nodes s' p = Some n" "tn_vnode n = tn_vnode ?c" unfolding tar_step_def by blast
    with run s' tar_step_trans [OF st s'(3)] show ?thesis by auto
  qed
qed

text \<open>The contents of a file: a part of the image.\<close>

definition tar_data :: "'a tarfs_state_scheme \<Rightarrow> u64 \<Rightarrow> u8 list" where
  "tar_data s p = (case tarfs_nodes s p of None \<Rightarrow> []
     | Some n \<Rightarrow> if tn_data n = NULL then [] else load_bytes (kbytes s) (tn_data n) (unat (vn_size (tn_vnode n))))"

definition tar_image :: "'a tarfs_state_scheme \<Rightarrow> u8 list" where
  "tar_image s = load_bytes (kbytes s) (tarfs_image s) (unat (tarfs_image_size s))"

lemma tar_data_slice:
  assumes ok: "tar_ok s lo hi L" and n: "tarfs_nodes s p = Some n" "tn_data n \<noteq> NULL"
  shows "tar_data s p = take (unat (vn_size (tn_vnode n))) (drop (unat (tn_data n) - unat (tarfs_image s)) (tar_image s))"
proof -
  let ?o = "unat (tn_data n) - unat (tarfs_image s)" and ?n = "unat (vn_size (tn_vnode n))"
  from tar_okD(3) [OF ok] n have i: "unat (tarfs_image s) \<le> unat (tn_data n)"
    "unat (tn_data n) + ?n \<le> unat (tarfs_image s) + unat (tarfs_image_size s)"
    by (auto simp: tar_node_ok_def in_image_def)
  then have "tarfs_image s + of_nat ?o = tn_data n" by (simp add: of_nat_diff)
  with i have "take ?n (drop ?o (tar_image s)) = load_bytes (kbytes s) (tn_data n) ?n"
    by (simp add: tar_image_def load_bytes_drop load_bytes_take2)
  with n show ?thesis by (simp add: tar_data_def)
qed

lemma tar_ok_kbytes [simp]: "tar_ok (s\<lparr>kbytes := m\<rparr>) lo hi L = tar_ok s lo hi L"
  by (simp add: tar_ok_def tar_node_ok_def in_image_def)

lemma tar_data_kbytes:
  assumes ok: "tar_ok s lo hi L" and im: "tar_image (s\<lparr>kbytes := m\<rparr>) = tar_image s"
  shows "tar_data (s\<lparr>kbytes := m\<rparr>) p = tar_data s p"
proof (cases "tarfs_nodes s p")
  case (Some n)
  have "tar_ok (s\<lparr>kbytes := m\<rparr>) lo hi L" using ok by simp
  with Some im show ?thesis
    using tar_data_slice [OF ok Some] tar_data_slice [of "s\<lparr>kbytes := m\<rparr>" lo hi L p n]
    by (cases "tn_data n = NULL") (simp_all add: tar_data_def)
qed (simp add: tar_data_def)

fun tar_ready :: "heap_view \<Rightarrow> 'a tarfs_state_scheme \<Rightarrow> u64 \<Rightarrow> u64 \<Rightarrow> nat \<Rightarrow> bool" where
  "tar_ready (lo, hi, L) s p buf k \<longleftrightarrow> tar_ok s lo hi L \<and> buf \<noteq> NULL \<and>
     disjoint_ranges buf k (tarfs_image s) (unat (tarfs_image_size s)) \<and>
     (\<exists>n. tarfs_nodes s p = Some n \<and> vn_type (tn_vnode n) = VNODE_TYPE_FILE)"

lemma tar_image_memcpy:
  assumes "disjoint_ranges buf k (tarfs_image s) (unat (tarfs_image_size s))" "unat w \<le> k"
    "disjoint_ranges buf (unat w) src (unat w)"
  shows "tar_image (s\<lparr>kbytes := memcpy buf src w (kbytes s)\<rparr>) = tar_image s"
proof -
  have "disjoint_ranges buf (unat w) (tarfs_image s) (unat (tarfs_image_size s))"
    using assms(1,2) by (auto simp: disjoint_ranges_def)
  then show ?thesis
    by (simp add: tar_image_def memcpy_copied [OF disjoint_apart [OF assms(3)]] load_bytes_copied_other)
qed

lemma tar_read_refines:
  assumes ok: "tar_ok s lo hi L" and n: "tarfs_nodes s p = Some n" "vn_type (tn_vnode n) = VNODE_TYPE_FILE"
    and buf: "buf \<noteq> NULL" "disjoint_ranges buf (unat sz) (tarfs_image s) (unat (tarfs_image_size s))"
    and sz: "unat off + unat sz < 2 ^ 64"
  shows "\<exists>w m. tarfs_read p buf sz off s = Some (0, Some w, s\<lparr>kbytes := m\<rparr>) \<and>
    unat w = length (take (unat sz) (drop (unat off) (tar_data s p))) \<and>
    load_bytes m buf (unat w) = take (unat sz) (drop (unat off) (tar_data s p)) \<and>
    tar_image (s\<lparr>kbytes := m\<rparr>) = tar_image s"
proof -
  let ?n = "vn_size (tn_vnode n)"
  from tar_okD(3) [OF ok] n(1) have i: "in_image s n" "p \<noteq> NULL" by (auto simp: tar_node_ok_def)
  have sum: "unat (off + sz) = unat off + unat sz" using sz by (rule unat_plus_no_wrap)
  show ?thesis
  proof (cases "tn_data n = NULL \<or> ?n \<le> off")
    case True
    then have "drop (unat off) (tar_data s p) = []"
      using n(1) by (auto simp: tar_data_def word_le_nat_alt)
    moreover have "tarfs_read p buf sz off s = Some (0, Some 0, s)"
      using n i(2) buf(1) True by (auto simp: tarfs_read_def)
    ultimately show ?thesis
      by (intro exI [where x = 0] exI [where x = "kbytes s"]) (simp add: load_bytes_def)
  next
    case False
    define w where "w = (if ?n < off + sz then ?n - off else sz)"
    have lt: "unat off < unat ?n" using False by (simp add: word_le_nat_alt)
    then have w: "unat w = min (unat sz) (unat ?n - unat off)"
      using sum by (auto simp: w_def word_less_nat_alt unat_minus_no_borrow)
    let ?src = "tn_data n + off"
    let ?m = "memcpy buf ?src w (kbytes s)"
    have im: "unat (tarfs_image s) \<le> unat (tn_data n)"
      "unat (tn_data n) + unat ?n \<le> unat (tarfs_image s) + unat (tarfs_image_size s)"
      using i(1) False by (auto simp: in_image_def)
    have src: "unat ?src = unat (tn_data n) + unat off"
      using im lt tar_okD(2) [OF ok] by (intro unat_plus_no_wrap) linarith
    have dj: "disjoint_ranges buf (unat w) ?src (unat w)"
      using buf(2) im lt w unfolding disjoint_ranges_def src by linarith
    have "tarfs_read p buf sz off s = Some (0, Some w, s\<lparr>kbytes := ?m\<rparr>)"
      using n i(2) buf(1) False by (auto simp: tarfs_read_def w_def Let_def)
    moreover have "load_bytes ?m buf (unat w) = take (unat sz) (drop (unat off) (tar_data s p))"
      using memcpy_load_bytes [OF dj] n(1) w False by (simp add: tar_data_def load_bytes_drop load_bytes_take2)
    moreover have "unat w = length (take (unat sz) (drop (unat off) (tar_data s p)))"
      using w n(1) False by (simp add: tar_data_def min.commute)
    moreover have "tar_image (s\<lparr>kbytes := ?m\<rparr>) = tar_image s"
      by (rule tar_image_memcpy [OF buf(2) _ dj]) (simp add: w)
    ultimately show ?thesis by blast
  qed
qed

interpretation tar_file: file_reader tarfs_read tar_data kbytes tar_ready
proof (unfold_locales, goal_cases)
  case (1 i s p buf sz off)
  obtain lo hi L where i: "i = (lo, hi, L)" by (cases i)
  with 1(1) obtain n where n: "tar_ok s lo hi L" "tarfs_nodes s p = Some n"
    "vn_type (tn_vnode n) = VNODE_TYPE_FILE" "buf \<noteq> NULL"
    "disjoint_ranges buf (unat sz) (tarfs_image s) (unat (tarfs_image_size s))" by auto
  from tar_read_refines [OF n 1(2)] obtain w m where
    w: "tarfs_read p buf sz off s = Some (0, Some w, s\<lparr>kbytes := m\<rparr>)"
    "unat w = length (take (unat sz) (drop (unat off) (tar_data s p)))"
    "load_bytes m buf (unat w) = take (unat sz) (drop (unat off) (tar_data s p))"
    "tar_image (s\<lparr>kbytes := m\<rparr>) = tar_image s" by blast
  have "\<forall>q. tar_data (s\<lparr>kbytes := m\<rparr>) q = tar_data s q" using tar_data_kbytes [OF n(1) w(4)] by blast
  moreover have "tar_ready i (s\<lparr>kbytes := m\<rparr>) q b k" if "tar_ready i s q b k" for q b k
    using that i by simp
  ultimately show ?case using w(1-3) by fastforce
qed

text \<open>C26: On a well-formed heap and an image of at most 2^63 bytes, whatever its bytes are, mounting
  the archive returns; the tree it builds is well formed, and the contents of every file in it are
  a part of the image.\<close>

theorem tarfs_mount_returns:
  assumes "heap_at s lo hi L" "tarfs_nodes s = (\<lambda>_. None)" "unat (tarfs_image_size s) \<le> 2 ^ 63"
    and "unat (tarfs_image s) + unat (tarfs_image_size s) < 2 ^ 64"
  shows "\<exists>root s' L'. tarfs_mount_root mount s = Some (root, s') \<and> tar_ok s' lo hi L' \<and> kbytes s' = kbytes s \<and>
    (\<forall>p n. tarfs_nodes s' p = Some n \<longrightarrow> tn_data n \<noteq> NULL \<longrightarrow>
       (\<exists>off. tar_data s' p = take (unat (vn_size (tn_vnode n))) (drop off (tar_image s)) \<and>
              off + unat (vn_size (tn_vnode n)) \<le> unat (tarfs_image_size s)))"
proof -
  have "tar_ok s lo hi L" using assms(1,2,4) by (simp add: tar_ok_def)
  from tar_mount_ok [OF this assms(3), of mount] obtain root s' L' where
    s': "tarfs_mount_root mount s = Some (root, s')" "tar_ok s' lo hi L'" "tar_step s s'" by blast
  have im: "tar_image s' = tar_image s" "tarfs_image_size s' = tarfs_image_size s" "kbytes s' = kbytes s"
    using s'(3) by (simp_all add: tar_step_def tar_image_def)
  have "\<exists>off. tar_data s' p = take (unat (vn_size (tn_vnode n))) (drop off (tar_image s)) \<and>
      off + unat (vn_size (tn_vnode n)) \<le> unat (tarfs_image_size s)"
    if n: "tarfs_nodes s' p = Some n" "tn_data n \<noteq> NULL" for p n
  proof (intro exI conjI)
    show "tar_data s' p = take (unat (vn_size (tn_vnode n)))
        (drop (unat (tn_data n) - unat (tarfs_image s')) (tar_image s))"
      using tar_data_slice [OF s'(2) n] im(1) by simp
    from tar_okD(3) [OF s'(2)] n have "in_image s' n" by (auto simp: tar_node_ok_def)
    with n(2) im(2) show "unat (tn_data n) - unat (tarfs_image s') + unat (vn_size (tn_vnode n)) \<le> unat (tarfs_image_size s)"
      by (auto simp: in_image_def)
  qed
  with s' im(3) show ?thesis by blast
qed



text \<open>C29: The size of a member is read back as it was written, in eleven octal digits and a terminator.\<close>

theorem tarfs_oct2u64_roundtrip:
  assumes "n < 8 ^ 11"
  shows "unat (tarfs_oct2u64 (oct_digits 11 n @ [0])) = n"
  using oct_loop_digits [OF assms, of 0] assms by (simp add: tarfs_oct2u64_def)

text \<open>A file of five bytes in an archive of two blocks, for the witnesses.\<close>

definition example_tar_node :: tarfs_node where
  "example_tar_node = \<lparr>tn_vnode = \<lparr>vn_ops = Some TARFS_OPS, vn_type = VNODE_TYPE_FILE, vn_size = 5, vn_mount = NULL,
     vn_private = NULL\<rparr>, tn_name = [0x66], tn_parent = NULL, tn_children = NULL, tn_next = NULL, tn_data = 0x4200,
     tn_link_target = [], tn_ino = 0x100018, tn_symlink = False\<rparr>"

definition example_tar :: "(u64 \<rightharpoonup> tarfs_node) \<Rightarrow> tarfs_state" where
  "example_tar m = \<lparr>hp_head = 0x100000,
     hp_blocks = [0x100000 \<mapsto> \<lparr>hb_size = 600, hb_next = 0x100270, hb_free = False\<rparr>,
                  0x100270 \<mapsto> \<lparr>hb_size = 0x10000, hb_next = NULL, hb_free = True\<rparr>],
     pmm_initialized = True, kmem = (\<lambda>_. 0), page_table_l4 = NULL, tlb_log = [], kernel_memory_map = [],
     kbytes = (\<lambda>x. ucast x), ramfs_nodes = (\<lambda>_. None), tarfs_nodes = m, tarfs_image = 0x4000, tarfs_image_size = 0x400\<rparr>"

lemma example_tar_heap: "heap_at (example_tar m) 0x100000 0x110288 {(0x100018, 600)}"
proof -
  have "heap_rel (example_tar m) 0x100000 0x110288 [(0x100000, 600, False), (0x100270, 0x10000, True)]"
    by (simp add: heap_rel_def example_tar_def)
  then show ?thesis
    unfolding heap_at_def
    by (intro conjI exI [where x = "[(0x100000, 600, False), (0x100270, 0x10000, True)]"])
      (simp_all add: example_tar_def allocs_def)
qed

lemma example_tar_ok: "tar_ok (example_tar [0x100018 \<mapsto> example_tar_node]) 0x100000 0x110288 {(0x100018, 600)}"
  using example_tar_heap
  by (auto simp: tar_ok_def tar_node_ok_def in_image_def example_tar_def example_tar_node_def split: if_splits
      intro!: exI [where x = "[]"])

theorem tarfs_mount_returns_witness:
  "\<exists>root s' L'. tarfs_mount_root 0x9000 (example_tar (\<lambda>_. None)) = Some (root, s') \<and> tar_ok s' 0x100000 0x110288 L' \<and>
    kbytes s' = kbytes (example_tar (\<lambda>_. None)) \<and>
    (\<forall>p n. tarfs_nodes s' p = Some n \<longrightarrow> tn_data n \<noteq> NULL \<longrightarrow>
       (\<exists>off. tar_data s' p = take (unat (vn_size (tn_vnode n))) (drop off (tar_image (example_tar (\<lambda>_. None)))) \<and>
              off + unat (vn_size (tn_vnode n)) \<le> unat (tarfs_image_size (example_tar (\<lambda>_. None)))))"
  by (rule tarfs_mount_returns [OF example_tar_heap]) (simp_all add: example_tar_def)



theorem tarfs_oct2u64_roundtrip_witness: "unat (tarfs_oct2u64 (oct_digits 11 4711 @ [0])) = 4711"
  by (rule tarfs_oct2u64_roundtrip) simp

end
