(* ===== verification/Vfs.thy ===== *)
theory Vfs
  imports Tarfs
begin

text \<open>
  The virtual file system, \<^verbatim>\<open>src/fs/vfs.c\<close>: the tables of drivers and mounts, the
  resolution of paths through the operations of the vnodes, and opening with creation. The
  third driver, \<^verbatim>\<open>src/fs/devtmpfs.c\<close>, is a root directory without operations.

  A call through a vnode's table of function pointers is a case distinction on the name of the
  table. A path is the list of its bytes; a buffer of fixed size that a path does not fit into is
  an overflow, and the model then answers \<open>None\<close>.
\<close>

section \<open>The code\<close>

datatype filesystem_driver = RAMFS_DRIVER | TARFS_DRIVER | DEVTMPFS_DRIVER

text \<open>\<open>''ramfs''\<close>, \<open>''tarfs''\<close> and \<open>''devtmpfs''\<close>.\<close>

definition driver_name :: "filesystem_driver \<Rightarrow> u8 list" where
  "driver_name d = (case d of
     RAMFS_DRIVER \<Rightarrow> [0x72, 0x61, 0x6D, 0x66, 0x73]
   | TARFS_DRIVER \<Rightarrow> [0x74, 0x61, 0x72, 0x66, 0x73]
   | DEVTMPFS_DRIVER \<Rightarrow> [0x64, 0x65, 0x76, 0x74, 0x6D, 0x70, 0x66, 0x73])"

record filesystem_mount =
  mt_root :: u64
  mt_private :: u64
  mt_fs :: filesystem_driver

record vfs_state = tarfs_state +
  devtmpfs_nodes :: "u64 \<rightharpoonup> vnode"
  fs_mounts :: "u64 \<rightharpoonup> filesystem_mount"
  g_drivers :: "filesystem_driver list"
  g_mounts :: "u64 list"

abbreviation (input) MAX_DRIVERS :: nat where "MAX_DRIVERS \<equiv> 16"
abbreviation (input) MAX_MOUNTS :: nat where "MAX_MOUNTS \<equiv> 16"
abbreviation (input) PATH_MAX :: nat where "PATH_MAX \<equiv> 256"

definition O_CREAT :: u32 where "O_CREAT = 0x40"
definition O_EXCL :: u32 where "O_EXCL = 0x80"
definition O_DIRECTORY :: u32 where "O_DIRECTORY = 0x10000"

definition vfs_register_driver :: "filesystem_driver \<Rightarrow> 'a vfs_state_scheme \<Rightarrow> int \<times> 'a vfs_state_scheme" where
  "vfs_register_driver d s =
     (if MAX_DRIVERS \<le> length (g_drivers s) then (- 1, s) else (0, s\<lparr>g_drivers := g_drivers s @ [d]\<rparr>))"

definition vfs_find_driver :: "u8 list \<Rightarrow> 'a vfs_state_scheme \<Rightarrow> filesystem_driver option" where
  "vfs_find_driver type s = find (\<lambda>d. driver_name d = type) (g_drivers s)"

definition devtmpfs_mount_root :: "u64 \<Rightarrow> 'a vfs_state_scheme \<Rightarrow> (u64 \<times> 'a vfs_state_scheme) option" where
  "devtmpfs_mount_root mount s = do {
     (root, s) \<leftarrow> malloc 40 s;
     Some (if root = NULL then (NULL, s)
       else (root, s\<lparr>devtmpfs_nodes := (devtmpfs_nodes s)(root \<mapsto>
         \<lparr>vn_ops = Some DEVTMPFS_OPS, vn_type = VNODE_TYPE_DIR, vn_size = 0, vn_mount = mount, vn_private = root\<rparr>)\<rparr>)) }"

text \<open>A driver answers the root it made, or NULL for a failure.\<close>

definition driver_mount :: "filesystem_driver \<Rightarrow> u64 \<Rightarrow> 'a vfs_state_scheme \<Rightarrow> (u64 \<times> 'a vfs_state_scheme) option" where
  "driver_mount d = (case d of
     RAMFS_DRIVER \<Rightarrow> ramfs_mount_root | TARFS_DRIVER \<Rightarrow> tarfs_mount_root | DEVTMPFS_DRIVER \<Rightarrow> devtmpfs_mount_root)"

definition vfs_mount :: "u8 list \<Rightarrow> 'a vfs_state_scheme \<Rightarrow> (int \<times> 'a vfs_state_scheme) option" where
  "vfs_mount type s =
     (case vfs_find_driver type s of
        None \<Rightarrow> Some (- 1, s)
      | Some driver \<Rightarrow>
          if MAX_MOUNTS \<le> length (g_mounts s) then Some (- 1, s)
          else do {
            (mount, s) \<leftarrow> malloc 24 s;
            if mount = NULL then Some (- 1, s)
            else do {
              let s = s\<lparr>fs_mounts := (fs_mounts s)(mount \<mapsto> \<lparr>mt_root = NULL, mt_private = NULL, mt_fs = driver\<rparr>)\<rparr>;
              (root, s) \<leftarrow> driver_mount driver mount s;
              if root = NULL then do {
                s \<leftarrow> free mount s;
                Some (- 1, s\<lparr>fs_mounts := (fs_mounts s)(mount := None)\<rparr>) }
              else Some (0, s\<lparr>fs_mounts := (fs_mounts s)(mount \<mapsto> \<lparr>mt_root = root, mt_private = root, mt_fs = driver\<rparr>),
                              g_mounts := g_mounts s @ [mount]\<rparr>) } })"

text \<open>The vnode at an address, whichever node embeds it, and the calls through its table.\<close>

definition vnode_at :: "'a vfs_state_scheme \<Rightarrow> u64 \<Rightarrow> vnode option" where
  "vnode_at s p = (case ramfs_nodes s p of Some n \<Rightarrow> Some (rn_vnode n)
     | None \<Rightarrow> (case tarfs_nodes s p of Some n \<Rightarrow> Some (tn_vnode n) | None \<Rightarrow> devtmpfs_nodes s p))"

definition ops_lookup :: "vnode_ops \<Rightarrow> (u64 \<Rightarrow> u8 list \<Rightarrow> 'a vfs_state_scheme \<Rightarrow> (int \<times> u64 option) option) option" where
  "ops_lookup ops = (case ops of RAMFS_OPS \<Rightarrow> Some ramfs_lookup | TARFS_OPS \<Rightarrow> Some tarfs_lookup | DEVTMPFS_OPS \<Rightarrow> None)"

definition ops_create :: "vnode_ops \<Rightarrow> (u64 \<Rightarrow> u8 list \<Rightarrow> 'a vfs_state_scheme \<Rightarrow> (int \<times> u64 option \<times> 'a vfs_state_scheme) option) option" where
  "ops_create ops = (case ops of RAMFS_OPS \<Rightarrow> Some ramfs_create | TARFS_OPS \<Rightarrow> Some tarfs_create | DEVTMPFS_OPS \<Rightarrow> None)"

definition ops_mkdir :: "vnode_ops \<Rightarrow> (u64 \<Rightarrow> u8 list \<Rightarrow> 'a vfs_state_scheme \<Rightarrow> (int \<times> u64 option \<times> 'a vfs_state_scheme) option) option" where
  "ops_mkdir ops = (case ops of RAMFS_OPS \<Rightarrow> Some ramfs_mkdir | TARFS_OPS \<Rightarrow> Some tarfs_mkdir | DEVTMPFS_OPS \<Rightarrow> None)"

definition ops_read :: "vnode_ops \<Rightarrow> (u64 \<Rightarrow> u64 \<Rightarrow> u64 \<Rightarrow> u64 \<Rightarrow> 'a vfs_state_scheme \<Rightarrow> (int \<times> u64 option \<times> 'a vfs_state_scheme) option) option" where
  "ops_read ops = (case ops of RAMFS_OPS \<Rightarrow> Some ramfs_read | TARFS_OPS \<Rightarrow> Some tarfs_read | DEVTMPFS_OPS \<Rightarrow> None)"

definition ops_write :: "vnode_ops \<Rightarrow> (u64 \<Rightarrow> u64 \<Rightarrow> u64 \<Rightarrow> u64 \<Rightarrow> 'a vfs_state_scheme \<Rightarrow> (int \<times> u64 option \<times> 'a vfs_state_scheme) option) option" where
  "ops_write ops = (case ops of RAMFS_OPS \<Rightarrow> Some ramfs_write | TARFS_OPS \<Rightarrow> Some tarfs_write | DEVTMPFS_OPS \<Rightarrow> None)"

definition ops_readdir :: "vnode_ops \<Rightarrow> (u64 \<Rightarrow> u64 \<Rightarrow> 'a vfs_state_scheme \<Rightarrow> (int \<times> vfs_dirent option) option) option" where
  "ops_readdir ops = (case ops of RAMFS_OPS \<Rightarrow> Some ramfs_readdir | TARFS_OPS \<Rightarrow> Some tarfs_readdir | DEVTMPFS_OPS \<Rightarrow> None)"

text \<open>A token: the next component, cut to 127 bytes, and the rest of the path.\<close>

definition vfs_next_token :: "u8 list \<Rightarrow> u8 list \<times> u8 list" where
  "vfs_next_token path =
     (let path = dropWhile (\<lambda>c. c = SLASH) path
      in (take 127 (takeWhile (\<lambda>c. c \<noteq> SLASH) path), dropWhile (\<lambda>c. c \<noteq> SLASH) path))"

lemma vfs_next_token_shorter:
  assumes "(t, q) = vfs_next_token p" "p \<noteq> []"
  shows "length q < length p"
proof -
  from assms(2) obtain c cs where p: "p = c # cs" by (cases p) auto
  have "length (dropWhile (\<lambda>c. c \<noteq> SLASH) (dropWhile (\<lambda>c. c = SLASH) cs)) \<le> length cs"
    by (rule le_trans [OF length_dropWhile_le length_dropWhile_le])
  moreover have "length (dropWhile (\<lambda>c. c \<noteq> SLASH) cs) \<le> length cs" by (rule length_dropWhile_le)
  ultimately show ?thesis
    using assms(1) p by (auto simp: vfs_next_token_def Let_def less_Suc_eq_le split: if_splits)
qed

function vfs_lookup_loop ::
  "u64 \<Rightarrow> u64 \<Rightarrow> u8 list \<Rightarrow> 'a vfs_state_scheme \<Rightarrow> (int \<times> u64 option) option" where
  "vfs_lookup_loop root cur p s =
     (if p = [] then Some (0, Some cur)
      else let (token, p') = vfs_next_token p in
        if token = [] then vfs_lookup_loop root cur p' s
        else if token = [DOT] then vfs_lookup_loop root root p' s
        else if cur = NULL then Some (- 1, None)
        else (case vnode_at s cur of
           None \<Rightarrow> None
         | Some v \<Rightarrow>
            (case Option.bind (vn_ops v) ops_lookup of
               None \<Rightarrow> Some (- 1, None)
             | Some f \<Rightarrow>
                (case f cur token s of
                   None \<Rightarrow> None
                 | Some (r, next) \<Rightarrow>
                     if r \<noteq> 0 \<or> next = None \<or> next = Some NULL then Some (- 1, None)
                     else vfs_lookup_loop root (the next) p' s))))"
  by auto
termination
  by (relation "measure (\<lambda>(root, cur, p, s). length p)")
    (auto dest: vfs_next_token_shorter)

declare vfs_lookup_loop.simps [simp del]

definition vfs_strip_dot :: "u8 list \<Rightarrow> u8 list" where
  "vfs_strip_dot path = (case path of
     [c] \<Rightarrow> if c = DOT then [] else path
   | c # d # p \<Rightarrow> if c = DOT \<and> d = SLASH then p else path
   | [] \<Rightarrow> path)"

definition vfs_lookup :: "u8 list \<Rightarrow> 'a vfs_state_scheme \<Rightarrow> (int \<times> u64 option) option" where
  "vfs_lookup path s =
     (case g_mounts s of
        [] \<Rightarrow> Some (- 1, None)
      | mount # _ \<Rightarrow>
          (case fs_mounts s mount of
             None \<Rightarrow> None
           | Some m \<Rightarrow> if mt_root m = NULL then Some (- 1, None)
                       else vfs_lookup_loop (mt_root m) (mt_root m) (vfs_strip_dot path) s))"

text \<open>The path is split at its last slash, into buffers of 256 and 128 bytes.\<close>

definition vfs_split_path :: "u8 list \<Rightarrow> (int \<times> u8 list \<times> u8 list) option" where
  "vfs_split_path path =
     (if path = [] \<or> hd path \<noteq> SLASH then Some (- 1, [], [])
      else let file = rev (takeWhile (\<lambda>c. c \<noteq> SLASH) (rev path));
               last_slash = length path - length file - 1;
               parent = (if last_slash = 0 then [SLASH] else take last_slash path)
           in if PATH_MAX \<le> length parent \<or> 128 \<le> length file then None
              else Some (0, parent, file))"

definition vfs_open ::
  "u8 list \<Rightarrow> u32 \<Rightarrow> 'a vfs_state_scheme \<Rightarrow> (int \<times> u64 option \<times> 'a vfs_state_scheme) option" where
  "vfs_open path flags s = do {
     (r, node) \<leftarrow> vfs_lookup path s;
     if r = 0 then do {
       v \<leftarrow> vnode_at s (the node);
       if flags AND O_CREAT \<noteq> 0 \<and> flags AND O_EXCL \<noteq> 0 then Some (- 17, None, s)
       else if flags AND O_DIRECTORY \<noteq> 0 \<and> vn_type v \<noteq> VNODE_TYPE_DIR then Some (- 20, None, s)
       else Some (0, node, s) }
     else if flags AND O_CREAT \<noteq> 0 then do {
       (r, parent_path, filename) \<leftarrow> vfs_split_path path;
       if r \<noteq> 0 then Some (- 2, None, s)
       else do {
         (r, parent) \<leftarrow> vfs_lookup parent_path s;
         if r \<noteq> 0 then Some (- 2, None, s)
         else do {
           v \<leftarrow> vnode_at s (the parent);
           if vn_type v \<noteq> VNODE_TYPE_DIR then Some (- 20, None, s)
           else (case Option.bind (vn_ops v) ops_create of
               None \<Rightarrow> Some (- 30, None, s)
             | Some create \<Rightarrow> do {
                 (r, new_node, s) \<leftarrow> create (the parent) filename s;
                 Some (if r \<noteq> 0 then (- 5, None, s) else (0, new_node, s)) }) } } }
     else Some (- 2, None, s) }"

end
