(* ===== verification/Cpu.thy ===== *)
theory Cpu
  imports Vfs
begin

text \<open>
  The tables of an x86-64 processor that the kernel builds, one set per CPU: segment
  descriptors and task state (\<^verbatim>\<open>src/arch/x86_64/gdt/gdt.c\<close>), the interrupt table they share
  (\<^verbatim>\<open>idt/idt.c\<close>), the interrupt controller (\<^verbatim>\<open>idt/pic.c\<close>), the registers that turn on SSE, UMIP
  and the system call instruction (\<^verbatim>\<open>misc/sse.c\<close>, \<^verbatim>\<open>misc/umip.c\<close>, \<^verbatim>\<open>syscall/init.c\<close>), and the
  arithmetic of the time stamp counter (\<^verbatim>\<open>clock/invariant-tsc.c\<close>).

  A CPU is named by its APIC id, the upper eight bits of a 32-bit register, so the arrays of
  \<open>CPU_ARCH_MAX_CPUS = 256\<close> elements are functions of an 8-bit word and the range checks on
  the id cannot fail. The addresses of objects in the kernel image, and of the entry points in
  assembly, are parameters.
\<close>

section \<open>The state\<close>

record kernel_image = kernel_build +
  sym_gdt_per_cpu :: "u8 \<Rightarrow> u64"
  sym_tss_per_cpu :: "u8 \<Rightarrow> u64"
  sym_cpu_local_data :: "u8 \<Rightarrow> u64"
  sym_tss_kernel_stack_end :: "u8 \<Rightarrow> u64"
  sym_idt_entries :: u64
  isr_stub_table :: "nat \<Rightarrow> u64"
  irq_stub_table :: "nat \<Rightarrow> u64"
  sym_isr0x40 :: u64
  sym_isr0x41 :: u64
  sym_syscall_entry :: u64

record gdt_entry =
  limit_low :: u16
  base_low :: u16
  base_middle :: u8
  access :: u8
  granularity :: u8
  base_high :: u8

record gdt_ptr =
  gp_limit :: u16
  gp_base :: u64

text \<open>The fields of the task state that the code gives a value; the others stay 0.\<close>

record tss =
  rsp0 :: u64
  iomap_base :: u16

record cpu_local =
  cl_kernel_stack :: u64
  cl_user_stack :: u64

record idt_entry =
  offset_low :: u16
  selector :: u16
  ist :: u8
  type_attr :: u8
  offset_mid :: u16
  offset_high :: u32
  reserved :: u32

text \<open>The registers of one CPU, and the byte written last to an I/O port.\<close>

record cpu_state = vfs_state +
  gdt_per_cpu :: "u8 \<Rightarrow> nat \<Rightarrow> u64"
  gdt_ptr_per_cpu :: "u8 \<Rightarrow> gdt_ptr"
  gdtr :: "u8 \<Rightarrow> u64"
  task_register :: "u8 \<Rightarrow> u16"
  tss_per_cpu :: "u8 \<Rightarrow> tss"
  cpu_local_data :: "u8 \<Rightarrow> cpu_local"
  idt_entries :: "nat \<Rightarrow> idt_entry"
  idt_built :: bool
  idtr :: "u8 \<Rightarrow> (u16 \<times> u64)"
  msr :: "u8 \<Rightarrow> u32 \<Rightarrow> u64"
  cr0 :: "u8 \<Rightarrow> u64"
  cr3 :: "u8 \<Rightarrow> u64"
  cr4 :: "u8 \<Rightarrow> u64"
  interrupts_on :: "u8 \<Rightarrow> bool"
  port_log :: "(u16 \<times> u8) list"

definition IA32_FS_BASE :: u32 where "IA32_FS_BASE = 0xC0000100"
definition IA32_GS_BASE :: u32 where "IA32_GS_BASE = 0xC0000101"
definition IA32_KERNEL_GS_BASE :: u32 where "IA32_KERNEL_GS_BASE = 0xC0000102"
definition IA32_EFER :: u32 where "IA32_EFER = 0xC0000080"
definition IA32_STAR :: u32 where "IA32_STAR = 0xC0000081"
definition IA32_LSTAR :: u32 where "IA32_LSTAR = 0xC0000082"
definition IA32_FMASK :: u32 where "IA32_FMASK = 0xC0000084"

definition read_msr :: "u8 \<Rightarrow> u32 \<Rightarrow> 'a cpu_state_scheme \<Rightarrow> u64" where
  "read_msr cpu r s = msr s cpu r"

definition write_msr :: "u8 \<Rightarrow> u32 \<Rightarrow> u64 \<Rightarrow> 'a cpu_state_scheme \<Rightarrow> 'a cpu_state_scheme" where
  "write_msr cpu r v s = s\<lparr>msr := (msr s)(cpu := (msr s cpu)(r := v))\<rparr>"

definition write_cr3 :: "u8 \<Rightarrow> u64 \<Rightarrow> 'a cpu_state_scheme \<Rightarrow> 'a cpu_state_scheme" where
  "write_cr3 cpu v s = s\<lparr>cr3 := (cr3 s)(cpu := v)\<rparr>"

definition arch_outb :: "u16 \<Rightarrow> u8 \<Rightarrow> 'a cpu_state_scheme \<Rightarrow> 'a cpu_state_scheme" where
  "arch_outb port v s = s\<lparr>port_log := port_log s @ [(port, v)]\<rparr>"

section \<open>Segments\<close>

text \<open>The union of a slot: the eight bytes of the packed entry, low byte first.\<close>

definition gdt_raw :: "gdt_entry \<Rightarrow> u64" where
  "gdt_raw e = ucast (limit_low e) OR push_bit 16 (ucast (base_low e)) OR push_bit 32 (ucast (base_middle e)) OR
     push_bit 40 (ucast (access e)) OR push_bit 48 (ucast (granularity e)) OR push_bit 56 (ucast (base_high e))"

definition arch_set_kernel_stack :: "'b kernel_image_scheme \<Rightarrow> u8 \<Rightarrow> u64 \<Rightarrow> 'a cpu_state_scheme \<Rightarrow> 'a cpu_state_scheme" where
  "arch_set_kernel_stack K cpu_id stack_top s =
     (let stack_top = (if stack_top = 0 then sym_tss_kernel_stack_end K cpu_id else stack_top) in
      s\<lparr>tss_per_cpu := (tss_per_cpu s)(cpu_id := (tss_per_cpu s cpu_id)\<lparr>rsp0 := stack_top\<rparr>),
        cpu_local_data := (cpu_local_data s)(cpu_id := (cpu_local_data s cpu_id)\<lparr>cl_kernel_stack := stack_top\<rparr>)\<rparr>)"

definition tss_set_rsp0 :: "u8 \<Rightarrow> u64 \<Rightarrow> 'a cpu_state_scheme \<Rightarrow> 'a cpu_state_scheme" where
  "tss_set_rsp0 cpu_id stack_top s =
     s\<lparr>tss_per_cpu := (tss_per_cpu s)(cpu_id := (tss_per_cpu s cpu_id)\<lparr>rsp0 := stack_top\<rparr>)\<rparr>"

definition tss_init_per_cpu :: "'b kernel_image_scheme \<Rightarrow> u8 \<Rightarrow> 'a cpu_state_scheme \<Rightarrow> 'a cpu_state_scheme" where
  "tss_init_per_cpu K cpu_id s =
     s\<lparr>tss_per_cpu := (tss_per_cpu s)(cpu_id := \<lparr>rsp0 = sym_tss_kernel_stack_end K cpu_id, iomap_base = 104\<rparr>)\<rparr>"

definition gdt_set_entry :: "nat \<Rightarrow> u32 \<Rightarrow> u32 \<Rightarrow> u8 \<Rightarrow> u8 \<Rightarrow> (nat \<Rightarrow> u64) \<Rightarrow> (nat \<Rightarrow> u64)" where
  "gdt_set_entry idx base limit acc gran gdt =
     gdt(idx := gdt_raw \<lparr>limit_low = ucast (limit AND 0xFFFF),
        base_low = ucast (base AND 0xFFFF),
        base_middle = ucast (drop_bit 16 base AND 0xFF),
        access = acc,
        granularity = (ucast (drop_bit 16 limit) AND 0x0F) OR (gran AND 0xF0),
        base_high = ucast (drop_bit 24 base AND 0xFF)\<rparr>)"

definition gdt_set_tss :: "nat \<Rightarrow> u64 \<Rightarrow> u32 \<Rightarrow> (nat \<Rightarrow> u64) \<Rightarrow> (nat \<Rightarrow> u64)" where
  "gdt_set_tss idx base limit gdt =
     (gdt_set_entry idx (ucast base) limit 0x89 0 gdt)(idx + 1 := ucast (ucast (drop_bit 32 base) :: u32))"

text \<open>The last two entries are the descriptor of the task state, which takes two slots.\<close>

definition gdt_init :: "'b kernel_image_scheme \<Rightarrow> u8 \<Rightarrow> 'a cpu_state_scheme \<Rightarrow> 'a cpu_state_scheme" where
  "gdt_init K cpu_id s =
     (let s = tss_init_per_cpu K cpu_id s;
          s = s\<lparr>gdt_ptr_per_cpu := (gdt_ptr_per_cpu s)(cpu_id := \<lparr>gp_limit = 8 * 8 - 1, gp_base = sym_gdt_per_cpu K cpu_id\<rparr>)\<rparr>;
          my_gdt = gdt_set_tss 6 (sym_tss_per_cpu K cpu_id) (104 - 1)
            (gdt_set_entry 5 0 0xFFFFFFFF 0xFA 0xA0
            (gdt_set_entry 4 0 0xFFFFFFFF 0xF2 0xC0
            (gdt_set_entry 3 0 0xFFFFFFFF 0xFA 0xA0
            (gdt_set_entry 2 0 0xFFFFFFFF 0x92 0xC0
            (gdt_set_entry 1 0 0xFFFFFFFF 0x9A 0xA0
            (gdt_set_entry 0 0 0 0 0 (gdt_per_cpu s cpu_id)))))));
          s = s\<lparr>gdt_per_cpu := (gdt_per_cpu s)(cpu_id := my_gdt),
                gdtr := (gdtr s)(cpu_id := sym_gdt_per_cpu K cpu_id),
                task_register := (task_register s)(cpu_id := 0x30),
                cpu_local_data := (cpu_local_data s)(cpu_id :=
                  \<lparr>cl_kernel_stack = sym_tss_kernel_stack_end K cpu_id, cl_user_stack = 0\<rparr>)\<rparr>;
          s = write_msr cpu_id IA32_GS_BASE (sym_cpu_local_data K cpu_id) s
      in write_msr cpu_id IA32_KERNEL_GS_BASE (sym_cpu_local_data K cpu_id) s)"

section \<open>Interrupts\<close>

definition idt_set_gate :: "nat \<Rightarrow> u64 \<Rightarrow> u16 \<Rightarrow> u8 \<Rightarrow> 'a cpu_state_scheme \<Rightarrow> 'a cpu_state_scheme" where
  "idt_set_gate num base sel flags s =
     s\<lparr>idt_entries := (idt_entries s)(num :=
        \<lparr>offset_low = ucast (base AND 0xFFFF), selector = sel, ist = 0, type_attr = flags,
         offset_mid = ucast (drop_bit 16 base AND 0xFFFF),
         offset_high = ucast (drop_bit 32 base AND 0xFFFFFFFF), reserved = 0\<rparr>)\<rparr>"

definition idt_init :: "'b kernel_image_scheme \<Rightarrow> u8 \<Rightarrow> 'a cpu_state_scheme \<Rightarrow> 'a cpu_state_scheme" where
  "idt_init K cpu s =
     (let s = (if idt_built s then s
        else let s = fold (\<lambda>i. idt_set_gate i 0 0 0) [0..<256] s;
                 s = fold (\<lambda>i. idt_set_gate i (isr_stub_table K i) 0x08 0x8E) [0..<32] s;
                 s = fold (\<lambda>i. idt_set_gate (32 + i) (irq_stub_table K i) 0x08 0x8E) [0..<16] s;
                 s = idt_set_gate 0x40 (sym_isr0x40 K) 0x08 0x8E s;
                 s = idt_set_gate 0x41 (sym_isr0x41 K) 0x08 0x8E s
             in s\<lparr>idt_built := True\<rparr>)
      in s\<lparr>idtr := (idtr s)(cpu := (16 * 256 - 1, sym_idt_entries K)),
           interrupts_on := (interrupts_on s)(cpu := True)\<rparr>)"

text \<open>
  The interrupt controller: \<open>inp\<close> is what a read of a port answers after the writes so far.
\<close>

definition io_wait :: "'a cpu_state_scheme \<Rightarrow> 'a cpu_state_scheme" where
  "io_wait = arch_outb 0x80 0"

definition pic_remap ::
  "((u16 \<times> u8) list \<Rightarrow> u16 \<Rightarrow> u8) \<Rightarrow> u8 \<Rightarrow> u8 \<Rightarrow> 'a cpu_state_scheme \<Rightarrow> 'a cpu_state_scheme" where
  "pic_remap inp offset1 offset2 s =
     (let a1 = inp (port_log s) 0x21; a2 = inp (port_log s) 0xA1;
          s = fold (\<lambda>(p, v) s. io_wait (arch_outb p v s))
                [(0x20, 0x11), (0xA0, 0x11), (0x21, offset1), (0xA1, offset2),
                 (0x21, 4), (0xA1, 2), (0x21, 1), (0xA1, 1)] s;
          s = arch_outb 0xA1 a2 (arch_outb 0x21 a1 s)
      in fold (\<lambda>irq s. arch_outb 0x21 (inp (port_log s) 0x21 AND NOT (push_bit irq 1)) s) [0, 1, 4] s)"

definition pic_send_eoi :: "u32 \<Rightarrow> 'a cpu_state_scheme \<Rightarrow> 'a cpu_state_scheme" where
  "pic_send_eoi vector s =
     arch_outb 0x20 0x20 (if 40 \<le> vector then arch_outb 0xA0 0x20 s else s)"

section \<open>Control registers\<close>

definition enable_sse :: "u8 \<Rightarrow> 'a cpu_state_scheme \<Rightarrow> 'a cpu_state_scheme" where
  "enable_sse cpu s =
     (let c0 = cr0 s cpu OR push_bit 1 1; c0 = c0 AND NOT (push_bit 2 1); c0 = c0 AND NOT (push_bit 3 1);
          c4 = cr4 s cpu OR push_bit 9 1; c4 = c4 OR push_bit 10 1
      in s\<lparr>cr0 := (cr0 s)(cpu := c0), cr4 := (cr4 s)(cpu := c4)\<rparr>)"

text \<open>\<open>leaf7_ecx\<close> is register \<open>ecx\<close> of CPUID leaf 7.\<close>

definition cpu_has_umip :: "u32 \<Rightarrow> bool" where
  "cpu_has_umip leaf7_ecx \<longleftrightarrow> leaf7_ecx AND push_bit 9 1 \<noteq> 0"

definition enable_umip :: "u32 \<Rightarrow> u8 \<Rightarrow> 'a cpu_state_scheme \<Rightarrow> 'a cpu_state_scheme" where
  "enable_umip leaf7_ecx cpu s =
     (if \<not> cpu_has_umip leaf7_ecx then s else s\<lparr>cr4 := (cr4 s)(cpu := cr4 s cpu OR push_bit 11 1)\<rparr>)"

definition init_syscall :: "'b kernel_image_scheme \<Rightarrow> u8 \<Rightarrow> 'a cpu_state_scheme \<Rightarrow> 'a cpu_state_scheme" where
  "init_syscall K cpu s =
     (let s = write_msr cpu IA32_EFER (read_msr cpu IA32_EFER s OR 1) s;
          s = write_msr cpu IA32_STAR (push_bit 32 0x08 OR push_bit 48 0x1b) s;
          s = write_msr cpu IA32_LSTAR (sym_syscall_entry K) s
      in write_msr cpu IA32_FMASK (push_bit 9 1 OR push_bit 10 1) s)"

section \<open>Time\<close>

text \<open>CPUID answers and readings of the counter are parameters; a division by 0 traps.\<close>

definition has_invariant_tsc :: "u32 \<Rightarrow> u32 \<Rightarrow> bool" where
  "has_invariant_tsc max_leaf leaf7_edx \<longleftrightarrow> \<not> max_leaf < 0x80000007 \<and> leaf7_edx AND push_bit 8 1 \<noteq> 0"

definition invariant_tsc_to_ns :: "u64 \<Rightarrow> u64 \<Rightarrow> u64 option" where
  "invariant_tsc_to_ns ticks tsc_hz = (if tsc_hz = 0 then None else Some (ticks * 1000000000 div tsc_hz))"

definition tsc_delta_ns :: "u64 \<Rightarrow> u64 \<Rightarrow> u64 \<Rightarrow> u64 option" where
  "tsc_delta_ns start end1 tsc_hz = invariant_tsc_to_ns (end1 - start) tsc_hz"

definition calibrate_tsc :: "u64 \<Rightarrow> u64 \<Rightarrow> u64 \<Rightarrow> u64 option" where
  "calibrate_tsc start end1 delay_ms = (if delay_ms = 0 then None else Some ((end1 - start) * 1000 div delay_ms))"

definition tsc_get_ns_time :: "bool \<Rightarrow> bool \<Rightarrow> u64 \<Rightarrow> u64 \<Rightarrow> u64 \<Rightarrow> u64 option" where
  "tsc_get_ns_time invariant initialized now boot_value frequency =
     (if \<not> invariant \<or> \<not> initialized then Some 0 else invariant_tsc_to_ns (now - boot_value) frequency)"

section \<open>What the processor reads from the tables\<close>

text \<open>Base and limit of a descriptor, of the two slots of a system descriptor, and the entry point of a gate.\<close>

definition desc_base :: "u64 \<Rightarrow> u32" where
  "desc_base d = ucast (take_bit 24 (drop_bit 16 d)) OR push_bit 24 (ucast (drop_bit 56 d))"

definition desc_limit :: "u64 \<Rightarrow> u32" where
  "desc_limit d = ucast (take_bit 16 d) OR push_bit 16 (ucast (take_bit 4 (drop_bit 48 d)))"

definition desc_access :: "u64 \<Rightarrow> u8" where
  "desc_access d = ucast (drop_bit 40 d)"

definition system_base :: "u64 \<Rightarrow> u64 \<Rightarrow> u64" where
  "system_base lo hi = ucast (desc_base lo) OR push_bit 32 (take_bit 32 hi)"

definition gate_target :: "idt_entry \<Rightarrow> u64" where
  "gate_target e = ucast (offset_low e) OR push_bit 16 (ucast (offset_mid e)) OR push_bit 32 (ucast (offset_high e))"

lemma and_lits: "(x :: u32) AND 0xFFFF = take_bit 16 x" "(x :: u32) AND 0xFF = take_bit 8 x"
  "(y :: u8) AND 0xF = take_bit 4 y" "(y :: u8) AND 0xF0 = push_bit 4 (drop_bit 4 y)"
  "(z :: u64) AND 0xFFFF = take_bit 16 z" "(z :: u64) AND 0xFFFFFFFF = take_bit 32 z"
proof -
  have "(0xF0 :: u8) = NOT (mask 4)" by (rule unsigned_word_eqI) (simp add: mask_numeral)
  then show "(y :: u8) AND 0xF0 = push_bit 4 (drop_bit 4 y)" by (simp only: and_not_mask_push)
qed (simp_all add: take_bit_eq_mask mask_numeral)

lemma bit_u8: "bit (x :: u8) n \<Longrightarrow> n < 8"
  by (auto dest: bit_imp_le_length)

lemma gdt_access: "desc_access (gdt_set_entry i b l a g t i) = a"
  unfolding gdt_set_entry_def gdt_raw_def desc_access_def and_lits
  by (rule bit_word_eqI) (simp add: bit_simps)

lemma gdt_base: "desc_base (gdt_set_entry i b l a g t i) = b"
  unfolding gdt_set_entry_def gdt_raw_def desc_base_def and_lits
  by (rule bit_word_eqI) (auto simp: bit_simps dest: bit_u8)

lemma gate_target_set: "gate_target (idt_entries (idt_set_gate n b sel f s) n) = b"
proof -
  have "x < 64 \<Longrightarrow> bit b x \<Longrightarrow> \<not> x < 16 \<Longrightarrow> \<not> bit b (32 + (x - 32)) \<Longrightarrow> x - 16 < 16" for x
    by (cases "32 \<le> x") auto
  then show ?thesis
    unfolding idt_set_gate_def gate_target_def and_lits
    by simp (rule bit_word_eqI, auto simp: bit_simps)
qed

lemma gdt_limit: "desc_limit (gdt_set_entry i b l a g t i) = take_bit 20 l"
proof (rule bit_word_eqI)
  fix n assume "n < LENGTH(32)"
  show "bit (desc_limit (gdt_set_entry i b l a g t i)) n = bit (take_bit 20 l) n"
  proof (cases "n < 16")
    case True
    then show ?thesis
      by (simp add: gdt_set_entry_def gdt_raw_def desc_limit_def and_lits bit_simps)
  next
    case False
    then obtain m where "n = 16 + m" by (auto dest: le_Suc_ex simp: not_less)
    with \<open>n < LENGTH(32)\<close> show ?thesis
      by (auto simp: gdt_set_entry_def gdt_raw_def desc_limit_def and_lits bit_simps dest: bit_u8)
  qed
qed

lemmas gdt_reads = gdt_access gdt_base gdt_limit

lemma gdt_set_entry_other: "j \<noteq> i \<Longrightarrow> gdt_set_entry i b l a g t j = t j"
  by (simp add: gdt_set_entry_def)

lemma system_base_set:
  "system_base (gdt_set_tss i b l t i) (gdt_set_tss i b l t (i + 1)) = b"
proof -
  have lo: "desc_base (gdt_set_tss i b l t i) = ucast b"
    by (simp add: gdt_set_tss_def gdt_base)
  have hi: "gdt_set_tss i b l t (i + 1) = drop_bit 32 b"
    by (simp add: gdt_set_tss_def) (rule bit_word_eqI, auto simp: bit_simps dest: bit_imp_le_length)
  show ?thesis unfolding system_base_def lo hi
    by (rule bit_word_eqI) (auto simp: bit_simps)
qed


lemma idt_built_idempotent:
  "idt_built s \<Longrightarrow> idt_entries (idt_init K cpu s) = idt_entries s"
  by (simp add: idt_init_def Let_def)

lemma idt_set_gates:
  "inj f \<Longrightarrow> gate_target (idt_entries (fold (\<lambda>i. idt_set_gate (f i) (h i) sel fl) is s) n) =
     (if n \<in> f ` set is then h (inv f n) else gate_target (idt_entries s n))"
proof (induction "is" arbitrary: s)
  case (Cons i "is")
  then show ?case
    by (cases "n = f i") (auto simp: gate_target_set inv_f_f, auto simp: idt_set_gate_def)
qed simp

text \<open>
  The first \<open>idt_init\<close> makes vector \<open>v\<close> enter the stub of its exception, of its hardware interrupt, or of
  the two software vectors, and no other vector.\<close>

lemma idt_init_targets:
  assumes "\<not> idt_built s"
  shows "gate_target (idt_entries (idt_init K cpu s) v) =
    (if v < 32 then isr_stub_table K v else if v < 48 then irq_stub_table K (v - 32)
     else if v = 0x40 then sym_isr0x40 K else if v = 0x41 then sym_isr0x41 K
     else if v < 256 then 0 else gate_target (idt_entries s v))"
proof -
  have inv1: "inv (\<lambda>i. i) x = x" for x :: nat by (rule inv_f_f) simp
  have inv32: "inv (\<lambda>i. 32 + i) (32 + x) = x" for x :: nat by (rule inv_f_f) simp
  have gset: "gate_target (idt_entries (idt_set_gate k b sel f t) n) =
      (if n = k then b else gate_target (idt_entries t n))" for k b sel f t n
    by (auto simp: gate_target_set) (simp add: idt_set_gate_def)
  have im: "n \<in> (\<lambda>i. 32 + i) ` {0..<16} \<longleftrightarrow> 32 \<le> n \<and> n < 48" for n :: nat
    by (auto simp: image_iff)
  have i32: "32 \<le> v \<Longrightarrow> inv (\<lambda>i. 32 + i) v = v - 32" using inv32 [of "v - 32"] by simp
  show ?thesis
    using assms by (auto simp: idt_init_def Let_def gset idt_set_gates im i32 inv1 idt_set_gates [where f = "\<lambda>i. i"]
        idt_set_gates [where f = "\<lambda>i. 32 + i"] inj_def)
qed

end
