(* ===== verification/Sched.thy ===== *)
theory Sched
  imports Cpu
begin

text \<open>
  The scheduler of the x86-64 kernel, \<^verbatim>\<open>src/exec/scheduler.c\<close>: thread control blocks, the
  ready queue, wait queues, parked and dead threads, and the switch itself, over typed objects
  at the addresses malloc answers. The data of processes (\<^verbatim>\<open>include/exec/process.h\<close>) is here
  too, since a switch reads the page table of the next thread's process.

  The scheduler runs with the interrupts of its CPU off and the parts that touch shared lists
  hold \<open>scheduler_lock\<close>. A step of the model is such a part: the CPU is an argument, the lock
  is implicit, and the interleavings of CPUs are the sequences of steps. \<open>regs\<close> is the address
  of the register frame that the interrupt entry pushed, in the store \<open>frames\<close>.
\<close>

section \<open>Data\<close>

record registers =
  rg_rax :: u64
  rg_rbx :: u64
  rg_rcx :: u64
  rg_rdx :: u64
  rg_rsi :: u64
  rg_rdi :: u64
  rg_rbp :: u64
  rg_r8 :: u64
  rg_r9 :: u64
  rg_r10 :: u64
  rg_r11 :: u64
  rg_r12 :: u64
  rg_r13 :: u64
  rg_r14 :: u64
  rg_r15 :: u64
  rg_int_no :: u64
  rg_err_code :: u64
  rg_rip :: u64
  rg_cs :: u64
  rg_rflags :: u64
  rg_rsp :: u64
  rg_ss :: u64

definition zero_registers :: registers where
  "zero_registers = \<lparr>rg_rax = 0, rg_rbx = 0, rg_rcx = 0, rg_rdx = 0, rg_rsi = 0, rg_rdi = 0, rg_rbp = 0,
     rg_r8 = 0, rg_r9 = 0, rg_r10 = 0, rg_r11 = 0, rg_r12 = 0, rg_r13 = 0, rg_r14 = 0, rg_r15 = 0,
     rg_int_no = 0, rg_err_code = 0, rg_rip = 0, rg_cs = 0, rg_rflags = 0, rg_rsp = 0, rg_ss = 0\<rparr>"

datatype thread_state =
    THREAD_STATE_READY
  | THREAD_STATE_RUNNING
  | THREAD_STATE_BLOCKED
  | THREAD_STATE_TERMINATED
  | THREAD_STATE_UNINITIALISED

record thread_stack =
  ts_ptr :: u64
  ts_base :: u64
  ts_size :: u64
  ts_user_mapped :: bool

record wait_queue =
  wq_head :: u64
  wq_seq :: u64

record thread =
  t_id :: u32
  t_name :: "u8 list"
  t_state :: thread_state
  t_process :: u64
  t_fs_base :: u64
  t_main :: u64
  t_kernel :: u64
  t_ring :: int
  t_regs :: u64
  t_waiting_on :: u64
  t_wait_seq :: u64
  t_next :: u64

record file_desc =
  fd_vnode :: u64
  fd_offset :: u64
  fd_flags :: u32
  fd_used :: bool

text \<open>The wait queue of a process, \<open>child_wq\<close>, is the wait queue at the address \<open>child_wq p\<close>.\<close>

record process =
  p_pid :: u32
  p_ppid :: u32
  p_name :: "u8 list"
  p_page_table :: u64
  p_brk_start :: u64
  p_brk_current :: u64
  p_mmap_start :: u64
  p_mmap_current :: u64
  p_main_thread :: u64
  p_next :: u64
  p_fds :: "file_desc list"
  p_syscall_conv :: u32
  p_owned_pages :: vm_page_list
  p_zombie :: bool
  p_exit_status :: u32
  p_main_tid :: u32

definition child_wq :: "u64 \<Rightarrow> u64" where
  "child_wq p = p + 912"

record sched_state = cpu_state +
  threads :: "u64 \<rightharpoonup> thread"
  thread_stacks :: "u64 \<rightharpoonup> thread_stack"
  frames :: "u64 \<rightharpoonup> registers"
  wait_queues :: "u64 \<rightharpoonup> wait_queue"
  processes :: "u64 \<rightharpoonup> process"
  current_threads :: "u8 \<Rightarrow> u64"
  idle_threads :: "u8 \<Rightarrow> u64"
  boot_cr3 :: "u8 \<Rightarrow> u64"
  active_cr3 :: "u8 \<Rightarrow> u64"
  ready_queue_head :: u64
  ready_queue_tail :: u64
  zombie_list :: u64
  pending_zombie :: "u8 \<Rightarrow> u64"
  pending_park :: "u8 \<Rightarrow> u64"
  next_thread_id :: u32
  context_switch_lock :: bool

abbreviation SIZEOF_THREAD :: u64 where "SIZEOF_THREAD \<equiv> 112"
abbreviation SIZEOF_REGISTERS :: u64 where "SIZEOF_REGISTERS \<equiv> 176"
abbreviation SIZEOF_THREAD_STACK :: u64 where "SIZEOF_THREAD_STACK \<equiv> 32"
abbreviation (input) THREAD_KERNEL_STACK_SIZE :: u64 where "THREAD_KERNEL_STACK_SIZE \<equiv> 16 * 1024"

text \<open>Writing through a pointer to a thread, or to a frame; a wild pointer is undefined.\<close>

definition upd_thread :: "u64 \<Rightarrow> (thread \<Rightarrow> thread) \<Rightarrow> 'a sched_state_scheme \<Rightarrow> 'a sched_state_scheme option" where
  "upd_thread p f s = (case threads s p of None \<Rightarrow> None | Some t \<Rightarrow> Some (s\<lparr>threads := (threads s)(p \<mapsto> f t)\<rparr>))"

definition upd_frame :: "u64 \<Rightarrow> (registers \<Rightarrow> registers) \<Rightarrow> 'a sched_state_scheme \<Rightarrow> 'a sched_state_scheme option" where
  "upd_frame p f s = (case frames s p of None \<Rightarrow> None | Some r \<Rightarrow> Some (s\<lparr>frames := (frames s)(p \<mapsto> f r)\<rparr>))"

section \<open>The ready queue\<close>

definition enqueue_locked :: "u64 \<Rightarrow> 'a sched_state_scheme \<Rightarrow> 'a sched_state_scheme option" where
  "enqueue_locked t s = do {
     s \<leftarrow> upd_thread t (\<lambda>n. n\<lparr>t_state := THREAD_STATE_READY, t_next := NULL\<rparr>) s;
     if ready_queue_tail s = NULL then Some (s\<lparr>ready_queue_head := t, ready_queue_tail := t\<rparr>)
     else do {
       s \<leftarrow> upd_thread (ready_queue_tail s) (\<lambda>n. n\<lparr>t_next := t\<rparr>) s;
       Some (s\<lparr>ready_queue_tail := t\<rparr>) } }"

definition dequeue_locked :: "'a sched_state_scheme \<Rightarrow> (u64 \<times> 'a sched_state_scheme) option" where
  "dequeue_locked s =
     (let t = ready_queue_head s in
      if t = NULL then Some (NULL, s)
      else do {
        n \<leftarrow> threads s t;
        let s = s\<lparr>ready_queue_head := t_next n\<rparr>;
        let s = (if ready_queue_head s = NULL then s\<lparr>ready_queue_tail := NULL\<rparr> else s);
        s \<leftarrow> upd_thread t (\<lambda>n. n\<lparr>t_next := NULL\<rparr>) s;
        Some (t, s) })"

definition scheduler_enqueue :: "u64 \<Rightarrow> 'a sched_state_scheme \<Rightarrow> 'a sched_state_scheme option" where
  "scheduler_enqueue t s = enqueue_locked t s"

section \<open>Making and reaping threads\<close>

definition kernel_stack_top :: "u64 \<Rightarrow> 'a sched_state_scheme \<Rightarrow> u64 option" where
  "kernel_stack_top t s =
     (if t = NULL then Some 0
      else do {
        n \<leftarrow> threads s t;
        if t_kernel n = NULL then Some 0
        else do { k \<leftarrow> thread_stacks s (t_kernel n); Some ((ts_base k + ts_size k) AND NOT 0xF) } })"

definition kernel_stack_alloc :: "'a sched_state_scheme \<Rightarrow> (u64 \<times> 'a sched_state_scheme) option" where
  "kernel_stack_alloc s = do {
     (ks, s) \<leftarrow> malloc SIZEOF_THREAD_STACK s;
     if ks = NULL then Some (NULL, s)
     else do {
       (base, s) \<leftarrow> malloc THREAD_KERNEL_STACK_SIZE s;
       if base = NULL then do { s \<leftarrow> free ks s; Some (NULL, s) }
       else Some (ks, s\<lparr>kbytes := memset base 0 THREAD_KERNEL_STACK_SIZE (kbytes s),
                         thread_stacks := (thread_stacks s)(ks \<mapsto>
                           \<lparr>ts_ptr = base + THREAD_KERNEL_STACK_SIZE, ts_base = base,
                            ts_size = THREAD_KERNEL_STACK_SIZE, ts_user_mapped = False\<rparr>)\<rparr>) } }"

text \<open>Names are cut to the 31 bytes that fit before the terminator.\<close>

definition thread_set_name :: "u8 list \<Rightarrow> u8 list" where
  "thread_set_name name = take 31 name"

definition tcb_alloc :: "u8 list \<Rightarrow> 'a sched_state_scheme \<Rightarrow> (u64 \<times> 'a sched_state_scheme) option" where
  "tcb_alloc name s = do {
     (t, s) \<leftarrow> malloc SIZEOF_THREAD s;
     if t = NULL then Some (NULL, s)
     else do {
       (regs, s) \<leftarrow> malloc SIZEOF_REGISTERS s;
       if regs = NULL then do { s \<leftarrow> free t s; Some (NULL, s) }
       else Some (t, s\<lparr>frames := (frames s)(regs \<mapsto> zero_registers),
         threads := (threads s)(t \<mapsto> \<lparr>t_id = next_thread_id s, t_name = thread_set_name name,
           t_state = THREAD_STATE_UNINITIALISED, t_process = NULL, t_fs_base = 0, t_main = NULL, t_kernel = NULL,
           t_ring = 0, t_regs = regs, t_waiting_on = NULL, t_wait_seq = 0, t_next = NULL\<rparr>),
         next_thread_id := next_thread_id s + 1\<rparr>) } }"

definition stack_free :: "u64 \<Rightarrow> 'a sched_state_scheme \<Rightarrow> 'a sched_state_scheme option" where
  "stack_free st s =
     (if st = NULL then Some s
      else do {
        k \<leftarrow> thread_stacks s st;
        s \<leftarrow> free (ts_base k) s;
        s \<leftarrow> free st s;
        Some (s\<lparr>thread_stacks := (thread_stacks s)(st := None)\<rparr>) })"

definition reap_thread :: "u64 \<Rightarrow> thread \<Rightarrow> 'a sched_state_scheme \<Rightarrow> 'a sched_state_scheme option" where
  "reap_thread t n s = do {
     s \<leftarrow> stack_free (t_kernel n) s;
     s \<leftarrow> stack_free (t_main n) s;
     s \<leftarrow> (if t_regs n \<noteq> NULL then do { s \<leftarrow> free (t_regs n) s; Some (s\<lparr>frames := (frames s)(t_regs n := None)\<rparr>) } else Some s);
     s \<leftarrow> free t s;
     Some (s\<lparr>threads := (threads s)(t := None)\<rparr>) }"

partial_function (option) reap_loop :: "u64 \<Rightarrow> 'a sched_state_scheme \<Rightarrow> 'a sched_state_scheme option" where
  "reap_loop t s =
     (if t = NULL then Some s
      else do {
        n \<leftarrow> threads s t;
        s \<leftarrow> reap_thread t n s;
        reap_loop (t_next n) s })"

definition scheduler_reap :: "'a sched_state_scheme \<Rightarrow> 'a sched_state_scheme option" where
  "scheduler_reap s =
     (if zombie_list s = NULL then Some s
      else reap_loop (zombie_list s) (s\<lparr>zombie_list := NULL\<rparr>))"

definition register_idle_for_this_cpu :: "u8 \<Rightarrow> u64 \<Rightarrow> 'a sched_state_scheme \<Rightarrow> 'a sched_state_scheme option" where
  "register_idle_for_this_cpu cpu t s = do {
     s \<leftarrow> upd_thread t (\<lambda>n. n\<lparr>t_state := THREAD_STATE_RUNNING\<rparr>) s;
     Some (s\<lparr>boot_cr3 := (boot_cr3 s)(cpu := cr3 s cpu), active_cr3 := (active_cr3 s)(cpu := cr3 s cpu),
             current_threads := (current_threads s)(cpu := t), idle_threads := (idle_threads s)(cpu := t)\<rparr>) }"

definition scheduler_init :: "u8 \<Rightarrow> 'a sched_state_scheme \<Rightarrow> 'a sched_state_scheme option" where
  "scheduler_init cpu s = do {
     (t, s) \<leftarrow> tcb_alloc [0x6D, 0x61, 0x69, 0x6E] s;
     if t = NULL then Some s else register_idle_for_this_cpu cpu t s }"

definition scheduler_ap_init :: "u8 \<Rightarrow> 'a sched_state_scheme \<Rightarrow> 'a sched_state_scheme option" where
  "scheduler_ap_init cpu s = do {
     (t, s) \<leftarrow> tcb_alloc [0x61, 0x70, 0x5F, 0x30 + cpu mod 10] s;
     if t = NULL then Some s else register_idle_for_this_cpu cpu t s }"

partial_function (option) user_pages_loop ::
  "'b kernel_build_scheme \<Rightarrow> u64 \<Rightarrow> u64 \<Rightarrow> 'a sched_state_scheme \<Rightarrow> 'a sched_state_scheme option" where
  "user_pages_loop K a end1 s =
     (if a < end1 then user_pages_loop K (a + 4096) end1 (set_page_permissions K a (VMF_USER OR VMF_WRITE) s)
      else Some s)"

text \<open>\<open>t->ring\<close> is left at the 0 of the fresh block.\<close>

definition thread_create ::
  "'b kernel_build_scheme \<Rightarrow> u8 list \<Rightarrow> u64 \<Rightarrow> u64 \<Rightarrow> int \<Rightarrow> u64 \<Rightarrow> 'a sched_state_scheme \<Rightarrow> (u64 \<times> 'a sched_state_scheme) option" where
  "thread_create K name entry_point arg ring stack s = do {
     s \<leftarrow> scheduler_reap s;
     (t, s) \<leftarrow> tcb_alloc name s;
     if t = NULL then Some (NULL, s)
     else do {
       n \<leftarrow> threads s t;
       (ks, s) \<leftarrow> (if ring = 3 then kernel_stack_alloc s else Some (NULL, s));
       if ring = 3 \<and> ks = NULL then do {
         s \<leftarrow> free (t_regs n) s;
         s \<leftarrow> free t s;
         Some (NULL, s\<lparr>frames := (frames s)(t_regs n := None), threads := (threads s)(t := None)\<rparr>) }
       else do {
         k \<leftarrow> thread_stacks s stack;
         s \<leftarrow> (if ring = 3 \<and> \<not> ts_user_mapped k
               then user_pages_loop K (ts_base k AND NOT 0xFFF) ((ts_base k + ts_size k + 0xFFF) AND NOT 0xFFF) s
               else Some s);
         s \<leftarrow> upd_thread t (\<lambda>n. n\<lparr>t_kernel := ks, t_main := stack\<rparr>) s;
         s \<leftarrow> upd_frame (t_regs n) (\<lambda>r. r\<lparr>rg_rip := entry_point,
               rg_cs := (if ring = 0 then 0x08 else 0x28 OR 3), rg_ss := (if ring = 0 then 0x10 else 0x20 OR 3),
               rg_rflags := 0x202, rg_rsp := ts_ptr k, rg_rdi := arg, rg_rax := arg\<rparr>) s;
         Some (t, s) } } }"

definition thread_clone_user ::
  "u64 \<Rightarrow> u64 \<Rightarrow> u64 \<Rightarrow> u64 \<Rightarrow> 'a sched_state_scheme \<Rightarrow> (u64 \<times> 'a sched_state_scheme) option" where
  "thread_clone_user parent frame user_stack fs_base s = do {
     s \<leftarrow> scheduler_reap s;
     p \<leftarrow> threads s parent;
     (t, s) \<leftarrow> tcb_alloc (t_name p) s;
     if t = NULL then Some (NULL, s)
     else do {
       n \<leftarrow> threads s t;
       (ks, s) \<leftarrow> kernel_stack_alloc s;
       if ks = NULL then do {
         s \<leftarrow> free (t_regs n) s;
         s \<leftarrow> free t s;
         Some (NULL, s\<lparr>frames := (frames s)(t_regs n := None), threads := (threads s)(t := None)\<rparr>) }
       else do {
         s \<leftarrow> upd_thread t (\<lambda>n. n\<lparr>t_kernel := ks, t_main := user_stack, t_ring := 3, t_fs_base := fs_base\<rparr>) s;
         f \<leftarrow> frames s frame;
         s \<leftarrow> upd_frame (t_regs n) (\<lambda>_. f\<lparr>rg_rax := 0, rg_int_no := 0, rg_err_code := 0,
               rg_cs := 0x28 OR 3, rg_ss := 0x20 OR 3, rg_rflags := rg_rflags f OR 0x202\<rparr>) s;
         Some (t, s) } } }"

section \<open>Switching\<close>

text \<open>The interrupted registers are saved; a thread interrupted in the kernel resumes on its own stack.\<close>

definition save_frame :: "u64 \<Rightarrow> u64 \<Rightarrow> bool \<Rightarrow> 'a sched_state_scheme \<Rightarrow> 'a sched_state_scheme option" where
  "save_frame cur regs interrupted_kernel s = do {
     c \<leftarrow> threads s cur;
     r \<leftarrow> frames s regs;
     if t_regs c = NULL then Some s
     else do {
       s \<leftarrow> upd_frame (t_regs c) (\<lambda>_. r) s;
       if interrupted_kernel then upd_frame (t_regs c) (\<lambda>r. r\<lparr>rg_rsp := regs + 160, rg_ss := 0x10\<rparr>) s else Some s } }"

text \<open>A thread that blocked on this CPU is parked once the CPU has left its stack, unless it was woken since.\<close>

definition park_pending :: "u8 \<Rightarrow> 'a sched_state_scheme \<Rightarrow> 'a sched_state_scheme option" where
  "park_pending cpu s =
     (let t = pending_park s cpu in
      if t = NULL then Some s
      else do {
        let s = s\<lparr>pending_park := (pending_park s)(cpu := NULL)\<rparr>;
        n \<leftarrow> threads s t;
        let wq = t_waiting_on n;
        q \<leftarrow> (if wq = NULL then Some \<lparr>wq_head = NULL, wq_seq = 0\<rparr> else wait_queues s wq);
        if wq = NULL \<or> wq_seq q \<noteq> t_wait_seq n then do {
          s \<leftarrow> upd_thread t (\<lambda>n. n\<lparr>t_waiting_on := NULL\<rparr>) s;
          enqueue_locked t s }
        else do {
          s \<leftarrow> upd_thread t (\<lambda>n. n\<lparr>t_next := wq_head q\<rparr>) s;
          Some (s\<lparr>wait_queues := (wait_queues s)(wq \<mapsto> q\<lparr>wq_head := t\<rparr>)\<rparr>) } })"

definition bury_pending :: "u8 \<Rightarrow> 'a sched_state_scheme \<Rightarrow> 'a sched_state_scheme option" where
  "bury_pending cpu s =
     (let t = pending_zombie s cpu in
      if t = NULL then Some s
      else do {
        s \<leftarrow> upd_thread t (\<lambda>n. n\<lparr>t_next := zombie_list s\<rparr>) s;
        Some (s\<lparr>zombie_list := t, pending_zombie := (pending_zombie s)(cpu := NULL)\<rparr>) })"

definition pick_next :: "u8 \<Rightarrow> u64 \<Rightarrow> 'a sched_state_scheme \<Rightarrow> (u64 \<times> 'a sched_state_scheme) option" where
  "pick_next cpu cur s = do {
     let idle = idle_threads s cpu;
     c \<leftarrow> threads s cur;
     s \<leftarrow> (if t_state c = THREAD_STATE_RUNNING \<and> cur \<noteq> idle then enqueue_locked cur s else Some s);
     (next, s) \<leftarrow> dequeue_locked s;
     Some (if next = NULL then (if idle \<noteq> NULL then idle else cur) else next, s) }"

definition switch_threads :: "u8 \<Rightarrow> u64 \<Rightarrow> u64 \<Rightarrow> 'a sched_state_scheme \<Rightarrow> 'a sched_state_scheme option" where
  "switch_threads cpu cur next s = do {
     c \<leftarrow> threads s cur;
     let s = (if t_state c = THREAD_STATE_BLOCKED then s\<lparr>pending_park := (pending_park s)(cpu := cur)\<rparr> else s);
     let s = (if t_state c = THREAD_STATE_TERMINATED \<and> cur \<noteq> idle_threads s cpu
              then s\<lparr>pending_zombie := (pending_zombie s)(cpu := cur)\<rparr> else s);
     s \<leftarrow> upd_thread next (\<lambda>n. n\<lparr>t_state := THREAD_STATE_RUNNING\<rparr>) s;
     let s = s\<lparr>current_threads := (current_threads s)(cpu := next)\<rparr>;
     s \<leftarrow> (if t_process c \<noteq> NULL then upd_thread cur (\<lambda>n. n\<lparr>t_fs_base := read_msr cpu IA32_FS_BASE s\<rparr>) s else Some s);
     n \<leftarrow> threads s next;
     Some (if t_process n \<noteq> NULL then write_msr cpu IA32_FS_BASE (t_fs_base n) s else s) }"

definition switch_address_space ::
  "'b kernel_image_scheme \<Rightarrow> u8 \<Rightarrow> u64 \<Rightarrow> 'a sched_state_scheme \<Rightarrow> 'a sched_state_scheme option" where
  "switch_address_space K cpu next s = do {
     n \<leftarrow> threads s next;
     pt \<leftarrow> (if t_process n = NULL then Some NULL else map_option p_page_table (processes s (t_process n)));
     let (root, force) = (if pt \<noteq> NULL then (hhdm_virt_to_phys K pt, True) else (boot_cr3 s cpu, False));
     Some (if root \<noteq> 0 \<and> (force \<or> root \<noteq> active_cr3 s cpu)
       then (write_cr3 cpu root s)\<lparr>active_cr3 := (active_cr3 s)(cpu := root)\<rparr> else s) }"

definition scheduler_schedule ::
  "'b kernel_image_scheme \<Rightarrow> u8 \<Rightarrow> u64 \<Rightarrow> 'a sched_state_scheme \<Rightarrow> (u64 \<times> 'a sched_state_scheme) option" where
  "scheduler_schedule K cpu regs s =
     (let cur = current_threads s cpu in
      if context_switch_lock s \<or> cur = NULL \<or> regs = NULL then Some (regs, s)
      else do {
        r \<leftarrow> frames s regs;
        c \<leftarrow> threads s cur;
        let interrupted_kernel = (rg_cs r AND 3 = 0);
        if interrupted_kernel \<and> t_process c \<noteq> NULL \<and> t_state c \<noteq> THREAD_STATE_BLOCKED then Some (regs, s)
        else do {
          s \<leftarrow> save_frame cur regs interrupted_kernel s;
          s \<leftarrow> park_pending cpu s;
          s \<leftarrow> bury_pending cpu s;
          (next, s) \<leftarrow> pick_next cpu cur s;
          if next = cur then do {
            s \<leftarrow> upd_thread cur (\<lambda>n. n\<lparr>t_waiting_on := NULL, t_state := THREAD_STATE_RUNNING\<rparr>) s;
            Some (regs, s) }
          else do {
            s \<leftarrow> switch_threads cpu cur next s;
            top \<leftarrow> kernel_stack_top next s;
            let s = arch_set_kernel_stack K cpu top s;
            s \<leftarrow> switch_address_space K cpu next s;
            n \<leftarrow> threads s next;
            Some (t_regs n, s) } } })"

section \<open>Waiting\<close>

definition wait_queue_snapshot :: "u64 \<Rightarrow> 'a sched_state_scheme \<Rightarrow> u64 option" where
  "wait_queue_snapshot wq s = map_option wq_seq (wait_queues s wq)"

text \<open>
  \<open>scheduler_wait\<close> up to its software interrupt 0x41, which enters \<open>scheduler_schedule\<close>, and what it
  does when the thread runs again. Other CPUs may run in between. The first part answers whether
  the queue has moved on, the thread must halt (the idle thread cannot sleep), or it will switch.
\<close>

datatype wait_answer = Wait_Return | Wait_Halt | Wait_Switch

definition scheduler_wait_begin :: "u8 \<Rightarrow> u64 \<Rightarrow> u64 \<Rightarrow> 'a sched_state_scheme \<Rightarrow> (wait_answer \<times> 'a sched_state_scheme) option" where
  "scheduler_wait_begin cpu wq seq s = do {
     q \<leftarrow> wait_queues s wq;
     if wq_seq q \<noteq> seq then Some (Wait_Return, s)
     else let cur = current_threads s cpu in
       if cur = NULL \<or> cur = idle_threads s cpu then Some (Wait_Halt, s)
       else do {
         s \<leftarrow> upd_thread cur (\<lambda>n. n\<lparr>t_waiting_on := wq, t_wait_seq := seq, t_state := THREAD_STATE_BLOCKED\<rparr>) s;
         Some (Wait_Switch, s) } }"

definition scheduler_wait_end :: "u64 \<Rightarrow> 'a sched_state_scheme \<Rightarrow> 'a sched_state_scheme option" where
  "scheduler_wait_end cur s = do {
     c \<leftarrow> threads s cur;
     if t_state c = THREAD_STATE_BLOCKED
     then upd_thread cur (\<lambda>n. n\<lparr>t_waiting_on := NULL, t_state := THREAD_STATE_RUNNING\<rparr>) s
     else Some s }"

partial_function (option) wake_loop :: "u64 \<Rightarrow> 'a sched_state_scheme \<Rightarrow> 'a sched_state_scheme option" where
  "wake_loop t s =
     (if t = NULL then Some s
      else do {
        n \<leftarrow> threads s t;
        s \<leftarrow> upd_thread t (\<lambda>n. n\<lparr>t_waiting_on := NULL\<rparr>) s;
        s \<leftarrow> enqueue_locked t s;
        wake_loop (t_next n) s })"

definition scheduler_wake_all :: "u64 \<Rightarrow> 'a sched_state_scheme \<Rightarrow> 'a sched_state_scheme option" where
  "scheduler_wake_all wq s = do {
     q \<leftarrow> wait_queues s wq;
     wake_loop (wq_head q) (s\<lparr>wait_queues := (wait_queues s)(wq \<mapsto> \<lparr>wq_head = NULL, wq_seq = wq_seq q + 1\<rparr>)\<rparr>) }"

definition scheduler_get_current_thread :: "u8 \<Rightarrow> 'a sched_state_scheme \<Rightarrow> u64" where
  "scheduler_get_current_thread cpu s = current_threads s cpu"

end
