(* ===== verification/Sched_Inv.thy ===== *)
theory Sched_Inv
  imports Sched
begin

text \<open>
  Where a thread is. Every thread the scheduler knows is in exactly one place: on the ready queue, on
  the list of one wait queue, on the list of the dead, or it belongs to one CPU, as its current
  thread, as the thread that is about to be parked or buried when the CPU has left its stack, or as
  its idle thread. The place is a ghost: a function from threads to places, so a thread cannot be in
  two of them; the invariant says that the lists and the per-CPU variables of the code are
  what the function says.
\<close>

section \<open>Places and lists\<close>

datatype place = Ready | Waiting u64 | Dead | On u8 | Parking u8 | Dying u8 | Idle u8 | Elsewhere

fun listed :: "place \<Rightarrow> bool" where
  "listed Ready = True"
| "listed (Waiting q) = True"
| "listed Dead = True"
| "listed _ = False"

definition thread_listed :: "(u64 \<rightharpoonup> wait_queue) \<Rightarrow> place \<Rightarrow> thread \<Rightarrow> bool" where
  "thread_listed Q p n \<longleftrightarrow> (case p of
      Ready \<Rightarrow> t_state n = THREAD_STATE_READY
    | Waiting q \<Rightarrow> t_state n = THREAD_STATE_BLOCKED \<and> t_waiting_on n = q \<and> map_option wq_seq (Q q) = Some (t_wait_seq n)
    | _ \<Rightarrow> True)"

definition lists_ok ::
  "(u64 \<rightharpoonup> thread) \<Rightarrow> (u64 \<rightharpoonup> wait_queue) \<Rightarrow> u64 \<Rightarrow> u64 \<Rightarrow> u64 \<Rightarrow> (u64 \<Rightarrow> place) \<Rightarrow> u64 list \<Rightarrow> u64 list \<Rightarrow> (u64 \<Rightarrow> u64 list) \<Rightarrow> bool" where
  "lists_ok m Q h t z w R Z W \<longleftrightarrow>
     linked t_next m h R \<and> t = (if R = [] then NULL else last R) \<and> linked t_next m z Z \<and>
     set R = {x. w x = Ready} \<and> set Z = {x. w x = Dead} \<and> (\<forall>q. set (W q) = {x. w x = Waiting q}) \<and>
     (\<forall>q. case Q q of None \<Rightarrow> W q = [] | Some v \<Rightarrow> linked t_next m (wq_head v) (W q)) \<and>
     (\<forall>x n. m x = Some n \<longrightarrow> thread_listed Q (w x) n)"

abbreviation lists :: "'a sched_state_scheme \<Rightarrow> (u64 \<Rightarrow> place) \<Rightarrow> u64 list \<Rightarrow> u64 list \<Rightarrow> (u64 \<Rightarrow> u64 list) \<Rightarrow> bool" where
  "lists s w R Z W \<equiv> lists_ok (threads s) (wait_queues s) (ready_queue_head s) (ready_queue_tail s) (zombie_list s) w R Z W"

text \<open>What links do not touch.\<close>

definition core :: "thread \<Rightarrow> thread" where
  "core n = n\<lparr>t_next := NULL\<rparr>"

definition same_core :: "(u64 \<rightharpoonup> thread) \<Rightarrow> (u64 \<rightharpoonup> thread) \<Rightarrow> bool" where
  "same_core m m' \<longleftrightarrow> (\<forall>x. map_option core (m' x) = map_option core (m x))"

lemma same_core_refl [simp]: "same_core m m"
  by (simp add: same_core_def)

lemma same_core_trans: "same_core m m' \<Longrightarrow> same_core m' m'' \<Longrightarrow> same_core m m''"
  by (simp add: same_core_def)

lemma same_core_upd: "m x = Some n \<Longrightarrow> core n' = core n \<Longrightarrow> same_core m (m(x \<mapsto> n'))"
  by (simp add: same_core_def)

lemma same_core_cong: "same_core m m' \<Longrightarrow> core n = core n' \<Longrightarrow> same_core (m(x \<mapsto> n)) (m'(x \<mapsto> n'))"
  by (simp add: same_core_def)

lemma core_fields:
  "core n = core n' \<Longrightarrow> t_state n = t_state n' \<and> t_waiting_on n = t_waiting_on n' \<and> t_wait_seq n = t_wait_seq n' \<and>
     t_regs n = t_regs n' \<and> t_kernel n = t_kernel n' \<and> t_process n = t_process n' \<and> t_fs_base n = t_fs_base n'"
  by (cases n; cases n') (simp add: core_def)

lemma core_next [simp]: "core (n\<lparr>t_next := x\<rparr>) = core n"
  by (simp add: core_def)

lemma same_core_Some:
  "same_core m m' \<Longrightarrow> m x = Some n \<Longrightarrow> \<exists>n'. m' x = Some n' \<and> core n' = core n"
  by (cases "m' x") (auto simp: same_core_def dest!: spec [where x = x])

lemma same_core_Some':
  "same_core m m' \<Longrightarrow> m' x = Some n' \<Longrightarrow> \<exists>n. m x = Some n \<and> core n' = core n"
  by (cases "m x") (auto simp: same_core_def dest!: spec [where x = x])

lemma thread_listed_core: "core n = core n' \<Longrightarrow> thread_listed Q p n = thread_listed Q p n'"
  by (auto simp: thread_listed_def split: place.split dest: core_fields)

lemma thread_listed_off [simp]: "\<not> listed p \<Longrightarrow> thread_listed Q p n"
  by (cases p) (auto simp: thread_listed_def)

lemma lists_okD:
  assumes "lists_ok m Q h t z w R Z W"
  shows "linked t_next m h R" "t = (if R = [] then NULL else last R)" "linked t_next m z Z"
    "set R = {x. w x = Ready}" "set Z = {x. w x = Dead}" "set (W q) = {x. w x = Waiting q}"
    "Q q = Some v \<Longrightarrow> linked t_next m (wq_head v) (W q)" "Q q = None \<Longrightarrow> W q = []"
    "m x = Some n \<Longrightarrow> thread_listed Q (w x) n"
proof -
  from assms have "\<forall>q. case Q q of None \<Rightarrow> W q = [] | Some v \<Rightarrow> linked t_next m (wq_head v) (W q)"
    by (simp add: lists_ok_def)
  from spec [OF this, of q]
  show "Q q = Some v \<Longrightarrow> linked t_next m (wq_head v) (W q)" "Q q = None \<Longrightarrow> W q = []" by simp_all
qed (use assms in \<open>simp_all add: lists_ok_def\<close>)

lemma listed_thread:
  assumes "lists_ok m Q h t z w R Z W" "listed (w x)"
  shows "x \<noteq> NULL \<and> (\<exists>n. m x = Some n)"
proof (cases "w x")
  case Ready
  then have "x \<in> set R" using lists_okD(4) [OF assms(1)] by simp
  then show ?thesis using linked_in [OF lists_okD(1) [OF assms(1)]] by blast
next
  case (Waiting q)
  then have x: "x \<in> set (W q)" using lists_okD(6) [OF assms(1)] by simp
  then obtain v where "Q q = Some v" using lists_okD(8) [OF assms(1), of q] by fastforce
  then show ?thesis using linked_in [OF lists_okD(7) [OF assms(1)] x] by blast
next
  case Dead
  then have "x \<in> set Z" using lists_okD(5) [OF assms(1)] by simp
  then show ?thesis using linked_in [OF lists_okD(3) [OF assms(1)]] by blast
qed (use assms(2) in simp_all)

section \<open>The ready queue\<close>

text \<open>Appending to a list through the link of its last node.\<close>

lemma linked_snoc:
  assumes "linked nxt m x ps" "p \<noteq> NULL" "m' p = Some n" "nxt n = NULL" "p \<notin> set ps"
    and "\<And>q. q \<in> set ps \<Longrightarrow> q \<noteq> last ps \<Longrightarrow> map_option nxt (m' q) = map_option nxt (m q)"
    and "ps \<noteq> [] \<Longrightarrow> map_option nxt (m' (last ps)) = Some p"
  shows "linked nxt m' (if ps = [] then p else x) (ps @ [p])"
  using assms
proof (induction ps arbitrary: x)
  case (Cons a ps)
  then obtain k where k: "m a = Some k" "linked nxt m (nxt k) ps" "x = a" "a \<noteq> NULL" by auto
  have d: "a \<notin> set ps" using linked_distinct [OF Cons.prems(1)] by simp
  show ?case
  proof (cases "ps = []")
    case True
    with Cons.prems k show ?thesis by auto
  next
    case False
    then have "a \<noteq> last ps" using d by auto
    then have "map_option nxt (m' a) = Some (nxt k)" using Cons.prems(6) [of a] False k(1) by simp
    moreover have "linked nxt m' (if ps = [] then p else nxt k) (ps @ [p])"
      using Cons.prems False by (intro Cons.IH k(2)) auto
    ultimately show ?thesis using False k(3,4) by auto
  qed
qed simp

lemma enqueue_lists:
  assumes l: "lists s w R Z W" and n: "threads s t = Some n" "t \<noteq> NULL" "\<not> listed (w t)"
  shows "\<exists>m'. enqueue_locked t s = Some (s\<lparr>threads := m', ready_queue_head := (if R = [] then t else ready_queue_head s),
        ready_queue_tail := t\<rparr>) \<and>
      same_core ((threads s)(t \<mapsto> n\<lparr>t_state := THREAD_STATE_READY\<rparr>)) m' \<and>
      (\<forall>y. y \<notin> set (t # R) \<longrightarrow> m' y = threads s y) \<and>
      lists_ok m' (wait_queues s) (if R = [] then t else ready_queue_head s) t (zombie_list s) (w(t := Ready)) (R @ [t]) Z W"
proof -
  define n' where "n' = n\<lparr>t_state := THREAD_STATE_READY, t_next := NULL\<rparr>"
  define m where "m = (threads s)(t \<mapsto> n')"
  define m' where "m' = (if R = [] then m else m(last R \<mapsto> (the (m (last R)))\<lparr>t_next := t\<rparr>))"
  note ld = lists_okD [OF l]
  have tR: "t \<notin> set R" using ld(4) n(3) by auto
  have last: "\<exists>k. threads s (last R) = Some k" "last R \<noteq> t" "last R \<noteq> NULL" "w (last R) = Ready" if "R \<noteq> []"
  proof -
    from that have "last R \<in> set R" by simp
    with linked_in [OF ld(1)] ld(4) tR show "\<exists>k. threads s (last R) = Some k" "last R \<noteq> t" "last R \<noteq> NULL" "w (last R) = Ready"
      by auto
  qed
  have run: "enqueue_locked t s = Some (s\<lparr>threads := m', ready_queue_head := (if R = [] then t else ready_queue_head s),
      ready_queue_tail := t\<rparr>)"
  proof (cases "R = []")
    case True
    with ld(2) n(1) show ?thesis by (simp add: enqueue_locked_def upd_thread_def m'_def m_def n'_def)
  next
    case False
    with last obtain k where "threads s (last R) = Some k" by blast
    with False last ld(2) n(1) show ?thesis by (simp add: enqueue_locked_def upd_thread_def m'_def m_def n'_def)
  qed
  have other: "map_option t_next (m' x) = map_option t_next (threads s x)" if "x \<noteq> t" "R \<noteq> [] \<Longrightarrow> x \<noteq> last R" for x
    using that by (simp add: m'_def m_def)
  have sc: "same_core ((threads s)(t \<mapsto> n\<lparr>t_state := THREAD_STATE_READY\<rparr>)) m'"
    using last by (auto simp: same_core_def m'_def m_def n'_def core_def)
  have R': "linked t_next m' (if R = [] then t else ready_queue_head s) (R @ [t])"
  proof (rule linked_snoc [OF ld(1) n(2)])
    show "m' t = Some n'" using last by (auto simp: m'_def m_def)
    show "map_option t_next (m' (last R)) = Some t" if "R \<noteq> []" using that last by (auto simp: m'_def m_def)
    show "map_option t_next (m' q) = map_option t_next (threads s q)" if "q \<in> set R" "q \<noteq> last R" for q
      using that tR by (intro other) auto
  qed (use tR in \<open>simp_all add: n'_def\<close>)
  have apart: "linked t_next m' x ps = linked t_next (threads s) x ps" if "\<And>y. y \<in> set ps \<Longrightarrow> w y \<noteq> Ready \<and> y \<noteq> t" for x ps
    by (rule linked_cong, rule other) (use that last in auto)
  have "linked t_next m' (zombie_list s) Z"
    by (subst apart) (use ld(3,5) n(3) in auto)
  moreover
  have wl: "linked t_next m' (wq_head v) (W q)" if "wait_queues s q = Some v" for q v
    by (subst apart) (use ld(6) [of q] ld(7) [OF that] n(3) in auto)
  have "case wait_queues s q of None \<Rightarrow> W q = [] | Some v \<Rightarrow> linked t_next m' (wq_head v) (W q)" for q
    by (cases "wait_queues s q") (simp_all add: wl ld(8))
  moreover have "thread_listed (wait_queues s) ((w(t := Ready)) x) k" if k: "m' x = Some k" for x k
  proof (cases "x = t")
    case True
    with k last show ?thesis by (auto simp: m'_def m_def n'_def thread_listed_def split: if_splits)
  next
    case False
    from same_core_Some' [OF sc k] False obtain k0 where "threads s x = Some k0" "core k = core k0" by auto
    with ld(9) [of x k0] False show ?thesis by (simp add: thread_listed_core [of k k0])
  qed
  ultimately have "lists_ok m' (wait_queues s) (if R = [] then t else ready_queue_head s) t (zombie_list s) (w(t := Ready)) (R @ [t]) Z W"
    unfolding lists_ok_def using R' ld(4,5,6) n(3) by auto
  moreover have "\<forall>y. y \<notin> set (t # R) \<longrightarrow> m' y = threads s y" by (auto simp: m'_def m_def)
  ultimately show ?thesis using run sc by blast
qed

lemma dequeue_lists:
  assumes l: "lists s w (t # R) Z W" and p: "\<not> listed p"
  shows "\<exists>m' h'. dequeue_locked s = Some (t, s\<lparr>threads := m', ready_queue_head := h', ready_queue_tail := (if R = [] then NULL else ready_queue_tail s)\<rparr>) \<and>
      same_core (threads s) m' \<and>
      lists_ok m' (wait_queues s) h' (if R = [] then NULL else ready_queue_tail s) (zombie_list s) (w(t := p)) R Z W"
proof -
  note ld = lists_okD [OF l]
  from ld(1) obtain n where n: "threads s t = Some n" "linked t_next (threads s) (t_next n) R" "ready_queue_head s = t" "t \<noteq> NULL"
    by auto
  define m' where "m' = (threads s)(t \<mapsto> n\<lparr>t_next := NULL\<rparr>)"
  have h: "t_next n = NULL \<longleftrightarrow> R = []"
    using n(2) linked_in [OF n(2)] by (cases R) auto
  have tl: "R \<noteq> [] \<Longrightarrow> ready_queue_tail s = last R" using ld(2) by simp
  have run: "dequeue_locked s = Some (t, s\<lparr>threads := m', ready_queue_head := t_next n, ready_queue_tail := (if R = [] then NULL else ready_queue_tail s)\<rparr>)"
    using n h by (simp add: dequeue_locked_def upd_thread_def m'_def Let_def)
  have tR: "t \<notin> set R" using linked_distinct [OF ld(1)] by simp
  have sc: "same_core (threads s) m'" using n(1) by (simp add: m'_def same_core_upd)
  have wt: "w t = Ready" using ld(4) by auto
  have apart: "t \<notin> set ps \<Longrightarrow> linked t_next m' x ps = linked t_next (threads s) x ps" for x ps
    by (simp add: m'_def)
  have "linked t_next m' (zombie_list s) Z"
    by (subst apart) (use ld(3,5) wt in auto)
  moreover
  have wl: "linked t_next m' (wq_head v) (W q)" if "wait_queues s q = Some v" for q v
    by (subst apart) (use ld(6) [of q] ld(7) [OF that] wt in auto)
  have "case wait_queues s q of None \<Rightarrow> W q = [] | Some v \<Rightarrow> linked t_next m' (wq_head v) (W q)" for q
    by (cases "wait_queues s q") (simp_all add: wl ld(8))
  moreover have "thread_listed (wait_queues s) ((w(t := p)) x) k" if k: "m' x = Some k" for x k
  proof (cases "x = t")
    case False
    with k ld(9) [of x k] show ?thesis by (simp add: m'_def)
  qed (use p in simp)
  moreover have "set R = {x. (w(t := p)) x = Ready}" "set Z = {x. (w(t := p)) x = Dead}" "set (W q) = {x. (w(t := p)) x = Waiting q}" for q
    using ld(4,5,6) p wt tR by auto
  moreover have "linked t_next m' (t_next n) R" using n(2) tR by (simp add: apart)
  ultimately have "lists_ok m' (wait_queues s) (t_next n) (if R = [] then NULL else ready_queue_tail s) (zombie_list s) (w(t := p)) R Z W"
    unfolding lists_ok_def using tl by auto
  with run sc show ?thesis by blast
qed

section \<open>The other lists\<close>

text \<open>A thread that is in no list can change in any way.\<close>

lemma lists_upd:
  assumes l: "lists_ok m Q h zt z w R Z W" and t: "\<not> listed (w t)" "\<not> listed p"
  shows "lists_ok (m(t \<mapsto> n)) Q h zt z (w(t := p)) R Z W"
proof -
  note ld = lists_okD [OF l]
  have apart: "t \<notin> set ps \<Longrightarrow> linked t_next (m(t \<mapsto> n)) x ps = linked t_next m x ps" for x ps by simp
  have nt: "t \<notin> set R" "t \<notin> set Z" "t \<notin> set (W q)" for q using ld(4,5,6) t by auto
  have "case Q q of None \<Rightarrow> W q = [] | Some v \<Rightarrow> linked t_next (m(t \<mapsto> n)) (wq_head v) (W q)" for q
    by (cases "Q q") (use ld(7,8) [of q] nt in simp_all)
  moreover have "set R = {x. (w(t := p)) x = Ready}" "set Z = {x. (w(t := p)) x = Dead}" "set (W q) = {x. (w(t := p)) x = Waiting q}" for q
    using ld(4,5,6) t by auto
  moreover have "thread_listed Q ((w(t := p)) x) k" if "(m(t \<mapsto> n)) x = Some k" for x k
    using that ld(9) [of x k] t by (auto split: if_splits)
  ultimately show ?thesis
    unfolding lists_ok_def using ld(1,2,3) nt by (simp add: apart)
qed

lemma lists_upd_same:
  "lists_ok m Q h zt z w R Z W \<Longrightarrow> \<not> listed (w t) \<Longrightarrow> lists_ok (m(t \<mapsto> n)) Q h zt z w R Z W"
  using lists_upd [of m Q h zt z w R Z W t "w t" n] by simp

lemma lists_place:
  "lists_ok m Q h zt z w R Z W \<Longrightarrow> \<not> listed (w t) \<Longrightarrow> \<not> listed p \<Longrightarrow> m t = Some n \<Longrightarrow> lists_ok m Q h zt z (w(t := p)) R Z W"
  using lists_upd [of m Q h zt z w R Z W t p n] by (simp add: fun_upd_idem)

lemma bury_lists:
  assumes l: "lists_ok m Q h zt z w R Z W" and t: "\<not> listed (w t)" "t \<noteq> NULL"
  shows "lists_ok (m(t \<mapsto> n\<lparr>t_next := z\<rparr>)) Q h zt t (w(t := Dead)) R (t # Z) W"
proof -
  note l1 = lists_upd_same [OF l t(1), of "n\<lparr>t_next := z\<rparr>"]
  note ld = lists_okD [OF l1]
  have "linked t_next (m(t \<mapsto> n\<lparr>t_next := z\<rparr>)) t (t # Z)" using ld(3) t(2) by simp
  moreover have "case Q q of None \<Rightarrow> W q = [] | Some v \<Rightarrow> linked t_next (m(t \<mapsto> n\<lparr>t_next := z\<rparr>)) (wq_head v) (W q)" for q
    by (cases "Q q") (use ld(7,8) [of q] in simp_all)
  moreover have "set R = {x. (w(t := Dead)) x = Ready}" "set (t # Z) = {x. (w(t := Dead)) x = Dead}"
    "set (W q) = {x. (w(t := Dead)) x = Waiting q}" for q
    using ld(4,5,6) t by auto
  moreover have "thread_listed Q ((w(t := Dead)) x) k" if "(m(t \<mapsto> n\<lparr>t_next := z\<rparr>)) x = Some k" for x k
    using that ld(9) [of x k] by (auto simp: thread_listed_def split: if_splits)
  ultimately show ?thesis unfolding lists_ok_def using ld(1,2) by simp
qed

lemma park_lists:
  assumes l: "lists_ok m Q h zt z w R Z W" and t: "\<not> listed (w t)" "t \<noteq> NULL"
    and n: "t_state n = THREAD_STATE_BLOCKED" "t_waiting_on n = q" "Q q = Some v" "wq_seq v = t_wait_seq n"
  shows "lists_ok (m(t \<mapsto> n\<lparr>t_next := wq_head v\<rparr>)) (Q(q \<mapsto> v\<lparr>wq_head := t\<rparr>)) h zt z (w(t := Waiting q)) R Z (W(q := t # W q))"
proof -
  define m' where "m' = m(t \<mapsto> n\<lparr>t_next := wq_head v\<rparr>)"
  define w' where "w' = w(t := Waiting q)"
  note l1 = lists_upd_same [OF l t(1), of "n\<lparr>t_next := wq_head v\<rparr>", folded m'_def]
  note ld = lists_okD [OF l1]
  have "case (Q(q \<mapsto> v\<lparr>wq_head := t\<rparr>)) x of None \<Rightarrow> (W(q := t # W q)) x = []
      | Some u \<Rightarrow> linked t_next m' (wq_head u) ((W(q := t # W q)) x)" for x
  proof (cases "x = q")
    case True
    with ld(7) [OF n(3)] t(2) show ?thesis by (simp add: m'_def)
  next
    case False
    then show ?thesis by (cases "Q x") (use ld(7,8) [of x] in simp_all)
  qed
  moreover have "set R = {x. w' x = Ready}" "set Z = {x. w' x = Dead}" using ld(4,5) t by (auto simp: w'_def)
  moreover have "set ((W(q := t # W q)) p) = {x. w' x = Waiting p}" for p
    using ld(6) [of p] t by (cases "p = q") (auto simp: w'_def)
  moreover have "thread_listed (Q(q \<mapsto> v\<lparr>wq_head := t\<rparr>)) (w' x) k" if k: "m' x = Some k" for x k
  proof (cases "x = t")
    case True
    with k n show ?thesis by (auto simp: thread_listed_def m'_def w'_def)
  next
    case False
    with ld(9) [OF k] n(3) show ?thesis by (auto simp: thread_listed_def w'_def split: place.splits)
  qed
  ultimately have "lists_ok m' (Q(q \<mapsto> v\<lparr>wq_head := t\<rparr>)) h zt z w' R Z (W(q := t # W q))"
    unfolding lists_ok_def using ld(1,2,3) by simp
  then show ?thesis by (simp only: m'_def w'_def)
qed

text \<open>A queue that is emptied at once, and its threads made ready one by one.\<close>

lemma detach_lists:
  assumes l: "lists_ok m Q h zt z w R Z W" and v: "Q q = Some v"
  shows "lists_ok m (Q(q \<mapsto> \<lparr>wq_head = NULL, wq_seq = k\<rparr>)) h zt z (\<lambda>x. if w x = Waiting q then Elsewhere else w x) R Z (W(q := []))"
proof -
  note ld = lists_okD [OF l]
  have "case (Q(q \<mapsto> \<lparr>wq_head = NULL, wq_seq = k\<rparr>)) x of None \<Rightarrow> (W(q := [])) x = []
      | Some u \<Rightarrow> linked t_next m (wq_head u) ((W(q := [])) x)" for x
    by (cases "Q x"; cases "x = q") (use ld(7,8) [of x] in simp_all)
  moreover have "thread_listed (Q(q \<mapsto> \<lparr>wq_head = NULL, wq_seq = k\<rparr>)) (if w x = Waiting q then Elsewhere else w x) n"
    if "m x = Some n" for x n
    using ld(9) [OF that] by (auto simp: thread_listed_def split: place.splits)
  ultimately show ?thesis
    unfolding lists_ok_def using ld(1-6) by auto
qed

definition woken :: "thread \<Rightarrow> thread" where
  "woken n = n\<lparr>t_waiting_on := NULL, t_state := THREAD_STATE_READY\<rparr>"

lemma woken_core: "core n = core n' \<Longrightarrow> core (woken n) = core (woken n')"
  by (cases n; cases n') (simp add: core_def woken_def)

lemma wake_loop_lists:
  assumes "lists s w R Z W" "linked t_next (threads s) x ts" "\<forall>y \<in> set ts. \<not> listed (w y)"
  shows "\<exists>m' h' zt'. wake_loop x s = Some (s\<lparr>threads := m', ready_queue_head := h', ready_queue_tail := zt'\<rparr>) \<and>
      same_core (\<lambda>y. if y \<in> set ts then map_option woken (threads s y) else threads s y) m' \<and>
      lists_ok m' (wait_queues s) h' zt' (zombie_list s) (\<lambda>y. if y \<in> set ts then Ready else w y) (R @ ts) Z W"
  using assms
proof (induction ts arbitrary: x s w R)
  case Nil
  then show ?case
    by (intro exI [where x = "threads s"]) (rule exI [where x = "ready_queue_head s"], rule exI [where x = "ready_queue_tail s"],
        simp add: wake_loop.simps)
next
  case (Cons t ts)
  from Cons.prems(2) obtain n where n: "threads s t = Some n" "linked t_next (threads s) (t_next n) ts" "x = t" "t \<noteq> NULL" by auto
  have d: "distinct (t # ts)" using linked_distinct [OF Cons.prems(2)] .
  define s1 where "s1 = s\<lparr>threads := (threads s)(t \<mapsto> n\<lparr>t_waiting_on := NULL\<rparr>)\<rparr>"
  have up: "upd_thread t (\<lambda>n. n\<lparr>t_waiting_on := NULL\<rparr>) s = Some s1" using n(1) by (simp add: upd_thread_def s1_def)
  have l1: "lists s1 w R Z W" using lists_upd_same [OF Cons.prems(1)] Cons.prems(3) by (simp add: s1_def)
  have t1: "threads s1 t = Some (n\<lparr>t_waiting_on := NULL\<rparr>)" by (simp add: s1_def)
  from enqueue_lists [OF l1 t1 n(4)] Cons.prems(3) obtain m2 h2 where e: "enqueue_locked t s1 = Some (s1\<lparr>threads := m2,
      ready_queue_head := h2, ready_queue_tail := t\<rparr>)"
    "same_core ((threads s1)(t \<mapsto> n\<lparr>t_waiting_on := NULL, t_state := THREAD_STATE_READY\<rparr>)) m2"
    "\<And>y. y \<notin> set (t # R) \<Longrightarrow> m2 y = threads s1 y"
    "lists_ok m2 (wait_queues s1) h2 t (zombie_list s1) (w(t := Ready)) (R @ [t]) Z W" by auto
  define s2 where "s2 = s1\<lparr>threads := m2, ready_queue_head := h2, ready_queue_tail := t\<rparr>"
  have same: "m2 y = threads s y" if "y \<in> set ts" for y
  proof -
    have "w y \<noteq> Ready" using Cons.prems(3) that by (metis listed.simps(1) list.set_intros(2))
    then show ?thesis using e(3) [of y] that d lists_okD(4) [OF l1] by (auto simp: s1_def)
  qed
  have lk: "linked t_next (threads s2) (t_next n) ts"
    using n(2) linked_cong [of ts t_next m2 "threads s"] same by (simp add: s2_def)
  have "lists s2 (w(t := Ready)) (R @ [t]) Z W" using e(4) by (simp add: s2_def)
  moreover have "\<forall>y \<in> set ts. \<not> listed ((w(t := Ready)) y)" using Cons.prems(3) d by auto
  ultimately obtain m' h' zt' where i:
    "wake_loop (t_next n) s2 = Some (s2\<lparr>threads := m', ready_queue_head := h', ready_queue_tail := zt'\<rparr>)"
    "same_core (\<lambda>y. if y \<in> set ts then map_option woken (threads s2 y) else threads s2 y) m'"
    "lists_ok m' (wait_queues s2) h' zt' (zombie_list s2) (\<lambda>y. if y \<in> set ts then Ready else (w(t := Ready)) y) ((R @ [t]) @ ts) Z W"
    using Cons.IH [of s2 "w(t := Ready)" "R @ [t]" "t_next n"] lk by blast
  have run: "wake_loop x s = Some (s\<lparr>threads := m', ready_queue_head := h', ready_queue_tail := zt'\<rparr>)"
    using n(1,3,4) up e(1) i(1) by (subst wake_loop.simps) (simp add: s2_def s1_def)
  have w: "(\<lambda>y. if y \<in> set ts then Ready else (w(t := Ready)) y) = (\<lambda>y. if y \<in> set (t # ts) then Ready else w y)"
    by auto
  have "map_option core (m' y) = map_option core (if y \<in> set (t # ts) then map_option woken (threads s y) else threads s y)" for y
  proof (cases "y \<in> set ts")
    case True
    with i(2) same [OF True] show ?thesis by (simp add: same_core_def s2_def)
  next
    case False
    with i(2) have "map_option core (m' y) = map_option core (m2 y)" by (simp add: same_core_def s2_def)
    also have "\<dots> = map_option core (((threads s1)(t \<mapsto> n\<lparr>t_waiting_on := NULL, t_state := THREAD_STATE_READY\<rparr>)) y)"
      using e(2) by (simp add: same_core_def)
    finally show ?thesis using False n(1) by (simp add: s1_def woken_def)
  qed
  then have sc: "same_core (\<lambda>y. if y \<in> set (t # ts) then map_option woken (threads s y) else threads s y) m'"
    by (simp only: same_core_def) blast
  have "lists_ok m' (wait_queues s) h' zt' (zombie_list s) (\<lambda>y. if y \<in> set (t # ts) then Ready else w y) (R @ t # ts) Z W"
    using i(3) unfolding w by (simp add: s2_def s1_def)
  with run sc show ?case by blast
qed

section \<open>The variables of the CPUs\<close>

text \<open>
  The current, parked and dying threads of a CPU are the threads whose place says so; a CPU that has
  a current thread has an idle thread, which is never anywhere else than on this CPU.
\<close>

definition cpu_vars ::
  "(u8 \<Rightarrow> u64) \<Rightarrow> (u8 \<Rightarrow> u64) \<Rightarrow> (u8 \<Rightarrow> u64) \<Rightarrow> (u8 \<Rightarrow> u64) \<Rightarrow> (u64 \<Rightarrow> place) \<Rightarrow> bool" where
  "cpu_vars cur idle park zomb w \<longleftrightarrow>
     (\<forall>c x. w x = On c \<longleftrightarrow> x \<noteq> NULL \<and> cur c = x) \<and>
     (\<forall>c x. w x = Parking c \<longleftrightarrow> x \<noteq> NULL \<and> park c = x) \<and>
     (\<forall>c x. w x = Dying c \<longleftrightarrow> x \<noteq> NULL \<and> zomb c = x) \<and>
     (\<forall>c x. w x = Idle c \<longrightarrow> idle c = x) \<and>
     (\<forall>c. if cur c = NULL then idle c = NULL else idle c \<noteq> NULL \<and> w (idle c) \<in> {On c, Idle c})"

text \<open>The objects a thread refers to exist, and its state is that of its place.\<close>

definition resources :: "'a sched_state_scheme \<Rightarrow> thread \<Rightarrow> bool" where
  "resources s n \<longleftrightarrow> t_regs n \<noteq> NULL \<and> frames s (t_regs n) \<noteq> None \<and>
     (t_kernel n = NULL \<or> thread_stacks s (t_kernel n) \<noteq> None) \<and>
     (t_process n = NULL \<or> processes s (t_process n) \<noteq> None) \<and>
     (t_waiting_on n = NULL \<or> wait_queues s (t_waiting_on n) \<noteq> None)"

definition state_fits :: "(u8 \<Rightarrow> u64) \<Rightarrow> place \<Rightarrow> u64 \<Rightarrow> thread \<Rightarrow> bool" where
  "state_fits idle p x n \<longleftrightarrow> (case p of
      On c \<Rightarrow> t_state n \<in> {THREAD_STATE_RUNNING, THREAD_STATE_BLOCKED, THREAD_STATE_TERMINATED} \<and>
              (idle c = x \<longrightarrow> t_state n = THREAD_STATE_RUNNING)
    | Parking c \<Rightarrow> t_state n = THREAD_STATE_BLOCKED
    | Dying c \<Rightarrow> t_state n = THREAD_STATE_TERMINATED
    | _ \<Rightarrow> True)"

definition placed_ok :: "'a sched_state_scheme \<Rightarrow> (u64 \<Rightarrow> place) \<Rightarrow> bool" where
  "placed_ok s w \<longleftrightarrow> (\<forall>x. w x \<noteq> Elsewhere \<longrightarrow> x \<noteq> NULL \<and>
     (\<exists>n. threads s x = Some n \<and> resources s n \<and> state_fits (idle_threads s) (w x) x n))"

definition sched_ok ::
  "'a sched_state_scheme \<Rightarrow> (u64 \<Rightarrow> place) \<Rightarrow> u64 list \<Rightarrow> u64 list \<Rightarrow> (u64 \<Rightarrow> u64 list) \<Rightarrow> bool" where
  "sched_ok s w R Z W \<longleftrightarrow> lists s w R Z W \<and>
     cpu_vars (current_threads s) (idle_threads s) (pending_park s) (pending_zombie s) w \<and> placed_ok s w"

definition same_objects :: "'a sched_state_scheme \<Rightarrow> 'a sched_state_scheme \<Rightarrow> bool" where
  "same_objects s s' \<longleftrightarrow> dom (frames s) \<subseteq> dom (frames s') \<and> dom (thread_stacks s) \<subseteq> dom (thread_stacks s') \<and>
     dom (processes s) \<subseteq> dom (processes s') \<and> dom (wait_queues s) \<subseteq> dom (wait_queues s')"

lemma resources_step: "same_objects s s' \<Longrightarrow> resources s n \<Longrightarrow> resources s' n"
  unfolding same_objects_def resources_def dom_def by blast

lemma resources_core: "core n = core n' \<Longrightarrow> resources s n = resources s n'"
  by (drule core_fields) (simp add: resources_def)

lemma state_fits_core: "core n = core n' \<Longrightarrow> state_fits i p x n = state_fits i p x n'"
  by (drule core_fields) (simp add: state_fits_def split: place.split)

text \<open>A step keeps \<open>placed_ok\<close> if it leaves a thread and its place alone, or gives it a state that fits.\<close>

lemma placed_ok_step:
  assumes p: "placed_ok s w" and o: "same_objects s s'" "idle_threads s' = idle_threads s"
    and x: "\<And>x. w' x \<noteq> Elsewhere \<Longrightarrow> w' x = w x \<and> map_option core (threads s' x) = map_option core (threads s x) \<or>
       x \<noteq> NULL \<and> (\<exists>n. threads s' x = Some n \<and> resources s n \<and> state_fits (idle_threads s) (w' x) x n)"
  shows "placed_ok s' w'"
  unfolding placed_ok_def
proof (intro allI impI)
  fix x assume w: "w' x \<noteq> Elsewhere"
  from x [OF w] show "x \<noteq> NULL \<and> (\<exists>n. threads s' x = Some n \<and> resources s' n \<and> state_fits (idle_threads s') (w' x) x n)"
  proof (elim disjE)
    assume a: "w' x = w x \<and> map_option core (threads s' x) = map_option core (threads s x)"
    with p w obtain n where n: "x \<noteq> NULL" "threads s x = Some n" "resources s n" "state_fits (idle_threads s) (w x) x n"
      by (auto simp: placed_ok_def)
    with a obtain n' where n': "threads s' x = Some n'" "core n' = core n" by auto
    have "resources s' n'" using resources_step [OF o(1)] n(3) resources_core [OF n'(2)] by blast
    with n n' a o(2) show ?thesis using state_fits_core [OF n'(2)] by simp
  qed (use o resources_step [OF o(1)] in auto)
qed

lemma placedD:
  assumes "placed_ok s w" "w x \<noteq> Elsewhere"
  obtains n where "x \<noteq> NULL" "threads s x = Some n" "resources s n" "state_fits (idle_threads s) (w x) x n"
  using assms by (auto simp: placed_ok_def)

lemma cpu_varsD:
  assumes "cpu_vars cur idle park zomb w"
  shows "w x = On c \<longleftrightarrow> x \<noteq> NULL \<and> cur c = x" "w x = Parking c \<longleftrightarrow> x \<noteq> NULL \<and> park c = x"
    "w x = Dying c \<longleftrightarrow> x \<noteq> NULL \<and> zomb c = x" "w x = Idle c \<Longrightarrow> idle c = x"
    "cur c = NULL \<longleftrightarrow> idle c = NULL" "cur c \<noteq> NULL \<Longrightarrow> w (idle c) = On c \<or> w (idle c) = Idle c"
  using assms unfolding cpu_vars_def by (auto split: if_splits)

lemma cpu_varsI:
  assumes "\<And>c x. w x = On c \<longleftrightarrow> x \<noteq> NULL \<and> cur c = x" "\<And>c x. w x = Parking c \<longleftrightarrow> x \<noteq> NULL \<and> park c = x"
    "\<And>c x. w x = Dying c \<longleftrightarrow> x \<noteq> NULL \<and> zomb c = x" "\<And>c x. w x = Idle c \<Longrightarrow> idle c = x"
    "\<And>c. cur c = NULL \<longleftrightarrow> idle c = NULL" "\<And>c. cur c \<noteq> NULL \<Longrightarrow> w (idle c) = On c \<or> w (idle c) = Idle c"
  shows "cpu_vars cur idle park zomb w"
  unfolding cpu_vars_def
proof (intro conjI allI impI)
  show "if cur c = NULL then idle c = NULL else idle c \<noteq> NULL \<and> w (idle c) \<in> {On c, Idle c}" for c
    using assms(5,6) [of c] by simp
qed (rule assms; assumption)+

lemma cpu_vars_unpark:
  assumes v: "cpu_vars cur idle park zomb w" and t: "w t = Parking c" "listed p"
  shows "cpu_vars cur idle (park(c := NULL)) zomb (w(t := p))"
proof (rule cpu_varsI)
  note d = cpu_varsD [OF v]
  show "(w(t := p)) x = On a \<longleftrightarrow> x \<noteq> NULL \<and> cur a = x" for a x
    using d(1) [of x a] t by (cases "x = t") auto
  show "(w(t := p)) x = Parking a \<longleftrightarrow> x \<noteq> NULL \<and> (park(c := NULL)) a = x" for a x
    using d(2) [of x a] d(2) [of t c] t by (cases "x = t") auto
  show "(w(t := p)) x = Dying a \<longleftrightarrow> x \<noteq> NULL \<and> zomb a = x" for a x
    using d(3) [of x a] t by (cases "x = t") auto
  show "(w(t := p)) x = Idle a \<Longrightarrow> idle a = x" for a x
    using d(4) [of x a] t by (cases "x = t") auto
  show "cur a = NULL \<longleftrightarrow> idle a = NULL" for a by (rule d(5))
  show "cur a \<noteq> NULL \<Longrightarrow> (w(t := p)) (idle a) = On a \<or> (w(t := p)) (idle a) = Idle a" for a
    using d(6) [of a] t by (cases "idle a = t") auto
qed

lemma cpu_vars_unbury:
  assumes v: "cpu_vars cur idle park zomb w" and t: "w t = Dying c" "listed p"
  shows "cpu_vars cur idle park (zomb(c := NULL)) (w(t := p))"
proof (rule cpu_varsI)
  note d = cpu_varsD [OF v]
  show "(w(t := p)) x = On a \<longleftrightarrow> x \<noteq> NULL \<and> cur a = x" for a x
    using d(1) [of x a] t by (cases "x = t") auto
  show "(w(t := p)) x = Parking a \<longleftrightarrow> x \<noteq> NULL \<and> park a = x" for a x
    using d(2) [of x a] t by (cases "x = t") auto
  show "(w(t := p)) x = Dying a \<longleftrightarrow> x \<noteq> NULL \<and> (zomb(c := NULL)) a = x" for a x
    using d(3) [of x a] d(3) [of t c] t by (cases "x = t") auto
  show "(w(t := p)) x = Idle a \<Longrightarrow> idle a = x" for a x
    using d(4) [of x a] t by (cases "x = t") auto
  show "cur a = NULL \<longleftrightarrow> idle a = NULL" for a by (rule d(5))
  show "cur a \<noteq> NULL \<Longrightarrow> (w(t := p)) (idle a) = On a \<or> (w(t := p)) (idle a) = Idle a" for a
    using d(6) [of a] t by (cases "idle a = t") auto
qed

section \<open>The parts of a switch\<close>

lemma park_pending_ok:
  assumes ok: "sched_ok s w R Z W"
  shows "\<exists>m' Q' h' t' w' X W'. park_pending c s = Some (s\<lparr>threads := m', wait_queues := Q', ready_queue_head := h',
        ready_queue_tail := t', pending_park := (pending_park s)(c := NULL)\<rparr>) \<and>
      sched_ok (s\<lparr>threads := m', wait_queues := Q', ready_queue_head := h',
        ready_queue_tail := t', pending_park := (pending_park s)(c := NULL)\<rparr>) w' (R @ X) Z W' \<and>
      (\<forall>x. w x \<noteq> Parking c \<longrightarrow> w' x = w x \<and> map_option core (m' x) = map_option core (threads s x)) \<and>
      map_option wq_seq \<circ> Q' = map_option wq_seq \<circ> wait_queues s"
proof (cases "pending_park s c = NULL")
  case True
  then have "(pending_park s)(c := NULL) = pending_park s" by auto
  then have e: "s\<lparr>threads := threads s, wait_queues := wait_queues s, ready_queue_head := ready_queue_head s,
      ready_queue_tail := ready_queue_tail s, pending_park := (pending_park s)(c := NULL)\<rparr> = s" by simp
  have "park_pending c s = Some s" using True by (simp add: park_pending_def)
  then show ?thesis
    by (intro exI [where x = "threads s"]) (rule exI [where x = "wait_queues s"], rule exI [where x = "ready_queue_head s"],
       rule exI [where x = "ready_queue_tail s"], rule exI [where x = w], rule exI [where x = "[]"], rule exI [where x = W],
       use ok e in simp)
next
  case False
  define t where "t = pending_park s c"
  from ok have l: "lists s w R Z W" and v: "cpu_vars (current_threads s) (idle_threads s) (pending_park s) (pending_zombie s) w"
    and p: "placed_ok s w" by (simp_all add: sched_ok_def)
  have wt: "w t = Parking c" using False v by (simp add: cpu_vars_def t_def)
  then obtain n where n: "t \<noteq> NULL" "threads s t = Some n" "resources s n" "t_state n = THREAD_STATE_BLOCKED"
    using placedD [OF p, of t] by (auto simp: state_fits_def)
  define s1 where "s1 = s\<lparr>pending_park := (pending_park s)(c := NULL)\<rparr>"
  show ?thesis
  proof (cases "t_waiting_on n \<noteq> NULL \<and> map_option wq_seq (wait_queues s (t_waiting_on n)) = Some (t_wait_seq n)")
    case True
    then obtain q where q: "wait_queues s (t_waiting_on n) = Some q" "wq_seq q = t_wait_seq n" "t_waiting_on n \<noteq> NULL" by auto
    define m' where "m' = (threads s)(t \<mapsto> n\<lparr>t_next := wq_head q\<rparr>)"
    define Q' where "Q' = (wait_queues s)(t_waiting_on n \<mapsto> q\<lparr>wq_head := t\<rparr>)"
    define w' where "w' = w(t := Waiting (t_waiting_on n))"
    define s' where "s' = s\<lparr>threads := m', wait_queues := Q', ready_queue_head := ready_queue_head s,
      ready_queue_tail := ready_queue_tail s, pending_park := (pending_park s)(c := NULL)\<rparr>"
    have run: "park_pending c s = Some s'"
      using False n q by (simp add: park_pending_def upd_thread_def t_def [symmetric] s'_def m'_def Q'_def Let_def)
    have "lists s' w' R Z (W(t_waiting_on n := t # W (t_waiting_on n)))"
      using park_lists [OF l _ n(1,4) refl q(1,2)] wt by (simp add: s'_def m'_def Q'_def w'_def)
    moreover have "cpu_vars (current_threads s') (idle_threads s') (pending_park s') (pending_zombie s') w'"
      using cpu_vars_unpark [OF v wt, of "Waiting (t_waiting_on n)"] by (simp add: s'_def w'_def)
    moreover have "placed_ok s' w'"
      by (rule placed_ok_step [OF p]) (use n in \<open>auto simp: s'_def same_objects_def m'_def Q'_def w'_def state_fits_def resources_def\<close>)
    ultimately have "sched_ok s' w' (R @ []) Z (W(t_waiting_on n := t # W (t_waiting_on n)))" by (simp add: sched_ok_def)
    moreover have "\<forall>x. w x \<noteq> Parking c \<longrightarrow> w' x = w x \<and> map_option core (m' x) = map_option core (threads s x)"
      using wt n(2) by (auto simp: w'_def m'_def)
    moreover have "map_option wq_seq \<circ> Q' = map_option wq_seq \<circ> wait_queues s"
      using q(1) by (auto simp: Q'_def)
    ultimately show ?thesis using run unfolding s'_def by blast
  next
    case no: False
    define n1 where "n1 = n\<lparr>t_waiting_on := NULL\<rparr>"
    define s2 where "s2 = s1\<lparr>threads := (threads s)(t \<mapsto> n1)\<rparr>"
    have l2: "lists s2 w R Z W" using lists_upd_same [OF l, of t n1] wt by (simp add: s2_def s1_def)
    have t2: "threads s2 t = Some n1" "\<not> listed (w t)" using wt by (simp_all add: s2_def)
    from enqueue_lists [OF l2 t2(1) n(1) t2(2)] obtain m' where e:
      "enqueue_locked t s2 = Some (s2\<lparr>threads := m', ready_queue_head := (if R = [] then t else ready_queue_head s2), ready_queue_tail := t\<rparr>)"
      "same_core ((threads s2)(t \<mapsto> n1\<lparr>t_state := THREAD_STATE_READY\<rparr>)) m'"
      "lists_ok m' (wait_queues s2) (if R = [] then t else ready_queue_head s2) t (zombie_list s2) (w(t := Ready)) (R @ [t]) Z W"
      by blast
    define h' where "h' = (if R = [] then t else ready_queue_head s)"
    define s' where "s' = s\<lparr>threads := m', wait_queues := wait_queues s, ready_queue_head := h',
      ready_queue_tail := t, pending_park := (pending_park s)(c := NULL)\<rparr>"
    have s': "s2\<lparr>threads := m', ready_queue_head := (if R = [] then t else ready_queue_head s2), ready_queue_tail := t\<rparr> = s'"
      by (simp add: s2_def s1_def s'_def h'_def)
    have "t_waiting_on n = NULL \<or> (\<exists>q. wait_queues s (t_waiting_on n) = Some q \<and> wq_seq q \<noteq> t_wait_seq n)"
      using no n(3) by (auto simp: resources_def)
    then have run: "park_pending c s = Some s'"
      using False n e(1) unfolding s' by (auto simp: park_pending_def upd_thread_def t_def [symmetric] Let_def s2_def s1_def n1_def)
    have c: "map_option core (m' x) = map_option core (((threads s)(t \<mapsto> n1\<lparr>t_state := THREAD_STATE_READY\<rparr>)) x)" for x
      using e(2) by (simp add: same_core_def s2_def)
    have hh: "(if R = [] then t else ready_queue_head s2) = h'" by (simp add: h'_def s2_def s1_def)
    have "lists s' (w(t := Ready)) (R @ [t]) Z W" using e(3) unfolding hh by (simp add: s'_def s2_def s1_def)
    moreover have "cpu_vars (current_threads s') (idle_threads s') (pending_park s') (pending_zombie s') (w(t := Ready))"
      using cpu_vars_unpark [OF v wt, of Ready] by (simp add: s'_def)
    moreover have "placed_ok s' (w(t := Ready))"
    proof (rule placed_ok_step [OF p])
      fix x
      show "(w(t := Ready)) x = w x \<and> map_option core (threads s' x) = map_option core (threads s x) \<or>
         x \<noteq> NULL \<and> (\<exists>n. threads s' x = Some n \<and> resources s n \<and> state_fits (idle_threads s) ((w(t := Ready)) x) x n)"
      proof (cases "x = t")
        case True
        from c [of t] obtain k where k: "m' t = Some k" "core k = core (n1\<lparr>t_state := THREAD_STATE_READY\<rparr>)" by auto
        have "resources s (n1\<lparr>t_state := THREAD_STATE_READY\<rparr>)" using n(3) by (simp add: resources_def n1_def)
        then have "resources s k" using resources_core [OF k(2), of s] by simp
        with k True n(1) show ?thesis by (simp add: s'_def state_fits_def)
      qed (use c [of x] in \<open>simp add: s'_def\<close>)
    qed (simp_all add: s'_def same_objects_def)
    ultimately have "sched_ok s' (w(t := Ready)) (R @ [t]) Z W" by (simp add: sched_ok_def)
    moreover have "\<forall>x. w x \<noteq> Parking c \<longrightarrow> (w(t := Ready)) x = w x \<and> map_option core (m' x) = map_option core (threads s x)"
      using wt c by auto
    ultimately show ?thesis using run unfolding s'_def by blast
  qed
qed

lemma bury_pending_ok:
  assumes ok: "sched_ok s w R Z W"
  shows "\<exists>m' z' w' Z'. bury_pending c s = Some (s\<lparr>threads := m', zombie_list := z', pending_zombie := (pending_zombie s)(c := NULL)\<rparr>) \<and>
      sched_ok (s\<lparr>threads := m', zombie_list := z', pending_zombie := (pending_zombie s)(c := NULL)\<rparr>) w' R Z' W \<and>
      (\<forall>x. w x \<noteq> Dying c \<longrightarrow> w' x = w x \<and> map_option core (m' x) = map_option core (threads s x))"
proof (cases "pending_zombie s c = NULL")
  case True
  then have "(pending_zombie s)(c := NULL) = pending_zombie s" by auto
  then have e: "s\<lparr>threads := threads s, zombie_list := zombie_list s, pending_zombie := (pending_zombie s)(c := NULL)\<rparr> = s" by simp
  have "bury_pending c s = Some s" using True by (simp add: bury_pending_def)
  then show ?thesis
    by (intro exI [where x = "threads s"]) (rule exI [where x = "zombie_list s"], rule exI [where x = w], rule exI [where x = Z],
       use ok e in simp)
next
  case False
  define t where "t = pending_zombie s c"
  from ok have l: "lists s w R Z W" and v: "cpu_vars (current_threads s) (idle_threads s) (pending_park s) (pending_zombie s) w"
    and p: "placed_ok s w" by (simp_all add: sched_ok_def)
  have wt: "w t = Dying c" using False cpu_varsD(3) [OF v, of t c] by (simp add: t_def)
  then obtain n where n: "t \<noteq> NULL" "threads s t = Some n" "resources s n"
    using placedD [OF p, of t] by auto
  define m' where "m' = (threads s)(t \<mapsto> n\<lparr>t_next := zombie_list s\<rparr>)"
  define s' where "s' = s\<lparr>threads := m', zombie_list := t, pending_zombie := (pending_zombie s)(c := NULL)\<rparr>"
  have run: "bury_pending c s = Some s'"
    using False n by (simp add: bury_pending_def upd_thread_def t_def [symmetric] s'_def m'_def Let_def)
  have "lists s' (w(t := Dead)) R (t # Z) W"
    using bury_lists [OF l _ n(1)] wt by (simp add: s'_def m'_def)
  moreover have "cpu_vars (current_threads s') (idle_threads s') (pending_park s') (pending_zombie s') (w(t := Dead))"
    using cpu_vars_unbury [OF v wt, of Dead] by (simp add: s'_def)
  moreover have "placed_ok s' (w(t := Dead))"
    by (rule placed_ok_step [OF p]) (use n in \<open>auto simp: s'_def same_objects_def m'_def state_fits_def resources_def\<close>)
  ultimately have "sched_ok s' (w(t := Dead)) R (t # Z) W" by (simp add: sched_ok_def)
  moreover have "\<forall>x. w x \<noteq> Dying c \<longrightarrow> (w(t := Dead)) x = w x \<and> map_option core (m' x) = map_option core (threads s x)"
    using wt n(2) by (auto simp: m'_def)
  ultimately show ?thesis using run unfolding s'_def by blast
qed

text \<open>The threads that come to the ready queue by a switch: the one that ran goes behind the others.\<close>

definition requeued :: "'a sched_state_scheme \<Rightarrow> u8 \<Rightarrow> u64 \<Rightarrow> thread \<Rightarrow> bool" where
  "requeued s c cur n \<longleftrightarrow> t_state n = THREAD_STATE_RUNNING \<and> cur \<noteq> idle_threads s c"

lemma pick_next_ok:
  assumes l: "lists s w R Z W" and cur: "\<not> listed (w cur)" "cur \<noteq> NULL" "threads s cur = Some n"
    and i: "idle_threads s c \<noteq> NULL" "\<not> listed (w (idle_threads s c))" "threads s (idle_threads s c) = Some ni"
    and q: "q = R @ (if requeued s c cur n then [cur] else [])"
    and nx: "nxt = (if q = [] then idle_threads s c else hd q)"
  shows "\<exists>m' h' t'. pick_next c cur s = Some (nxt, s\<lparr>threads := m', ready_queue_head := h', ready_queue_tail := t'\<rparr>) \<and>
      (\<forall>pc. (if requeued s c cur n then pc = Ready else \<not> listed pc) \<longrightarrow>
         lists_ok m' (wait_queues s) h' t' (zombie_list s) (w(cur := pc, nxt := On c)) (List.tl q) Z W) \<and>
      same_core (if requeued s c cur n then (threads s)(cur \<mapsto> n\<lparr>t_state := THREAD_STATE_READY\<rparr>) else threads s) m'"
proof (cases "requeued s c cur n")
  case True
  from enqueue_lists [OF l cur(3,2,1)] obtain m1 h1 where e: "enqueue_locked cur s = Some (s\<lparr>threads := m1, ready_queue_head := h1, ready_queue_tail := cur\<rparr>)"
    "same_core ((threads s)(cur \<mapsto> n\<lparr>t_state := THREAD_STATE_READY\<rparr>)) m1"
    "lists_ok m1 (wait_queues s) h1 cur (zombie_list s) (w(cur := Ready)) (R @ [cur]) Z W" by blast
  define s1 where "s1 = s\<lparr>threads := m1, ready_queue_head := h1, ready_queue_tail := cur\<rparr>"
  obtain t Q where tQ: "R @ [cur] = t # Q" by (cases "R @ [cur]") auto
  have l1: "lists s1 (w(cur := Ready)) (t # Q) Z W" using e(3) tQ by (simp add: s1_def)
  have "\<not> listed (On c)" by simp
  from dequeue_lists [OF l1 this] obtain m' h' where d:
    "dequeue_locked s1 = Some (t, s1\<lparr>threads := m', ready_queue_head := h', ready_queue_tail := (if Q = [] then NULL else ready_queue_tail s1)\<rparr>)"
    "same_core (threads s1) m'"
    "lists_ok m' (wait_queues s1) h' (if Q = [] then NULL else ready_queue_tail s1) (zombie_list s1) (w(cur := Ready, t := On c)) Q Z W"
    by blast
  have tn: "t \<noteq> NULL" using lists_okD(1) [OF l1] by auto
  have run: "pick_next c cur s = Some (t, s\<lparr>threads := m', ready_queue_head := h', ready_queue_tail := (if Q = [] then NULL else cur)\<rparr>)"
    using True cur(3) e(1) d(1) tn by (simp add: pick_next_def requeued_def s1_def Let_def)
  have r: "ready_queue_tail s1 = cur" "wait_queues s1 = wait_queues s" "zombie_list s1 = zombie_list s" by (simp_all add: s1_def)
  note d3 = d(3) [unfolded r]
  have "nxt = t" "List.tl q = Q" using nx q True tQ by simp_all
  moreover have "same_core ((threads s)(cur \<mapsto> n\<lparr>t_state := THREAD_STATE_READY\<rparr>)) m'"
    using same_core_trans [OF e(2)] d(2) by (simp add: s1_def)
  ultimately show ?thesis
    using run d3 True
    by (intro exI [where x = m']) (rule exI [where x = h'], rule exI [where x = "if Q = [] then NULL else cur"], simp add: s1_def)
next
  case False
  show ?thesis
  proof (cases R)
    case Nil
    then have h: "ready_queue_head s = NULL" using lists_okD(1) [OF l] by simp
    have run: "pick_next c cur s = Some (idle_threads s c, s)"
      using False cur(3) h i(1)
      by (cases "t_state n = THREAD_STATE_RUNNING") (simp_all add: pick_next_def requeued_def dequeue_locked_def Let_def)
    have "lists_ok (threads s) (wait_queues s) (ready_queue_head s) (ready_queue_tail s) (zombie_list s)
        (w(cur := pc, idle_threads s c := On c)) R Z W" if "\<not> listed pc" for pc
    proof (rule lists_place [OF lists_place [OF l cur(1) that cur(3)] _ _ i(3)])
      show "\<not> listed ((w(cur := pc)) (idle_threads s c))" using i(2) that by (cases "idle_threads s c = cur") simp_all
    qed simp
    then show ?thesis using run False Nil q nx
      by (intro exI [where x = "threads s"]) (rule exI [where x = "ready_queue_head s"], rule exI [where x = "ready_queue_tail s"], simp)
  next
    case (Cons t Q)
    have l1: "lists s w (t # Q) Z W" using l Cons by simp
    have "\<not> listed (On c)" by simp
    from dequeue_lists [OF l1 this] obtain m' h' where d:
      "dequeue_locked s = Some (t, s\<lparr>threads := m', ready_queue_head := h', ready_queue_tail := (if Q = [] then NULL else ready_queue_tail s)\<rparr>)"
      "same_core (threads s) m'"
      "lists_ok m' (wait_queues s) h' (if Q = [] then NULL else ready_queue_tail s) (zombie_list s) (w(t := On c)) Q Z W"
      by blast
    have "w t = Ready" using lists_okD(4) [OF l1] by auto
    then have tn: "t \<noteq> NULL" "t \<noteq> cur" using lists_okD(1) [OF l1] cur(1) by auto
    have run: "pick_next c cur s = Some (t, s\<lparr>threads := m', ready_queue_head := h', ready_queue_tail := (if Q = [] then NULL else ready_queue_tail s)\<rparr>)"
      using False cur(3) d(1) tn
      by (cases "t_state n = THREAD_STATE_RUNNING") (simp_all add: pick_next_def requeued_def Let_def)
    have q': "nxt = t" "List.tl q = Q" using nx q False Cons by simp_all
    have "lists_ok m' (wait_queues s) h' (if Q = [] then NULL else ready_queue_tail s) (zombie_list s) (w(cur := pc, t := On c)) Q Z W"
      if "\<not> listed pc" for pc
    proof -
      from same_core_Some [OF d(2) cur(3)] obtain k where "m' cur = Some k" by blast
      with lists_place [OF d(3) _ that this] cur(1) tn show ?thesis by (simp add: fun_upd_twist)
    qed
    then show ?thesis using run False q' d(2)
      by (intro exI [where x = m']) (rule exI [where x = h'], rule exI [where x = "if Q = [] then NULL else ready_queue_tail s"], simp)
  qed
qed

lemma lists_touch:
  assumes l: "lists_ok m Q h zt z w R Z W" and x: "m x = Some k" "t_next k' = t_next k"
    "t_state k' = t_state k" "t_waiting_on k' = t_waiting_on k" "t_wait_seq k' = t_wait_seq k"
  shows "lists_ok (m(x \<mapsto> k')) Q h zt z w R Z W"
proof -
  have s: "linked t_next (m(x \<mapsto> k')) a ps = linked t_next m a ps" for a ps
    by (rule linked_upd_same) (use x in auto)
  have "thread_listed Q (w y) n" if "(m(x \<mapsto> k')) y = Some n" for y n
    using that lists_okD(9) [OF l, of y] x by (cases "y = x") (auto simp: thread_listed_def split: place.splits)
  with l show ?thesis unfolding lists_ok_def s by simp
qed

text \<open>The part of the state the scheduler's invariant speaks about.\<close>

definition sched_view where
  "sched_view s = (threads s, wait_queues s, (ready_queue_head s, ready_queue_tail s, zombie_list s),
     (current_threads s, idle_threads s, pending_park s, pending_zombie s), (frames s, thread_stacks s, processes s),
     context_switch_lock s)"

lemma sched_ok_view:
  assumes "sched_view s = sched_view s'" shows "sched_ok s w R Z W \<longleftrightarrow> sched_ok s' w R Z W"
proof -
  have "resources s n = resources s' n" for n using assms by (simp add: sched_view_def resources_def)
  with assms show ?thesis by (simp add: sched_view_def sched_ok_def placed_ok_def)
qed

lemma sched_view_simps [simp]:
  "sched_view (s\<lparr>msr := m\<rparr>) = sched_view s" "sched_view (s\<lparr>cr3 := f\<rparr>) = sched_view s"
  "sched_view (s\<lparr>active_cr3 := f\<rparr>) = sched_view s" "sched_view (s\<lparr>tss_per_cpu := t\<rparr>) = sched_view s"
  "sched_view (s\<lparr>cpu_local_data := l\<rparr>) = sched_view s"
  by (simp_all add: sched_view_def)

lemma sched_view_ops [simp]:
  "sched_view (write_msr c r v s) = sched_view s" "sched_view (write_cr3 c v s) = sched_view s"
  "sched_view (arch_set_kernel_stack K c t s) = sched_view s"
  by (simp_all add: write_msr_def write_cr3_def arch_set_kernel_stack_def Let_def)

text \<open>The stack and the address space of the thread that runs next.\<close>

lemma switch_tail:
  assumes n: "threads s x = Some n" "resources s n" and x: "x \<noteq> NULL"
  shows "\<exists>top s'. kernel_stack_top x s = Some top \<and> switch_address_space K c x (arch_set_kernel_stack K c top s) = Some s' \<and>
    sched_view s' = sched_view s \<and> threads s' x = Some n"
proof -
  obtain top where top: "kernel_stack_top x s = Some top"
    using n x by (cases "t_kernel n = NULL") (auto simp: kernel_stack_top_def resources_def)
  define s1 where "s1 = arch_set_kernel_stack K c top s"
  have v1: "sched_view s1 = sched_view s" by (simp add: s1_def)
  then have t1: "threads s1 x = Some n" "processes s1 = processes s" using n(1) by (simp_all add: sched_view_def)
  obtain pt where pt: "(if t_process n = NULL then Some NULL else map_option p_page_table (processes s1 (t_process n))) = Some pt"
    using n(2) t1(2) by (cases "t_process n = NULL") (auto simp: resources_def)
  obtain root force where rf: "(if pt \<noteq> NULL then (hhdm_virt_to_phys K pt, True) else (boot_cr3 s1 c, False)) = (root, force)"
    by (meson surj_pair)
  define s2 where "s2 = (if root \<noteq> 0 \<and> (force \<or> root \<noteq> active_cr3 s1 c)
       then (write_cr3 c root s1)\<lparr>active_cr3 := (active_cr3 s1)(c := root)\<rparr> else s1)"
  have "switch_address_space K c x s1 = Some s2"
    using t1(1) pt rf unfolding switch_address_space_def s2_def by (simp only: Option.bind.simps Let_def prod.case)
  moreover have v2: "sched_view s2 = sched_view s" by (simp add: s2_def v1)
  moreover have "threads s2 x = Some n" using v2 n(1) by (simp add: sched_view_def)
  ultimately show ?thesis using top unfolding s1_def by blast
qed

lemma switch_threads_eq:
  assumes "threads s cur = Some kc" "threads s nxt = Some kn" "cur \<noteq> nxt"
    and park: "park = (if t_state kc = THREAD_STATE_BLOCKED then (pending_park s)(c := cur) else pending_park s)"
    and zomb: "zomb = (if t_state kc = THREAD_STATE_TERMINATED \<and> cur \<noteq> idle_threads s c then (pending_zombie s)(c := cur) else pending_zombie s)"
  shows "\<exists>fs s'. switch_threads c cur nxt s = Some s' \<and> sched_view s' = sched_view (s\<lparr>pending_park := park, pending_zombie := zomb,
     threads := (threads s)(nxt \<mapsto> kn\<lparr>t_state := THREAD_STATE_RUNNING\<rparr>, cur \<mapsto> kc\<lparr>t_fs_base := fs\<rparr>),
     current_threads := (current_threads s)(c := nxt)\<rparr>)"
proof -
  define fs where "fs = (if t_process kc \<noteq> NULL then msr s c IA32_FS_BASE else t_fs_base kc)"
  have triv: "(threads s)(nxt \<mapsto> k, cur \<mapsto> kc) = (threads s)(nxt \<mapsto> k)" for k
    using assms(1,3) by (auto simp: fun_eq_iff)
  define b where "b \<longleftrightarrow> cur = idle_threads s c"
  then have b: "(cur = idle_threads s c) = b" by simp
  note assms = assms [unfolded b]
  show ?thesis
    by (rule exI [where x = fs])
      (use assms triv in \<open>cases "t_process kc = NULL"; cases "t_process kn = NULL"; cases "t_state kc"; cases b;
       simp add: b switch_threads_def upd_thread_def fs_def read_msr_def sched_view_def write_msr_def Let_def\<close>)
qed

text \<open>A switch: the place of the thread that ran follows from its state.\<close>

definition left_place :: "'a sched_state_scheme \<Rightarrow> u8 \<Rightarrow> u64 \<Rightarrow> thread \<Rightarrow> place" where
  "left_place s c cur n =
     (if requeued s c cur n then Ready
      else if cur = idle_threads s c then Idle c
      else if t_state n = THREAD_STATE_BLOCKED then Parking c else Dying c)"

lemma cpu_vars_switch:
  assumes v: "cpu_vars cu idle park zomb w" and cur: "w cur = On c" and nx: "w nxt = Ready \<or> nxt = idle c" "nxt \<noteq> NULL" "nxt \<noteq> cur"
    and free: "park c = NULL" "zomb c = NULL"
    and pc: "pc = Ready \<and> cur \<noteq> idle c \<and> park' = park \<and> zomb' = zomb \<or> pc = Idle c \<and> cur = idle c \<and> park' = park \<and> zomb' = zomb \<or>
       pc = Parking c \<and> cur \<noteq> idle c \<and> park' = park(c := cur) \<and> zomb' = zomb \<or>
       pc = Dying c \<and> cur \<noteq> idle c \<and> park' = park \<and> zomb' = zomb(c := cur)"
  shows "cpu_vars (cu(c := nxt)) idle park' zomb' (w(cur := pc, nxt := On c))"
proof (rule cpu_varsI)
  note d = cpu_varsD [OF v]
  have c0: "cur \<noteq> NULL" "cu c = cur" using d(1) [of cur c] cur by simp_all
  then have ic: "idle c \<noteq> NULL" using d(5) [of c] by simp
  have wn: "w nxt = Ready \<or> w nxt = Idle c"
    using nx d(6) [of c] d(1) [of nxt c] c0 by auto
  have pn: "pc \<noteq> On a" for a using pc by auto
  have wna: "w nxt \<noteq> On a" "w nxt \<noteq> Parking a" "w nxt \<noteq> Dying a" for a using wn by auto
  have idn: "idle a = nxt \<or> idle a = cur \<Longrightarrow> a = c" if "idle a \<noteq> NULL" for a
    using that d(5,6) [of a] cur wn nx(1) d(4) [of nxt c] by auto
  show "(w(cur := pc, nxt := On c)) x = On a \<longleftrightarrow> x \<noteq> NULL \<and> (cu(c := nxt)) a = x" for a x
  proof (cases "a = c")
    case True
    then show ?thesis using d(1) [of x c] c0 nx(2,3) pn by auto
  next
    case False
    then show ?thesis using d(1) [of x a] d(1) [of nxt a] d(1) [of cur a] wna(1) [of a] cur pn by auto
  qed
  have parks: "park' a = (if pc = Parking c \<and> a = c then cur else park a)"
    "zomb' a = (if pc = Dying c \<and> a = c then cur else zomb a)" for a
    using pc by auto
  have pp: "(pc = Parking a) = (pc = Parking c \<and> a = c)" "(pc = Dying a) = (pc = Dying c \<and> a = c)" for a using pc by auto
  show "(w(cur := pc, nxt := On c)) x = Parking a \<longleftrightarrow> x \<noteq> NULL \<and> park' a = x" for a x
  proof -
    consider "x = nxt" | "x = cur" "x \<noteq> nxt" | "x \<noteq> cur" "x \<noteq> nxt" by blast
    then show ?thesis
    proof cases
      case 1
      with d(2) [of nxt a] wna(2) [of a] nx(2,3) show ?thesis unfolding parks by (simp split: if_split)
    next
      case 2
      with d(2) [of cur a] cur c0(1) have "park a \<noteq> cur" by simp
      with 2 c0(1) show ?thesis unfolding parks by (simp only: pp(1) [of a] fun_upd_apply if_True if_False refl simp_thms split: if_split)
    next
      case 3
      with d(2) [of x a] free(1) show ?thesis unfolding parks by (cases "pc = Parking c \<and> a = c") auto
    qed
  qed
  show "(w(cur := pc, nxt := On c)) x = Dying a \<longleftrightarrow> x \<noteq> NULL \<and> zomb' a = x" for a x
  proof -
    consider "x = nxt" | "x = cur" "x \<noteq> nxt" | "x \<noteq> cur" "x \<noteq> nxt" by blast
    then show ?thesis
    proof cases
      case 1
      with d(3) [of nxt a] wna(3) [of a] nx(2,3) show ?thesis unfolding parks by (simp split: if_split)
    next
      case 2
      with d(3) [of cur a] cur c0(1) have "zomb a \<noteq> cur" by simp
      with 2 c0(1) show ?thesis unfolding parks by (simp only: pp(2) [of a] fun_upd_apply if_True if_False refl simp_thms split: if_split)
    next
      case 3
      with d(3) [of x a] free(2) show ?thesis unfolding parks by (cases "pc = Dying c \<and> a = c") auto
    qed
  qed
  have pi: "pc = Idle a \<Longrightarrow> a = c \<and> cur = idle c" for a using pc by auto
  show "(w(cur := pc, nxt := On c)) x = Idle a \<Longrightarrow> idle a = x" for a x
    using d(4) [of x a] pi [of a] by (auto split: if_splits)
  show "(cu(c := nxt)) a = NULL \<longleftrightarrow> idle a = NULL" for a
    using d(5) [of a] nx(2) ic by auto
  show "(w(cur := pc, nxt := On c)) (idle a) = On a \<or> (w(cur := pc, nxt := On c)) (idle a) = Idle a"
    if "(cu(c := nxt)) a \<noteq> NULL" for a
  proof (cases "a = c")
    case True
    have "idle c = cur \<Longrightarrow> pc = Idle c" using pc by auto
    with True d(6) [of c] c0 d(1) [of "idle c" c] show ?thesis by auto
  next
    case False
    with that have "cu a \<noteq> NULL" by simp
    with d(5,6) [of a] idn [of a] False show ?thesis by auto
  qed
qed

lemma switch_ok:
  assumes ok: "sched_ok s w R Z W" and free: "pending_park s c = NULL" "pending_zombie s c = NULL"
    and cur: "current_threads s c = cur" "cur \<noteq> NULL" "threads s cur = Some n"
    and q: "q = R @ (if requeued s c cur n then [cur] else [])"
    and nx: "nxt = (if q = [] then idle_threads s c else hd q)" "nxt \<noteq> cur"
  shows "\<exists>s4 s5 s6 top r w'. pick_next c cur s = Some (nxt, s4) \<and> switch_threads c cur nxt s4 = Some s5 \<and>
    kernel_stack_top nxt s5 = Some top \<and> switch_address_space K c nxt (arch_set_kernel_stack K c top s5) = Some s6 \<and>
    map_option t_regs (threads s6 nxt) = Some r \<and> sched_ok s6 w' (List.tl q) Z W \<and>
    current_threads s6 = (current_threads s)(c := nxt) \<and> same_objects s s6 \<and> idle_threads s6 = idle_threads s \<and>
    context_switch_lock s6 = context_switch_lock s \<and> wait_queues s6 = wait_queues s"
proof -
  from ok have l: "lists s w R Z W" and v: "cpu_vars (current_threads s) (idle_threads s) (pending_park s) (pending_zombie s) w"
    and p: "placed_ok s w" by (simp_all add: sched_ok_def)
  note d = cpu_varsD [OF v]
  have wc: "w cur = On c" using d(1) cur by blast
  have ic: "idle_threads s c \<noteq> NULL" "w (idle_threads s c) = On c \<or> w (idle_threads s c) = Idle c"
    using d(5,6) [of c] cur by auto
  have "w (idle_threads s c) \<noteq> Elsewhere" using ic(2) by auto
  then obtain ni where ni: "threads s (idle_threads s c) = Some ni" using placedD [OF p] by blast
  have fits: "state_fits (idle_threads s) (On c) cur n" "resources s n" using placedD [OF p, of cur] wc cur(3) by auto
  define pc where "pc = left_place s c cur n"
  have pcl: "if requeued s c cur n then pc = Ready else \<not> listed pc" by (simp add: pc_def left_place_def)
  have "\<not> listed (w (idle_threads s c))" using ic(2) by auto
  from pick_next_ok [OF l _ cur(2,3) ic(1) this ni q nx(1)] wc obtain m' h' t' where pk:
    "pick_next c cur s = Some (nxt, s\<lparr>threads := m', ready_queue_head := h', ready_queue_tail := t'\<rparr>)"
    "lists_ok m' (wait_queues s) h' t' (zombie_list s) (w(cur := pc, nxt := On c)) (List.tl q) Z W"
    "same_core (if requeued s c cur n then (threads s)(cur \<mapsto> n\<lparr>t_state := THREAD_STATE_READY\<rparr>) else threads s) m'"
    using pcl by auto
  define s4 where "s4 = s\<lparr>threads := m', ready_queue_head := h', ready_queue_tail := t'\<rparr>"
  have nxw: "w nxt = Ready \<or> nxt = idle_threads s c"
    using nx q lists_okD(4) [OF l] by (cases R) (auto split: if_splits)
  then have nxp: "w nxt \<noteq> Elsewhere" using ic(2) by auto
  then obtain n1 where n1: "nxt \<noteq> NULL" "threads s nxt = Some n1" "resources s n1" using placedD [OF p] by blast
  define cn where "cn = (if requeued s c cur n then n\<lparr>t_state := THREAD_STATE_READY\<rparr> else n)"
  have sc: "map_option core (m' x) = map_option core (((threads s)(cur \<mapsto> cn)) x)" for x
    using pk(3) cur(3) by (auto simp: same_core_def cn_def split: if_splits)
  obtain kc where kc: "m' cur = Some kc" "core kc = core cn" using sc [of cur] by auto
  obtain kn where kn: "m' nxt = Some kn" "core kn = core n1" using sc [of nxt] n1(2) nx(2) by auto
  have stc: "t_state kc = t_state cn" using core_fields [OF kc(2)] by simp
  define park where "park = (if t_state kc = THREAD_STATE_BLOCKED then (pending_park s4)(c := cur) else pending_park s4)"
  define zomb where "zomb = (if t_state kc = THREAD_STATE_TERMINATED \<and> cur \<noteq> idle_threads s4 c then (pending_zombie s4)(c := cur) else pending_zombie s4)"
  have t4: "threads s4 cur = Some kc" "threads s4 nxt = Some kn" using kc kn by (simp_all add: s4_def)
  from switch_threads_eq [OF t4 nx(2) [symmetric] park_def zomb_def] obtain fs s5 where s5: "switch_threads c cur nxt s4 = Some s5"
    "sched_view s5 = sched_view (s4\<lparr>pending_park := park, pending_zombie := zomb,
     threads := (threads s4)(nxt \<mapsto> kn\<lparr>t_state := THREAD_STATE_RUNNING\<rparr>, cur \<mapsto> kc\<lparr>t_fs_base := fs\<rparr>),
     current_threads := (current_threads s4)(c := nxt)\<rparr>)" by blast
  define m5 where "m5 = m'(nxt \<mapsto> kn\<lparr>t_state := THREAD_STATE_RUNNING\<rparr>, cur \<mapsto> kc\<lparr>t_fs_base := fs\<rparr>)"
  define sv where "sv = s\<lparr>threads := m5, ready_queue_head := h', ready_queue_tail := t', pending_park := park, pending_zombie := zomb,
     current_threads := (current_threads s)(c := nxt)\<rparr>"
  have view: "sched_view s5 = sched_view sv" by (simp only: s5(2)) (simp add: sched_view_def s4_def sv_def m5_def)
  define w' where "w' = w(cur := pc, nxt := On c)"
  have "lists_ok (m'(nxt \<mapsto> kn\<lparr>t_state := THREAD_STATE_RUNNING\<rparr>)) (wait_queues s) h' t' (zombie_list s) w' (List.tl q) Z W"
    using lists_upd_same [OF pk(2), of nxt] by (simp add: w'_def)
  from lists_touch [OF this, of cur kc "kc\<lparr>t_fs_base := fs\<rparr>"] kc(1) nx(2)
  have l5: "lists_ok m5 (wait_queues s) h' t' (zombie_list s) w' (List.tl q) Z W" by (simp add: m5_def)
  have stn: "t_state n = THREAD_STATE_RUNNING \<or> t_state n = THREAD_STATE_BLOCKED \<or> t_state n = THREAD_STATE_TERMINATED"
    "cur = idle_threads s c \<Longrightarrow> t_state n = THREAD_STATE_RUNNING"
    using fits(1) by (auto simp: state_fits_def)
  have cases: "pc = Ready \<and> cur \<noteq> idle_threads s c \<and> park = pending_park s \<and> zomb = pending_zombie s \<or>
       pc = Idle c \<and> cur = idle_threads s c \<and> park = pending_park s \<and> zomb = pending_zombie s \<or>
       pc = Parking c \<and> cur \<noteq> idle_threads s c \<and> park = (pending_park s)(c := cur) \<and> zomb = pending_zombie s \<or>
       pc = Dying c \<and> cur \<noteq> idle_threads s c \<and> park = pending_park s \<and> zomb = (pending_zombie s)(c := cur)"
    using stn unfolding park_def zomb_def stc pc_def left_place_def cn_def s4_def requeued_def
    by (cases "cur = idle_threads s c") auto
  have v5: "cpu_vars ((current_threads s)(c := nxt)) (idle_threads s) park zomb w'"
    unfolding w'_def by (rule cpu_vars_switch [OF v wc nxw n1(1) nx(2) free cases])
  have res_c: "resources s (kc\<lparr>t_fs_base := fs\<rparr>)" "resources s (kn\<lparr>t_state := THREAD_STATE_RUNNING\<rparr>)"
    using fits(2) n1(3) core_fields [OF kc(2)] core_fields [OF kn(2)] by (auto simp: resources_def cn_def split: if_splits)
  have p5: "placed_ok sv w'"
  proof (rule placed_ok_step [OF p])
    fix x assume "w' x \<noteq> Elsewhere"
    consider "x = cur" | "x = nxt" | "x \<noteq> cur" "x \<noteq> nxt" by blast
    then show "w' x = w x \<and> map_option core (threads sv x) = map_option core (threads s x) \<or>
       x \<noteq> NULL \<and> (\<exists>n. threads sv x = Some n \<and> resources s n \<and> state_fits (idle_threads s) (w' x) x n)"
    proof cases
      case 1
      have "state_fits (idle_threads s) pc cur (kc\<lparr>t_fs_base := fs\<rparr>)"
        using stn stc by (auto simp: state_fits_def pc_def left_place_def cn_def requeued_def)
      with 1 res_c cur(2) nx(2) show ?thesis by (simp add: sv_def m5_def w'_def)
    next
      case 2
      have "state_fits (idle_threads s) (On c) nxt (kn\<lparr>t_state := THREAD_STATE_RUNNING\<rparr>)" by (simp add: state_fits_def)
      with 2 res_c n1(1) nx(2) show ?thesis by (simp add: sv_def m5_def w'_def)
    next
      case 3
      with sc [of x] show ?thesis by (simp add: sv_def m5_def w'_def)
    qed
  qed (simp_all add: sv_def same_objects_def)
  have okv: "sched_ok sv w' (List.tl q) Z W" using l5 v5 p5 by (simp add: sched_ok_def sv_def)
  have t5: "threads s5 nxt = Some (kn\<lparr>t_state := THREAD_STATE_RUNNING\<rparr>)" "resources s5 (kn\<lparr>t_state := THREAD_STATE_RUNNING\<rparr>)"
    using view res_c nx(2) by (simp_all add: sched_view_def sv_def m5_def resources_def)
  from switch_tail [OF t5 n1(1), of K c] obtain top s6 where s6: "kernel_stack_top nxt s5 = Some top"
    "switch_address_space K c nxt (arch_set_kernel_stack K c top s5) = Some s6" "sched_view s6 = sched_view s5"
    "threads s6 nxt = Some (kn\<lparr>t_state := THREAD_STATE_RUNNING\<rparr>)" by blast
  have ok6: "sched_ok s6 w' (List.tl q) Z W" using okv sched_ok_view [of s6 sv] s6(3) view by simp
  have rest: "current_threads s6 = (current_threads s)(c := nxt)" "same_objects s s6" "idle_threads s6 = idle_threads s"
    "context_switch_lock s6 = context_switch_lock s" "wait_queues s6 = wait_queues s"
    using s6(3) view by (simp_all add: sched_view_def sv_def same_objects_def)
  have "map_option t_regs (threads s6 nxt) = Some (t_regs kn)" using s6(4) by simp
  then show ?thesis using pk(1) [folded s4_def] s5(1) s6(1,2) ok6 rest by blast
qed

section \<open>Every step keeps the threads in their places\<close>

lemma sched_okD:
  assumes "sched_ok s w R Z W"
  shows "lists s w R Z W" "cpu_vars (current_threads s) (idle_threads s) (pending_park s) (pending_zombie s) w" "placed_ok s w"
  using assms by (simp_all add: sched_ok_def)

lemma same_objects_trans: "same_objects s s' \<Longrightarrow> same_objects s' s'' \<Longrightarrow> same_objects s s''"
  unfolding same_objects_def by (elim conjE) (intro conjI; erule subset_trans; assumption)

lemma frames_ok:
  assumes "sched_ok s w R Z W" "dom (frames s) \<subseteq> dom f"
  shows "sched_ok (s\<lparr>frames := f\<rparr>) w R Z W"
proof -
  have "placed_ok (s\<lparr>frames := f\<rparr>) w"
    by (rule placed_ok_step [OF sched_okD(3) [OF assms(1)]]) (use assms(2) in \<open>simp_all add: same_objects_def\<close>)
  with assms(1) show ?thesis by (simp add: sched_ok_def)
qed

lemma current_thread:
  assumes ok: "sched_ok s w R Z W" and c: "current_threads s c \<noteq> NULL"
  obtains n where "threads s (current_threads s c) = Some n" "w (current_threads s c) = On c" "resources s n"
    "state_fits (idle_threads s) (On c) (current_threads s c) n"
proof -
  have w: "w (current_threads s c) = On c" using cpu_varsD(1) [OF sched_okD(2) [OF ok]] c by blast
  then have "w (current_threads s c) \<noteq> Elsewhere" by simp
  from placedD [OF sched_okD(3) [OF ok] this] that w show ?thesis by metis
qed

lemma upd_current_ok:
  assumes ok: "sched_ok s w R Z W" and x: "w x = On c" "x \<noteq> NULL" "resources s n" "state_fits (idle_threads s) (On c) x n"
  shows "sched_ok (s\<lparr>threads := (threads s)(x \<mapsto> n)\<rparr>) w R Z W"
proof -
  note o = sched_okD [OF ok]
  have "lists (s\<lparr>threads := (threads s)(x \<mapsto> n)\<rparr>) w R Z W" using lists_upd_same [OF o(1), of x n] x(1) by simp
  moreover have "placed_ok (s\<lparr>threads := (threads s)(x \<mapsto> n)\<rparr>) w"
    by (rule placed_ok_step [OF o(3)]) (use x in \<open>auto simp: same_objects_def\<close>)
  ultimately show ?thesis using o(2) by (simp add: sched_ok_def)
qed

lemma save_frame_ok:
  assumes "threads s cur = Some n" "resources s n" "frames s regs = Some r"
  shows "\<exists>f. save_frame cur regs b s = Some (s\<lparr>frames := f\<rparr>) \<and> dom (frames s) \<subseteq> dom f"
proof -
  from assms(2) obtain k where k: "t_regs n \<noteq> NULL" "frames s (t_regs n) = Some k" by (auto simp: resources_def)
  show ?thesis
  proof (cases b)
    case True
    with assms k show ?thesis
      by (intro exI [where x = "(frames s)(t_regs n \<mapsto> r\<lparr>rg_rsp := regs + 160, rg_ss := 0x10\<rparr>)"]) (auto simp: save_frame_def upd_frame_def)
  next
    case False
    with assms k show ?thesis
      by (intro exI [where x = "(frames s)(t_regs n \<mapsto> r)"]) (auto simp: save_frame_def upd_frame_def)
  qed
qed

definition stays :: "registers \<Rightarrow> thread \<Rightarrow> bool" where
  "stays r n \<longleftrightarrow> rg_cs r AND 3 = 0 \<and> t_process n \<noteq> NULL \<and> t_state n \<noteq> THREAD_STATE_BLOCKED"

lemma schedule_ok:
  assumes ok: "sched_ok s w R Z W" and lock: "\<not> context_switch_lock s"
    and cur: "current_threads s c = cur" "cur \<noteq> NULL" "threads s cur = Some n"
    and regs: "regs \<noteq> NULL" "frames s regs = Some r" "\<not> stays r n"
  shows "\<exists>r' s' w' X Z' W'. scheduler_schedule K c regs s = Some (r', s') \<and> sched_ok s' w' (List.tl (R @ X)) Z' W' \<and>
    current_threads s' = (current_threads s)(c := if R @ X = [] then idle_threads s c else hd (R @ X)) \<and>
    same_objects s s' \<and> idle_threads s' = idle_threads s \<and> context_switch_lock s' = context_switch_lock s \<and>
    map_option wq_seq \<circ> wait_queues s' = map_option wq_seq \<circ> wait_queues s"
proof -
  obtain n0 where n0: "threads s cur = Some n0" "w cur = On c" "resources s n0" "state_fits (idle_threads s) (On c) cur n0"
    using current_thread [OF ok, of c] cur by auto
  from save_frame_ok [OF n0(1,3) regs(2), of "rg_cs r AND 3 = 0"] obtain f where f:
    "save_frame cur regs (rg_cs r AND 3 = 0) s = Some (s\<lparr>frames := f\<rparr>)" "dom (frames s) \<subseteq> dom f" by blast
  define s1 where "s1 = s\<lparr>frames := f\<rparr>"
  have ok1: "sched_ok s1 w R Z W" using frames_ok [OF ok f(2)] by (simp add: s1_def)
  from park_pending_ok [OF ok1, of c] obtain m2 Q2 h2 t2 w2 X2 W2 where k2:
    "park_pending c s1 = Some (s1\<lparr>threads := m2, wait_queues := Q2, ready_queue_head := h2, ready_queue_tail := t2, pending_park := (pending_park s1)(c := NULL)\<rparr>)"
    "sched_ok (s1\<lparr>threads := m2, wait_queues := Q2, ready_queue_head := h2, ready_queue_tail := t2, pending_park := (pending_park s1)(c := NULL)\<rparr>) w2 (R @ X2) Z W2"
    "\<And>x. w x \<noteq> Parking c \<Longrightarrow> w2 x = w x \<and> map_option core (m2 x) = map_option core (threads s1 x)"
    "map_option wq_seq \<circ> Q2 = map_option wq_seq \<circ> wait_queues s1" by blast
  define s2 where "s2 = s1\<lparr>threads := m2, wait_queues := Q2, ready_queue_head := h2, ready_queue_tail := t2, pending_park := (pending_park s1)(c := NULL)\<rparr>"
  from bury_pending_ok [OF k2(2) [folded s2_def], of c] obtain m3 z3 w3 Z3 where k3:
    "bury_pending c s2 = Some (s2\<lparr>threads := m3, zombie_list := z3, pending_zombie := (pending_zombie s2)(c := NULL)\<rparr>)"
    "sched_ok (s2\<lparr>threads := m3, zombie_list := z3, pending_zombie := (pending_zombie s2)(c := NULL)\<rparr>) w3 (R @ X2) Z3 W2"
    "\<And>x. w2 x \<noteq> Dying c \<Longrightarrow> w3 x = w2 x \<and> map_option core (m3 x) = map_option core (threads s2 x)" by blast
  define s3 where "s3 = s2\<lparr>threads := m3, zombie_list := z3, pending_zombie := (pending_zombie s2)(c := NULL)\<rparr>"
  note ok3 = k3(2) [folded s3_def]
  have w3: "w3 cur = On c" "map_option core (m3 cur) = map_option core (threads s cur)"
    using k2(3) [of cur] k3(3) [of cur] n0(2) by (simp_all add: s2_def s1_def)
  then obtain n3 where n3: "m3 cur = Some n3" "core n3 = core n0" using n0(1) by auto
  have id3: "idle_threads s3 = idle_threads s" "current_threads s3 = current_threads s" "context_switch_lock s3 = context_switch_lock s"
    by (simp_all add: s3_def s2_def s1_def)
  have "dom Q2 = dom (wait_queues s1)"
  proof -
    have "map_option wq_seq (Q2 x) = map_option wq_seq (wait_queues s1 x)" for x
      using fun_cong [OF k2(4), of x] by simp
    then have "(Q2 x = None) = (wait_queues s1 x = None)" for x by (metis option.map_disc_iff)
    then show ?thesis by (auto simp: dom_def)
  qed
  then have so3: "same_objects s s3" using f(2) by (simp add: same_objects_def s3_def s2_def s1_def)
  have seq3: "map_option wq_seq \<circ> wait_queues s3 = map_option wq_seq \<circ> wait_queues s" using k2(4) by (simp add: s3_def s2_def s1_def)
  have free: "pending_park s3 c = NULL" "pending_zombie s3 c = NULL" by (simp_all add: s3_def s2_def)
  have start: "scheduler_schedule K c regs s = do {
      (next, s) \<leftarrow> pick_next c cur s3;
      if next = cur then do {
        s \<leftarrow> upd_thread cur (\<lambda>n. n\<lparr>t_waiting_on := NULL, t_state := THREAD_STATE_RUNNING\<rparr>) s;
        Some (regs, s) }
      else do {
        s \<leftarrow> switch_threads c cur next s;
        top \<leftarrow> kernel_stack_top next s;
        let s = arch_set_kernel_stack K c top s;
        s \<leftarrow> switch_address_space K c next s;
        n \<leftarrow> threads s next;
        Some (t_regs n, s) } }"
    using lock cur regs(1,2) f(1) k2(1) k3(1)
    by (simp add: scheduler_schedule_def if_not_P [OF regs(3) [unfolded stays_def]] Let_def s1_def [symmetric] s2_def [symmetric] s3_def [symmetric])
  define X where "X = X2 @ (if requeued s3 c cur n3 then [cur] else [])"
  have q: "R @ X = (R @ X2) @ (if requeued s3 c cur n3 then [cur] else [])" by (simp add: X_def)
  define nxt where "nxt = (if R @ X = [] then idle_threads s3 c else hd (R @ X))"
  have t3: "threads s3 cur = Some n3" using n3(1) by (simp add: s3_def)
  have c3: "current_threads s3 c = cur" using id3(2) cur(1) by simp
  show ?thesis
  proof (cases "nxt = cur")
    case False
    from switch_ok [OF ok3 free c3 cur(2) t3 q nxt_def False, of K] obtain s4 s5 s6 top rg w' where sw:
      "pick_next c cur s3 = Some (nxt, s4)" "switch_threads c cur nxt s4 = Some s5" "kernel_stack_top nxt s5 = Some top"
      "switch_address_space K c nxt (arch_set_kernel_stack K c top s5) = Some s6" "map_option t_regs (threads s6 nxt) = Some rg"
      "sched_ok s6 w' (List.tl (R @ X)) Z3 W2" "current_threads s6 = (current_threads s3)(c := nxt)" "same_objects s3 s6"
      "idle_threads s6 = idle_threads s3" "context_switch_lock s6 = context_switch_lock s3" "wait_queues s6 = wait_queues s3" by blast
    obtain k where k: "threads s6 nxt = Some k" "t_regs k = rg" using sw(5) by auto
    have run: "scheduler_schedule K c regs s = Some (rg, s6)"
      unfolding start using sw(1-4) k False by (simp add: Let_def)
    have "same_objects s s6" by (rule same_objects_trans [OF so3 sw(8)])
    moreover have "map_option wq_seq \<circ> wait_queues s6 = map_option wq_seq \<circ> wait_queues s" using seq3 sw(11) by simp
    moreover have "current_threads s6 = (current_threads s)(c := if R @ X = [] then idle_threads s c else hd (R @ X))"
      using sw(7) id3(1,2) unfolding nxt_def by simp
    ultimately show ?thesis using run sw(6) sw(9,10) id3 by (metis (no_types))
  next
    case True
    note o3 = sched_okD [OF ok3]
    have ic: "idle_threads s3 c \<noteq> NULL" "w3 (idle_threads s3 c) = On c \<or> w3 (idle_threads s3 c) = Idle c"
      using cpu_varsD(5,6) [OF o3(2), of c] c3 cur(2) by auto
    have "w3 (idle_threads s3 c) \<noteq> Elsewhere" "\<not> listed (w3 (idle_threads s3 c))" using ic(2) by auto
    from placedD [OF o3(3) this(1)] obtain ni where ni: "threads s3 (idle_threads s3 c) = Some ni" by blast
    have wl: "\<not> listed (w3 cur)" using w3(1) by simp
    from pick_next_ok [OF o3(1) wl cur(2) t3 ic(1) \<open>\<not> listed (w3 (idle_threads s3 c))\<close> ni q nxt_def]
    obtain m' h' t' where pk: "pick_next c cur s3 = Some (nxt, s3\<lparr>threads := m', ready_queue_head := h', ready_queue_tail := t'\<rparr>)"
      "\<And>pc. (if requeued s3 c cur n3 then pc = Ready else \<not> listed pc) \<Longrightarrow>
         lists_ok m' (wait_queues s3) h' t' (zombie_list s3) (w3(cur := pc, nxt := On c)) (List.tl (R @ X)) Z3 W2"
      "same_core (if requeued s3 c cur n3 then (threads s3)(cur \<mapsto> n3\<lparr>t_state := THREAD_STATE_READY\<rparr>) else threads s3) m'" by blast
    define s4 where "s4 = s3\<lparr>threads := m', ready_queue_head := h', ready_queue_tail := t'\<rparr>"
    have l4: "lists s4 w3 (List.tl (R @ X)) Z3 W2"
      using pk(2) [of "if requeued s3 c cur n3 then Ready else Elsewhere"] True w3(1)
      by (simp add: s4_def fun_upd_idem)
    obtain k where k: "m' cur = Some k" "resources s3 (k\<lparr>t_waiting_on := NULL, t_state := THREAD_STATE_RUNNING\<rparr>)"
    proof -
      have "map_option core (m' cur) = Some (core (if requeued s3 c cur n3 then n3\<lparr>t_state := THREAD_STATE_READY\<rparr> else n3))"
        using pk(3) t3 by (auto simp: same_core_def split: if_splits)
      then obtain k where k: "m' cur = Some k" "core k = core (if requeued s3 c cur n3 then n3\<lparr>t_state := THREAD_STATE_READY\<rparr> else n3)" by auto
      have "resources s3 n3" using resources_core [OF n3(2), of s3] resources_step [OF so3 n0(3)] by simp
      then have "resources s3 (k\<lparr>t_waiting_on := NULL, t_state := THREAD_STATE_RUNNING\<rparr>)"
        using core_fields [OF k(2)] by (auto simp: resources_def split: if_splits)
      with k(1) that show ?thesis by blast
    qed
    define s5 where "s5 = s4\<lparr>threads := m'(cur \<mapsto> k\<lparr>t_waiting_on := NULL, t_state := THREAD_STATE_RUNNING\<rparr>)\<rparr>"
    have run: "scheduler_schedule K c regs s = Some (regs, s5)"
      unfolding start using pk(1) True k(1) by (simp add: s4_def s5_def upd_thread_def)
    have "lists s5 w3 (List.tl (R @ X)) Z3 W2" using lists_upd_same [OF l4, of cur] wl by (simp add: s5_def s4_def)
    moreover have "cpu_vars (current_threads s5) (idle_threads s5) (pending_park s5) (pending_zombie s5) w3"
      using o3(2) by (simp add: s5_def s4_def)
    moreover have "placed_ok s5 w3"
    proof (rule placed_ok_step [OF o3(3)])
      fix x assume "w3 x \<noteq> Elsewhere"
      show "w3 x = w3 x \<and> map_option core (threads s5 x) = map_option core (threads s3 x) \<or>
        x \<noteq> NULL \<and> (\<exists>n. threads s5 x = Some n \<and> resources s3 n \<and> state_fits (idle_threads s3) (w3 x) x n)"
        using pk(3) k cur(2) w3(1)
        by (cases "x = cur") (auto simp: s5_def state_fits_def same_core_def split: if_splits)
    qed (simp_all add: s5_def s4_def same_objects_def)
    ultimately have "sched_ok s5 w3 (List.tl (R @ X)) Z3 W2" by (simp add: sched_ok_def)
    moreover have "current_threads s5 = (current_threads s)(c := if R @ X = [] then idle_threads s c else hd (R @ X))"
      using True id3(1,2) cur(1) unfolding nxt_def by (auto simp: s5_def s4_def)
    moreover have "same_objects s s5" "idle_threads s5 = idle_threads s" "context_switch_lock s5 = context_switch_lock s"
      "map_option wq_seq \<circ> wait_queues s5 = map_option wq_seq \<circ> wait_queues s"
      using so3 id3 seq3 by (simp_all add: s5_def s4_def same_objects_def)
    ultimately show ?thesis using run by (metis (no_types))
  qed
qed

lemma schedule_keeps:
  assumes ok: "sched_ok s w R Z W" and regs: "regs \<noteq> NULL" "frames s regs = Some r"
  shows "\<exists>r' s' w' R' Z' W'. scheduler_schedule K c regs s = Some (r', s') \<and> sched_ok s' w' R' Z' W'"
proof (cases "context_switch_lock s \<or> current_threads s c = NULL")
  case True
  then have "scheduler_schedule K c regs s = Some (regs, s)" by (auto simp: scheduler_schedule_def Let_def)
  with ok show ?thesis by blast
next
  case False
  then obtain n where n: "threads s (current_threads s c) = Some n" using current_thread [OF ok, of c] by metis
  show ?thesis
  proof (cases "stays r n")
    case True
    then have "scheduler_schedule K c regs s = Some (regs, s)"
      using n regs by (auto simp: scheduler_schedule_def Let_def stays_def)
    with ok show ?thesis by blast
  next
    case no: False
    from schedule_ok [OF ok _ refl _ n regs no, of K] False show ?thesis by blast
  qed
qed

lemma cpu_vars_cong:
  assumes v: "cpu_vars cur idle park zomb w" and e: "\<And>x p. \<not> listed p \<Longrightarrow> p \<noteq> Elsewhere \<Longrightarrow> w' x = p \<longleftrightarrow> w x = p"
  shows "cpu_vars cur idle park zomb w'"
proof -
  have eqs: "w' x = On c \<longleftrightarrow> w x = On c" "w' x = Parking c \<longleftrightarrow> w x = Parking c" "w' x = Dying c \<longleftrightarrow> w x = Dying c"
    "w' x = Idle c \<longleftrightarrow> w x = Idle c" for x c
    by (simp_all add: e)
  show ?thesis unfolding cpu_vars_def insert_iff eqs empty_iff by (rule v [unfolded cpu_vars_def insert_iff empty_iff])
qed

text \<open>Waking a queue moves its threads behind the ready ones, in the order of its list.\<close>

lemma wake_all_ok:
  assumes ok: "sched_ok s w R Z W" and v: "wait_queues s q = Some v"
  shows "\<exists>s'. scheduler_wake_all q s = Some s' \<and>
    sched_ok s' (\<lambda>x. if w x = Waiting q then Ready else w x) (R @ W q) Z (W(q := [])) \<and>
    wait_queues s' = (wait_queues s)(q \<mapsto> \<lparr>wq_head = NULL, wq_seq = wq_seq v + 1\<rparr>)"
proof -
  note o = sched_okD [OF ok]
  define Q where "Q = (wait_queues s)(q \<mapsto> \<lparr>wq_head = NULL, wq_seq = wq_seq v + 1\<rparr>)"
  define s1 where "s1 = s\<lparr>wait_queues := Q\<rparr>"
  define w1 where "w1 = (\<lambda>x. if w x = Waiting q then Elsewhere else w x)"
  define w2 where "w2 = (\<lambda>x. if w x = Waiting q then Ready else w x)"
  have l1: "lists s1 w1 R Z (W(q := []))"
    using detach_lists [OF o(1) v, of "wq_seq v + 1"] by (simp add: s1_def Q_def w1_def)
  have lk: "linked t_next (threads s1) (wq_head v) (W q)" using lists_okD(7) [OF o(1) v] by (simp add: s1_def)
  have wq: "set (W q) = {x. w x = Waiting q}" by (rule lists_okD(6) [OF o(1)])
  then have off: "\<forall>y \<in> set (W q). \<not> listed (w1 y)" by (simp add: w1_def)
  from wake_loop_lists [OF l1 lk off] obtain m' h' t' where wk:
    "wake_loop (wq_head v) s1 = Some (s1\<lparr>threads := m', ready_queue_head := h', ready_queue_tail := t'\<rparr>)"
    "same_core (\<lambda>y. if y \<in> set (W q) then map_option woken (threads s1 y) else threads s1 y) m'"
    "lists_ok m' (wait_queues s1) h' t' (zombie_list s1) (\<lambda>y. if y \<in> set (W q) then Ready else w1 y) (R @ W q) Z (W(q := []))" by blast
  define s' where "s' = s1\<lparr>threads := m', ready_queue_head := h', ready_queue_tail := t'\<rparr>"
  have "(\<lambda>y. if y \<in> set (W q) then Ready else w1 y) = w2" unfolding wq w1_def w2_def by auto
  then have "lists s' w2 (R @ W q) Z (W(q := []))" using wk(3) by (simp add: s'_def)
  moreover have "cpu_vars (current_threads s') (idle_threads s') (pending_park s') (pending_zombie s') w2"
  proof -
    have "w2 x = p \<longleftrightarrow> w x = p" if "\<not> listed p" "p \<noteq> Elsewhere" for x p
      using that by (auto simp: w2_def)
    from cpu_vars_cong [OF o(2) this] show ?thesis by (simp add: s'_def s1_def)
  qed
  moreover have "placed_ok s' w2"
  proof (rule placed_ok_step [OF o(3)])
    fix x assume x: "w2 x \<noteq> Elsewhere"
    have c: "map_option core (m' x) = map_option core (if x \<in> set (W q) then map_option woken (threads s x) else threads s x)"
      using wk(2) by (simp add: same_core_def s1_def)
    show "w2 x = w x \<and> map_option core (threads s' x) = map_option core (threads s x) \<or>
       x \<noteq> NULL \<and> (\<exists>n. threads s' x = Some n \<and> resources s n \<and> state_fits (idle_threads s) (w2 x) x n)"
    proof (cases "w x = Waiting q")
      case True
      then obtain n where n: "x \<noteq> NULL" "threads s x = Some n" "resources s n" using placedD [OF o(3), of x] by auto
      with True c wq obtain k where k: "m' x = Some k" "core k = core (woken n)" by auto
      have "resources s (woken n)" using n(3) by (simp add: resources_def woken_def)
      then have "resources s k" using resources_core [OF k(2), of s] by simp
      with True k n(1) show ?thesis by (simp add: s'_def w2_def state_fits_def)
    next
      case False
      with c wq show ?thesis by (simp add: s'_def w2_def)
    qed
  qed (auto simp: s'_def s1_def same_objects_def Q_def)
  ultimately have "sched_ok s' w2 (R @ W q) Z (W(q := []))" by (simp add: sched_ok_def)
  moreover have "scheduler_wake_all q s = Some s'"
    using v wk(1) by (simp add: scheduler_wake_all_def s'_def s1_def Q_def)
  moreover have "wait_queues s' = Q" by (simp add: s'_def s1_def)
  ultimately show ?thesis unfolding w2_def Q_def by blast
qed

lemma fresh_place:
  assumes "sched_ok s w R Z W" "threads s t = None" shows "w t = Elsewhere"
proof (rule ccontr)
  assume "w t \<noteq> Elsewhere"
  from placedD [OF sched_okD(3) [OF assms(1)] this] assms(2) show False by simp
qed

lemma spawn_ok:
  assumes ok: "sched_ok s w R Z W" and t: "t \<noteq> NULL" "threads s t = None" "resources s n"
  shows "\<exists>s'. scheduler_enqueue t (s\<lparr>threads := (threads s)(t \<mapsto> n)\<rparr>) = Some s' \<and> sched_ok s' (w(t := Ready)) (R @ [t]) Z W"
proof -
  note o = sched_okD [OF ok]
  have wt: "w t = Elsewhere" by (rule fresh_place [OF ok t(2)])
  define s1 where "s1 = s\<lparr>threads := (threads s)(t \<mapsto> n)\<rparr>"
  have l1: "lists s1 w R Z W" using lists_upd_same [OF o(1), of t n] wt by (simp add: s1_def)
  have t1: "threads s1 t = Some n" "\<not> listed (w t)" using wt by (simp_all add: s1_def)
  from enqueue_lists [OF l1 t1(1) t(1) t1(2)] obtain m' where e:
    "enqueue_locked t s1 = Some (s1\<lparr>threads := m', ready_queue_head := (if R = [] then t else ready_queue_head s1), ready_queue_tail := t\<rparr>)"
    "same_core ((threads s1)(t \<mapsto> n\<lparr>t_state := THREAD_STATE_READY\<rparr>)) m'"
    "lists_ok m' (wait_queues s1) (if R = [] then t else ready_queue_head s1) t (zombie_list s1) (w(t := Ready)) (R @ [t]) Z W" by blast
  define h' where "h' = (if R = [] then t else ready_queue_head s1)"
  define s' where "s' = s1\<lparr>threads := m', ready_queue_head := h', ready_queue_tail := t\<rparr>"
  have "lists s' (w(t := Ready)) (R @ [t]) Z W" using e(3) unfolding h'_def [symmetric] by (simp add: s'_def)
  moreover have "cpu_vars (current_threads s') (idle_threads s') (pending_park s') (pending_zombie s') (w(t := Ready))"
  proof -
    have "(w(t := Ready)) x = p \<longleftrightarrow> w x = p" if "\<not> listed p" "p \<noteq> Elsewhere" for x p
      using that wt by auto
    from cpu_vars_cong [OF o(2) this] show ?thesis by (simp add: s'_def s1_def fun_upd_def)
  qed
  moreover have "placed_ok s' (w(t := Ready))"
  proof (rule placed_ok_step [OF o(3)])
    fix x assume "(w(t := Ready)) x \<noteq> Elsewhere"
    have c: "map_option core (m' x) = map_option core (((threads s)(t \<mapsto> n\<lparr>t_state := THREAD_STATE_READY\<rparr>)) x)"
      using e(2) by (simp add: same_core_def s1_def)
    show "(w(t := Ready)) x = w x \<and> map_option core (threads s' x) = map_option core (threads s x) \<or>
       x \<noteq> NULL \<and> (\<exists>n. threads s' x = Some n \<and> resources s n \<and> state_fits (idle_threads s) ((w(t := Ready)) x) x n)"
    proof (cases "x = t")
      case True
      with c obtain k where k: "m' x = Some k" "core k = core (n\<lparr>t_state := THREAD_STATE_READY\<rparr>)" by auto
      have "resources s (n\<lparr>t_state := THREAD_STATE_READY\<rparr>)" using t(3) by (simp add: resources_def)
      then have "resources s k" using resources_core [OF k(2), of s] by simp
      with True k t(1) show ?thesis by (simp add: s'_def state_fits_def)
    qed (use c in \<open>simp add: s'_def\<close>)
  qed (simp_all add: s'_def s1_def same_objects_def)
  ultimately have "sched_ok s' (w(t := Ready)) (R @ [t]) Z W" by (simp add: sched_ok_def)
  moreover have "scheduler_enqueue t s1 = Some s'" using e(1) unfolding h'_def [symmetric] by (simp add: scheduler_enqueue_def s'_def)
  ultimately show ?thesis unfolding s1_def by blast
qed

lemma boot_ok:
  assumes ok: "sched_ok s w R Z W" and t: "t \<noteq> NULL" "threads s t = None" "resources s n" and c: "current_threads s c = NULL"
  shows "\<exists>s'. register_idle_for_this_cpu c t (s\<lparr>threads := (threads s)(t \<mapsto> n)\<rparr>) = Some s' \<and> sched_ok s' (w(t := On c)) R Z W"
proof -
  note o = sched_okD [OF ok]
  note d = cpu_varsD [OF o(2)]
  have wt: "w t = Elsewhere" by (rule fresh_place [OF ok t(2)])
  have ci: "idle_threads s c = NULL" using d(5) c by blast
  have ti: "idle_threads s a \<noteq> t" for a
    using d(5,6) [of a] wt t(1) by (cases "current_threads s a = NULL") auto
  define n' where "n' = n\<lparr>t_state := THREAD_STATE_RUNNING\<rparr>"
  define sv where "sv = s\<lparr>threads := (threads s)(t \<mapsto> n'), current_threads := (current_threads s)(c := t), idle_threads := (idle_threads s)(c := t)\<rparr>"
  obtain s' where s': "register_idle_for_this_cpu c t (s\<lparr>threads := (threads s)(t \<mapsto> n)\<rparr>) = Some s'" "sched_view s' = sched_view sv"
    by (simp add: register_idle_for_this_cpu_def upd_thread_def sched_view_def sv_def n'_def)
  have "lists sv (w(t := On c)) R Z W" using lists_upd [OF o(1), of t "On c" n'] wt by (simp add: sv_def)
  moreover have "cpu_vars (current_threads sv) (idle_threads sv) (pending_park sv) (pending_zombie sv) (w(t := On c))"
  proof (rule cpu_varsI)
    show "(w(t := On c)) x = On a \<longleftrightarrow> x \<noteq> NULL \<and> current_threads sv a = x" for a x
      using d(1) [of x a] d(1) [of t a] wt t(1) c by (cases "x = t"; cases "a = c") (auto simp: sv_def)
    show "(w(t := On c)) x = Parking a \<longleftrightarrow> x \<noteq> NULL \<and> pending_park sv a = x" for a x
      using d(2) [of x a] wt t(1) by (cases "x = t") (auto simp: sv_def)
    show "(w(t := On c)) x = Dying a \<longleftrightarrow> x \<noteq> NULL \<and> pending_zombie sv a = x" for a x
      using d(3) [of x a] wt t(1) by (cases "x = t") (auto simp: sv_def)
    show "(w(t := On c)) x = Idle a \<Longrightarrow> idle_threads sv a = x" for a x
      using d(4) [of x a] ci d(4) [of x c] placedD [OF o(3), of x] by (cases "x = t"; cases "a = c") (auto simp: sv_def)
    show "current_threads sv a = NULL \<longleftrightarrow> idle_threads sv a = NULL" for a
      using d(5) [of a] by (simp add: sv_def)
    show "(w(t := On c)) (idle_threads sv a) = On a \<or> (w(t := On c)) (idle_threads sv a) = Idle a"
      if "current_threads sv a \<noteq> NULL" for a
      using d(6) [of a] ti [of a] that by (cases "a = c") (auto simp: sv_def)
  qed
  moreover have "placed_ok sv (w(t := On c))"
    unfolding placed_ok_def
  proof (intro allI impI)
    fix x assume x: "(w(t := On c)) x \<noteq> Elsewhere"
    show "x \<noteq> NULL \<and> (\<exists>n. threads sv x = Some n \<and> resources sv n \<and> state_fits (idle_threads sv) ((w(t := On c)) x) x n)"
    proof (cases "x = t")
      case True
      with t(1,3) show ?thesis by (simp add: sv_def n'_def state_fits_def resources_def)
    next
      case False
      with x obtain k where k: "x \<noteq> NULL" "threads s x = Some k" "resources s k" "state_fits (idle_threads s) (w x) x k"
        using placedD [OF o(3), of x] by auto
      have "w x \<noteq> On c" using d(1) [of x c] c by auto
      with k False show ?thesis by (auto simp: sv_def resources_def state_fits_def split: place.splits)
    qed
  qed
  ultimately have "sched_ok sv (w(t := On c)) R Z W" by (simp add: sched_ok_def)
  then have "sched_ok s' (w(t := On c)) R Z W" using sched_ok_view [OF s'(2)] by simp
  with s'(1) show ?thesis by blast
qed

section \<open>The scheduler as a transition system\<close>

text \<open>
  The steps of all CPUs: a timer or software interrupt on CPU \<open>c\<close> with any register frame, waking a queue,
  the first and last part of a wait, the end of the current thread (what \<open>thread_exit_status\<close> leaves of it),
  a new thread (at an address where there is none) put on the ready queue, a CPU that starts, a new wait
  queue, and objects that other parts of the kernel make.
\<close>

inductive sched_step :: "'b kernel_image_scheme \<Rightarrow> 'a sched_state_scheme \<Rightarrow> 'a sched_state_scheme \<Rightarrow> bool" for K where
  Interrupt: "regs \<noteq> NULL \<Longrightarrow> scheduler_schedule K c regs (s\<lparr>frames := (frames s)(regs \<mapsto> r)\<rparr>) = Some (r', s') \<Longrightarrow> sched_step K s s'"
| Wake: "scheduler_wake_all q s = Some s' \<Longrightarrow> sched_step K s s'"
| Wait: "scheduler_wait_begin c q seq s = Some (a, s') \<Longrightarrow> sched_step K s s'"
| Resume: "current_threads s c \<noteq> NULL \<Longrightarrow> scheduler_wait_end (current_threads s c) s = Some s' \<Longrightarrow> sched_step K s s'"
| End: "current_threads s c \<noteq> NULL \<Longrightarrow> current_threads s c \<noteq> idle_threads s c \<Longrightarrow>
    upd_thread (current_threads s c) (\<lambda>n. n\<lparr>t_process := NULL, t_state := THREAD_STATE_TERMINATED\<rparr>) s = Some s' \<Longrightarrow> sched_step K s s'"
| Spawn: "t \<noteq> NULL \<Longrightarrow> threads s t = None \<Longrightarrow> resources s n \<Longrightarrow>
    scheduler_enqueue t (s\<lparr>threads := (threads s)(t \<mapsto> n)\<rparr>) = Some s' \<Longrightarrow> sched_step K s s'"
| Boot: "t \<noteq> NULL \<Longrightarrow> threads s t = None \<Longrightarrow> resources s n \<Longrightarrow> current_threads s c = NULL \<Longrightarrow>
    register_idle_for_this_cpu c t (s\<lparr>threads := (threads s)(t \<mapsto> n)\<rparr>) = Some s' \<Longrightarrow> sched_step K s s'"
| Queue: "wait_queues s q = None \<Longrightarrow> sched_step K s (s\<lparr>wait_queues := (wait_queues s)(q \<mapsto> \<lparr>wq_head = NULL, wq_seq = 0\<rparr>)\<rparr>)"
| Objects: "dom (frames s) \<subseteq> dom f \<Longrightarrow> dom (thread_stacks s) \<subseteq> dom k \<Longrightarrow> dom (processes s) \<subseteq> dom p \<Longrightarrow>
    sched_step K s (s\<lparr>frames := f, thread_stacks := k, processes := p\<rparr>)"

text \<open>Before any CPU runs.\<close>

definition blank :: "'a sched_state_scheme \<Rightarrow> bool" where
  "blank s \<longleftrightarrow> threads s = Map.empty \<and> wait_queues s = Map.empty \<and> ready_queue_head s = NULL \<and> ready_queue_tail s = NULL \<and>
     zombie_list s = NULL \<and> current_threads s = (\<lambda>_. NULL) \<and> idle_threads s = (\<lambda>_. NULL) \<and>
     pending_park s = (\<lambda>_. NULL) \<and> pending_zombie s = (\<lambda>_. NULL)"

lemma blank_ok: "blank s \<Longrightarrow> sched_ok s (\<lambda>_. Elsewhere) [] [] (\<lambda>_. [])"
  by (simp add: blank_def sched_ok_def lists_ok_def cpu_vars_def placed_ok_def)

lemma queue_lists:
  assumes l: "lists_ok m Q h zt z w R Z W" and q: "Q q = None"
  shows "lists_ok m (Q(q \<mapsto> \<lparr>wq_head = NULL, wq_seq = k\<rparr>)) h zt z w R Z W"
proof -
  note ld = lists_okD [OF l]
  have no: "w x \<noteq> Waiting q" for x using ld(6) [of q] ld(8) [OF q] by auto
  have "case (Q(q \<mapsto> \<lparr>wq_head = NULL, wq_seq = k\<rparr>)) x of None \<Rightarrow> W x = []
      | Some u \<Rightarrow> linked t_next m (wq_head u) (W x)" for x
    by (cases "x = q"; cases "Q x") (use ld(7,8) [of x] ld(8) [OF q] in simp_all)
  moreover have "thread_listed (Q(q \<mapsto> \<lparr>wq_head = NULL, wq_seq = k\<rparr>)) (w x) n" if "m x = Some n" for x n
    using ld(9) [OF that] no [of x] by (auto simp: thread_listed_def split: place.splits)
  ultimately show ?thesis unfolding lists_ok_def using ld(1-6) by auto
qed

lemma sched_step_ok:
  assumes "sched_step K s s'" "sched_ok s w R Z W"
  shows "\<exists>w' R' Z' W'. sched_ok s' w' R' Z' W'"
  using assms
proof (cases rule: sched_step.cases)
  case (Interrupt regs c r r')
  have "sched_ok (s\<lparr>frames := (frames s)(regs \<mapsto> r)\<rparr>) w R Z W" by (rule frames_ok [OF assms(2)]) auto
  from schedule_keeps [OF this Interrupt(1), of r K c] Interrupt(2) show ?thesis by auto
next
  case (Wake q)
  then obtain v where "wait_queues s q = Some v" by (cases "wait_queues s q") (auto simp: scheduler_wake_all_def)
  from wake_all_ok [OF assms(2) this] Wake show ?thesis by auto
next
  case (Wait c q seq a)
  then obtain v where v: "wait_queues s q = Some v" by (cases "wait_queues s q") (auto simp: scheduler_wait_begin_def)
  show ?thesis
  proof (cases "wq_seq v \<noteq> seq \<or> current_threads s c = NULL \<or> current_threads s c = idle_threads s c")
    case True
    with Wait v have "s' = s" by (auto simp: scheduler_wait_begin_def Let_def split: if_splits)
    with assms(2) show ?thesis by blast
  next
    case False
    from current_thread [OF assms(2), of c] False obtain n where n: "threads s (current_threads s c) = Some n"
      "w (current_threads s c) = On c" "resources s n" by metis
    define n' where "n' = n\<lparr>t_waiting_on := q, t_wait_seq := seq, t_state := THREAD_STATE_BLOCKED\<rparr>"
    have "s' = s\<lparr>threads := (threads s)(current_threads s c \<mapsto> n')\<rparr>"
      using Wait v False n(1) by (auto simp: scheduler_wait_begin_def Let_def upd_thread_def n'_def)
    moreover have "resources s n'" using n(3) v by (simp add: n'_def resources_def)
    moreover have "state_fits (idle_threads s) (On c) (current_threads s c) n'" using False by (auto simp: n'_def state_fits_def)
    ultimately show ?thesis using upd_current_ok [OF assms(2) n(2)] False by blast
  qed
next
  case (Resume c)
  from current_thread [OF assms(2) Resume(1)] obtain n where n: "threads s (current_threads s c) = Some n"
    "w (current_threads s c) = On c" "resources s n" by metis
  show ?thesis
  proof (cases "t_state n = THREAD_STATE_BLOCKED")
    case True
    define n' where "n' = n\<lparr>t_waiting_on := NULL, t_state := THREAD_STATE_RUNNING\<rparr>"
    have "s' = s\<lparr>threads := (threads s)(current_threads s c \<mapsto> n')\<rparr>"
      using Resume(2) True n(1) by (simp add: scheduler_wait_end_def upd_thread_def n'_def)
    moreover have "resources s n'" using n(3) by (simp add: n'_def resources_def)
    moreover have "state_fits (idle_threads s) (On c) (current_threads s c) n'" by (simp add: n'_def state_fits_def)
    ultimately show ?thesis using upd_current_ok [OF assms(2) n(2) Resume(1)] by blast
  next
    case False
    with Resume(2) n(1) have "s' = s" by (simp add: scheduler_wait_end_def)
    with assms(2) show ?thesis by blast
  qed
next
  case (End c)
  from current_thread [OF assms(2) End(1)] obtain n where n: "threads s (current_threads s c) = Some n"
    "w (current_threads s c) = On c" "resources s n" by metis
  define n' where "n' = n\<lparr>t_process := NULL, t_state := THREAD_STATE_TERMINATED\<rparr>"
  have "s' = s\<lparr>threads := (threads s)(current_threads s c \<mapsto> n')\<rparr>"
    using End(3) n(1) by (simp add: upd_thread_def n'_def)
  moreover have "resources s n'" using n(3) by (simp add: n'_def resources_def)
  moreover have "state_fits (idle_threads s) (On c) (current_threads s c) n'" using End(2) by (auto simp: n'_def state_fits_def)
  ultimately show ?thesis using upd_current_ok [OF assms(2) n(2) End(1)] by blast
next
  case (Spawn t n)
  from spawn_ok [OF assms(2) Spawn(1-3)] Spawn(4) show ?thesis by auto
next
  case (Boot t n c)
  from boot_ok [OF assms(2) Boot(1-4)] Boot(5) show ?thesis by auto
next
  case (Queue q)
  note o = sched_okD [OF assms(2)]
  have l: "lists s' w R Z W"
    using queue_lists [OF o(1) Queue(2), of 0] by (simp add: Queue(1))
  have "placed_ok s' w"
    by (rule placed_ok_step [OF o(3)]) (auto simp: Queue same_objects_def)
  then have "sched_ok s' w R Z W" using l o(2) by (simp add: sched_ok_def Queue(1))
  then show ?thesis by blast
next
  case (Objects f k p)
  note o = sched_okD [OF assms(2)]
  have "placed_ok s' w"
    by (rule placed_ok_step [OF o(3)]) (use Objects in \<open>simp_all add: same_objects_def\<close>)
  then have "sched_ok s' w R Z W" using o(1,2) by (simp add: sched_ok_def Objects(1))
  then show ?thesis by blast
qed

lemma sched_reachable_ok:
  assumes "(sched_step K)\<^sup>*\<^sup>* s0 s" "blank s0"
  shows "\<exists>w R Z W. sched_ok s w R Z W"
  using assms
proof (induction rule: rtranclp_induct)
  case base
  then show ?case using blank_ok by blast
next
  case (step s s')
  then show ?case using sched_step_ok by blast
qed

section \<open>What follows for the lists of the code\<close>



section \<open>Round robin\<close>

text \<open>An interrupt of CPU \<open>c\<close> that finds \<open>r\<close> in the registers and pushes them at \<open>regs\<close>.\<close>

definition interrupt ::
  "'b kernel_image_scheme \<Rightarrow> u8 \<Rightarrow> u64 \<times> registers \<Rightarrow> 'a sched_state_scheme \<Rightarrow> 'a sched_state_scheme option" where
  "interrupt K c e s = (case e of (regs, r) \<Rightarrow> map_option snd (scheduler_schedule K c regs (s\<lparr>frames := (frames s)(regs \<mapsto> r)\<rparr>)))"

definition from_user :: "u64 \<times> registers \<Rightarrow> bool" where
  "from_user e \<longleftrightarrow> fst e \<noteq> NULL \<and> rg_cs (snd e) AND 3 \<noteq> 0"

lemma round_robin_ok:
  assumes "sched_ok s w R Z W" "\<not> context_switch_lock s" "current_threads s c \<noteq> NULL"
    "length es = Suc n" "n < length R" "list_all from_user es"
  shows "\<exists>s'. for_each (interrupt K c) es s = Some s' \<and> current_threads s' c = R ! n"
  using assms
proof (induction es arbitrary: s w R Z W n)
  case (Cons e es)
  obtain regs r where e: "e = (regs, r)" by (cases e)
  define s1 where "s1 = s\<lparr>frames := (frames s)(regs \<mapsto> r)\<rparr>"
  have ok1: "sched_ok s1 w R Z W" unfolding s1_def by (rule frames_ok [OF Cons.prems(1)]) auto
  have c1: "current_threads s1 c \<noteq> NULL" "\<not> context_switch_lock s1" using Cons.prems by (simp_all add: s1_def)
  from current_thread [OF ok1 c1(1)] obtain k where k: "threads s1 (current_threads s1 c) = Some k" by metis
  have reg: "regs \<noteq> NULL" "frames s1 regs = Some r" "\<not> stays r k"
    using Cons.prems(6) by (simp_all add: e from_user_def s1_def stays_def)
  from schedule_ok [OF ok1 c1(2) refl c1(1) k reg, of K] obtain r' s' w' X Z' W' where sc:
    "scheduler_schedule K c regs s1 = Some (r', s')" "sched_ok s' w' (List.tl (R @ X)) Z' W'"
    "current_threads s' = (current_threads s1)(c := if R @ X = [] then idle_threads s1 c else hd (R @ X))"
    "context_switch_lock s' = context_switch_lock s1" by blast
  have st: "interrupt K c e s = Some s'" using sc(1) by (simp add: interrupt_def e s1_def)
  obtain t R1 where R: "R = t # R1" using Cons.prems(5) by (cases R) auto
  have cur: "current_threads s' c = t" using sc(3) R by simp
  show ?case
  proof (cases es)
    case Nil
    with Cons.prems(4) st cur R show ?thesis by simp
  next
    case (Cons e' es')
    then obtain n' where n': "n = Suc n'" "length es = Suc n'" using Cons.prems(4) by auto
    have "t \<noteq> NULL" using lists_okD(1) [OF sched_okD(1) [OF ok1]] R by auto
    then have "\<exists>s''. for_each (interrupt K c) es s' = Some s'' \<and> current_threads s'' c = (R1 @ X) ! n'"
      using Cons.IH [OF sc(2), of n'] sc(4) c1(2) cur n' R Cons.prems(5,6) by simp
    moreover have "(R1 @ X) ! n' = R ! n" using n'(1) R Cons.prems(5) by (simp add: nth_append)
    ultimately show ?thesis using st by simp
  qed
qed simp


section \<open>An example: one CPU, two threads and a wait queue\<close>

definition example_image :: kernel_image where
  "example_image = \<lparr>boot_with = LIMINE, hhdm_response = Some 0, exec_addr_response = None, image_end = 0xFFFFFFFF80200000,
     arch = x86_64, sym_gdt_per_cpu = (\<lambda>_. 0), sym_tss_per_cpu = (\<lambda>_. 0), sym_cpu_local_data = (\<lambda>_. 0),
     sym_tss_kernel_stack_end = (\<lambda>_. 0), sym_idt_entries = 0, isr_stub_table = (\<lambda>_. 0), irq_stub_table = (\<lambda>_. 0),
     sym_isr0x40 = 0, sym_isr0x41 = 0, sym_syscall_entry = 0\<rparr>"

definition example_thread :: "u64 \<Rightarrow> thread" where
  "example_thread regs = \<lparr>t_id = 0, t_name = [], t_state = THREAD_STATE_UNINITIALISED, t_process = NULL, t_fs_base = 0,
     t_main = NULL, t_kernel = NULL, t_ring = 0, t_regs = regs, t_waiting_on = NULL, t_wait_seq = 0, t_next = NULL\<rparr>"

definition example_blank :: sched_state where
  "example_blank = \<lparr>hp_head = NULL, hp_blocks = Map.empty, pmm_initialized = True, kmem = (\<lambda>_. 0), page_table_l4 = NULL,
     tlb_log = [], kernel_memory_map = [], kbytes = (\<lambda>_. 0), ramfs_nodes = Map.empty, tarfs_nodes = Map.empty,
     tarfs_image = NULL, tarfs_image_size = 0, devtmpfs_nodes = Map.empty, fs_mounts = Map.empty, g_drivers = [], g_mounts = [],
     gdt_per_cpu = (\<lambda>_ _. 0), gdt_ptr_per_cpu = (\<lambda>_. \<lparr>gp_limit = 0, gp_base = 0\<rparr>), gdtr = (\<lambda>_. 0), task_register = (\<lambda>_. 0),
     tss_per_cpu = (\<lambda>_. \<lparr>rsp0 = 0, iomap_base = 0\<rparr>), cpu_local_data = (\<lambda>_. \<lparr>cl_kernel_stack = 0, cl_user_stack = 0\<rparr>),
     idt_entries = (\<lambda>_. \<lparr>offset_low = 0, selector = 0, ist = 0, type_attr = 0, offset_mid = 0, offset_high = 0, reserved = 0\<rparr>),
     idt_built = False, idtr = (\<lambda>_. (0, 0)), msr = (\<lambda>_ _. 0), cr0 = (\<lambda>_. 0), cr3 = (\<lambda>_. 0), cr4 = (\<lambda>_. 0),
     interrupts_on = (\<lambda>_. False), port_log = [],
     threads = Map.empty, thread_stacks = Map.empty, frames = [0x1000 \<mapsto> zero_registers, 0x2000 \<mapsto> zero_registers],
     wait_queues = Map.empty, processes = Map.empty, current_threads = (\<lambda>_. NULL), idle_threads = (\<lambda>_. NULL),
     boot_cr3 = (\<lambda>_. 0), active_cr3 = (\<lambda>_. 0), ready_queue_head = NULL, ready_queue_tail = NULL, zombie_list = NULL,
     pending_zombie = (\<lambda>_. NULL), pending_park = (\<lambda>_. NULL), next_thread_id = 0, context_switch_lock = False\<rparr>"

text \<open>The idle thread 0x100 is registered, the wait queue 0x300 is made and the thread 0x200 becomes ready.\<close>

definition example_two :: sched_state where
  "example_two = example_blank\<lparr>
     threads := [0x100 \<mapsto> (example_thread 0x1000)\<lparr>t_state := THREAD_STATE_RUNNING\<rparr>,
                 0x200 \<mapsto> (example_thread 0x2000)\<lparr>t_state := THREAD_STATE_READY\<rparr>],
     wait_queues := [0x300 \<mapsto> \<lparr>wq_head = NULL, wq_seq = 0\<rparr>],
     current_threads := (\<lambda>_. NULL)(0 := 0x100), idle_threads := (\<lambda>_. NULL)(0 := 0x100),
     ready_queue_head := 0x200, ready_queue_tail := 0x200\<rparr>"

lemma example_blank: "blank example_blank"
  by (simp add: blank_def example_blank_def)

lemma example_two_reachable: "(sched_step example_image)\<^sup>*\<^sup>* example_blank example_two"
proof -
  define s1 where "s1 = example_blank\<lparr>threads := [0x100 \<mapsto> (example_thread 0x1000)\<lparr>t_state := THREAD_STATE_RUNNING\<rparr>],
     current_threads := (\<lambda>_. NULL)(0 := 0x100), idle_threads := (\<lambda>_. NULL)(0 := 0x100)\<rparr>"
  have r1: "sched_step example_image example_blank s1"
    by (rule sched_step.Boot [where t = "0x100" and n = "example_thread 0x1000" and c = 0])
      (simp_all add: example_blank_def resources_def example_thread_def register_idle_for_this_cpu_def upd_thread_def s1_def fun_upd_idem_iff)
  define s2 where "s2 = s1\<lparr>wait_queues := (wait_queues s1)(0x300 \<mapsto> \<lparr>wq_head = NULL, wq_seq = 0\<rparr>)\<rparr>"
  have r2: "sched_step example_image s1 s2"
    unfolding s2_def by (rule sched_step.Queue) (simp add: s1_def example_blank_def)
  have r3: "sched_step example_image s2 example_two"
    by (rule sched_step.Spawn [where t = "0x200" and n = "example_thread 0x2000"])
      (simp_all add: s2_def s1_def example_blank_def resources_def example_thread_def scheduler_enqueue_def enqueue_locked_def
        upd_thread_def example_two_def fun_upd_idem_iff)
  from r1 r2 r3 show ?thesis by (meson converse_rtranclp_into_rtranclp rtranclp.rtrancl_refl)
qed



lemmas schedule_defs = interrupt_def scheduler_schedule_def save_frame_def park_pending_def bury_pending_def pick_next_def
  switch_threads_def switch_address_space_def kernel_stack_top_def arch_set_kernel_stack_def enqueue_locked_def
  dequeue_locked_def upd_thread_def upd_frame_def


definition example_user :: registers where
  "example_user = zero_registers\<lparr>rg_cs := 0x2B\<rparr>"

text \<open>The thread 0x200 runs, waits on the queue 0x300 and is parked when its CPU has left its stack.\<close>

definition example_sleep :: "sched_state option" where
  "example_sleep = do {
     s \<leftarrow> interrupt example_image 0 (0x3000, example_user) example_two;
     (a, s) \<leftarrow> scheduler_wait_begin 0 0x300 0 s;
     s \<leftarrow> interrupt example_image 0 (0x3000, example_user) s;
     interrupt example_image 0 (0x3000, example_user) s }"

lemma example_sleep_state:
  "\<exists>s. example_sleep = Some s \<and> wait_queues s 0x300 = Some \<lparr>wq_head = 0x200, wq_seq = 0\<rparr> \<and>
     (\<exists>n. threads s 0x200 = Some n \<and> t_next n = NULL) \<and> ready_queue_head s = NULL"
  by (simp add: example_sleep_def schedule_defs scheduler_wait_begin_def Let_def example_two_def example_blank_def
    example_thread_def example_user_def zero_registers_def)

lemma interrupt_step:
  "interrupt K c e s = Some s' \<Longrightarrow> fst e \<noteq> NULL \<Longrightarrow> sched_step K s s'"
  by (cases e) (auto simp: interrupt_def intro: sched_step.Interrupt)

lemma example_sleep_reachable:
  assumes "example_sleep = Some s"
  shows "(sched_step example_image)\<^sup>*\<^sup>* example_blank s"
proof -
  from assms obtain s1 a s2 s3 where e: "interrupt example_image 0 (0x3000, example_user) example_two = Some s1"
    "scheduler_wait_begin 0 0x300 0 s1 = Some (a, s2)" "interrupt example_image 0 (0x3000, example_user) s2 = Some s3"
    "interrupt example_image 0 (0x3000, example_user) s3 = Some s"
    unfolding example_sleep_def by (auto simp: Option.bind_eq_Some_conv)
  note e' = e(1,3,4) [THEN interrupt_step]
  have "sched_step example_image example_two s1" "sched_step example_image s1 s2" "sched_step example_image s2 s3"
    "sched_step example_image s3 s" using e' sched_step.Wait [OF e(2)] by simp_all
  with example_two_reachable show ?thesis by (meson rtranclp.rtrancl_into_rtrancl)
qed


end
