(* ===== verification/Proc.thy ===== *)
theory Proc
  imports Sched
begin

text \<open>
  Processes, \<^verbatim>\<open>src/exec/process.c\<close>, and the end of a thread, which ends its process
  (\<^verbatim>\<open>thread_exit_status\<close> of \<^verbatim>\<open>scheduler.c\<close>). The processes form a list from
  \<open>process_list_head\<close>; a process that has ended stays in it as a zombie until its parent
  collects the exit status.

  The body under \<open>process_lock\<close> is one step. A pointer to a link, \<open>process_t** pp\<close>, is \<open>None\<close>
  for the head and \<open>Some p\<close> for the link inside the process \<open>p\<close>.
\<close>

section \<open>Data\<close>

record proc_state = sched_state +
  process_list_head :: u64
  next_pid :: u32

text \<open>\<^verbatim>\<open>include/exec/loaders/elf.h\<close>: a program ready to run.\<close>

record elf_prepared =
  ep_l4 :: u64
  ep_entry :: u64
  ep_sp :: u64
  ep_brk_start :: u64
  ep_stack :: u64
  ep_pages :: vm_page_list

record process_clone_opts =
  co_child_stack :: u64
  co_set_tls :: bool
  co_tls :: u64
  co_child_tid_addr :: u64

abbreviation SIZEOF_PROCESS :: u64 where "SIZEOF_PROCESS \<equiv> 928"
abbreviation (input) MAX_FILES_PER_PROCESS :: nat where "MAX_FILES_PER_PROCESS \<equiv> 32"

definition USER_STACK_TOP :: u64 where "USER_STACK_TOP = push_bit 47 1 - 0x1000"
definition USER_STACK_SIZE :: u64 where "USER_STACK_SIZE = 8 * 1024 * 1024"

definition zero_fd :: file_desc where
  "zero_fd = \<lparr>fd_vnode = NULL, fd_offset = 0, fd_flags = 0, fd_used = False\<rparr>"

definition empty_page_list :: vm_page_list where
  "empty_page_list = \<lparr>pl_pages = NULL, pl_count = 0, pl_cap = 0\<rparr>"

definition zero_process :: process where
  "zero_process = \<lparr>p_pid = 0, p_ppid = 0, p_name = [], p_page_table = NULL, p_brk_start = 0, p_brk_current = 0,
     p_mmap_start = 0, p_mmap_current = 0, p_main_thread = NULL, p_next = NULL,
     p_fds = replicate MAX_FILES_PER_PROCESS zero_fd, p_syscall_conv = 0, p_owned_pages = empty_page_list,
     p_zombie = False, p_exit_status = 0, p_main_tid = 0\<rparr>"

definition upd_process :: "u64 \<Rightarrow> (process \<Rightarrow> process) \<Rightarrow> 'a sched_state_scheme \<Rightarrow> 'a sched_state_scheme option" where
  "upd_process p f s = (case processes s p of None \<Rightarrow> None | Some n \<Rightarrow> Some (s\<lparr>processes := (processes s)(p \<mapsto> f n)\<rparr>))"

text \<open>The memory of a process that was freed.\<close>

definition drop_process :: "u64 \<Rightarrow> 'a sched_state_scheme \<Rightarrow> 'a sched_state_scheme option" where
  "drop_process p s = do {
     s \<leftarrow> free p s;
     Some (s\<lparr>processes := (processes s)(p := None), wait_queues := (wait_queues s)(child_wq p := None)\<rparr>) }"

definition get_link :: "u64 option \<Rightarrow> 'a proc_state_scheme \<Rightarrow> u64 option" where
  "get_link pp s = (case pp of None \<Rightarrow> Some (process_list_head s) | Some p \<Rightarrow> map_option p_next (processes s p))"

definition set_link :: "u64 option \<Rightarrow> u64 \<Rightarrow> 'a proc_state_scheme \<Rightarrow> 'a proc_state_scheme option" where
  "set_link pp v s = (case pp of None \<Rightarrow> Some (s\<lparr>process_list_head := v\<rparr>) | Some p \<Rightarrow> upd_process p (\<lambda>n. n\<lparr>p_next := v\<rparr>) s)"

definition process_init :: "'a proc_state_scheme \<Rightarrow> 'a proc_state_scheme" where
  "process_init s = s\<lparr>process_list_head := NULL\<rparr>"

definition process_register :: "u64 \<Rightarrow> 'a proc_state_scheme \<Rightarrow> 'a proc_state_scheme option" where
  "process_register proc s = do {
     s \<leftarrow> upd_process proc (\<lambda>n. n\<lparr>p_next := process_list_head s\<rparr>) s;
     Some (s\<lparr>process_list_head := proc\<rparr>) }"

section \<open>Creation\<close>

text \<open>\<open>strcpy\<close> into the 32 bytes of the name has no bound: a longer name is an overflow.\<close>

definition process_create ::
  "'b kernel_build_scheme \<Rightarrow> u8 list \<Rightarrow> u64 \<Rightarrow> u64 \<Rightarrow> int \<Rightarrow> u64 \<Rightarrow> 'a proc_state_scheme \<Rightarrow> (u64 \<times> 'a proc_state_scheme) option" where
  "process_create K name entry_point arg ring stack s = do {
     (proc, s) \<leftarrow> malloc SIZEOF_PROCESS s;
     if proc = NULL then Some (NULL, s)
     else do {
       (pt, s) \<leftarrow> clone_page_table s;
       if pt = NULL then do { s \<leftarrow> free proc s; Some (NULL, s) }
       else if 32 \<le> length name then None
       else do {
         let s = s\<lparr>processes := (processes s)(proc \<mapsto> zero_process\<lparr>p_pid := next_pid s, p_name := name, p_page_table := pt\<rparr>),
                   wait_queues := (wait_queues s)(child_wq proc \<mapsto> \<lparr>wq_head = NULL, wq_seq = 0\<rparr>),
                   next_pid := next_pid s + 1\<rparr>;
         (main_thread, s) \<leftarrow> thread_create K name entry_point arg ring stack s;
         if main_thread = NULL then do {
           s \<leftarrow> free_page_table K pt s;
           s \<leftarrow> drop_process proc s;
           Some (NULL, s) }
         else do {
           s \<leftarrow> upd_thread main_thread (\<lambda>t. t\<lparr>t_process := proc\<rparr>) s;
           s \<leftarrow> upd_process proc (\<lambda>p. p\<lparr>p_main_thread := main_thread, p_brk_start := 0, p_brk_current := 0,
                 p_mmap_start := 0x400000000000, p_mmap_current := 0x400000000000,
                 p_fds := replicate 3 (zero_fd\<lparr>fd_used := True\<rparr>) @ replicate (MAX_FILES_PER_PROCESS - 3) zero_fd\<rparr>) s;
           s \<leftarrow> process_register proc s;
           Some (proc, s) } } } }"

definition process_get_current :: "u8 \<Rightarrow> 'a proc_state_scheme \<Rightarrow> u64 option" where
  "process_get_current cpu s =
     (let t = scheduler_get_current_thread cpu s in
      if t = NULL then Some NULL else map_option t_process (threads s t))"

section \<open>Termination\<close>

text \<open>The loop that frees the zombies nobody will wait for.\<close>

partial_function (option) prune_loop :: "u64 \<Rightarrow> u64 option \<Rightarrow> 'a proc_state_scheme \<Rightarrow> 'a proc_state_scheme option" where
  "prune_loop proc pp s = do {
     p \<leftarrow> get_link pp s;
     if p = NULL then Some s
     else do {
       n \<leftarrow> processes s p;
       if p \<noteq> proc \<and> p_zombie n \<and> p_ppid n = 0 then do {
         s \<leftarrow> set_link pp (p_next n) s;
         s \<leftarrow> drop_process p s;
         prune_loop proc pp s }
       else prune_loop proc (Some p) s } }"

text \<open>\<^verbatim>\<open>while (*pp && *pp != proc) pp = &(*pp)->next; if (*pp) *pp = proc->next;\<close>\<close>

partial_function (option) unlink_loop :: "u64 \<Rightarrow> u64 option \<Rightarrow> 'a proc_state_scheme \<Rightarrow> 'a proc_state_scheme option" where
  "unlink_loop proc pp s = do {
     p \<leftarrow> get_link pp s;
     if p = NULL then Some s
     else do {
       n \<leftarrow> processes s p;
       if p = proc then set_link pp (p_next n) s
       else unlink_loop proc (Some p) s } }"

definition is_init :: "(u64 \<rightharpoonup> process) \<Rightarrow> u64 \<Rightarrow> u64 \<Rightarrow> bool" where
  "is_init m proc p \<longleftrightarrow> (case m p of Some n \<Rightarrow> p_pid n = 1 \<and> \<not> p_zombie n \<and> p \<noteq> proc | None \<Rightarrow> False)"

text \<open>The children of a process that ends go to init, or to nobody.\<close>

definition reparent :: "u64 \<Rightarrow> u32 \<Rightarrow> u64 \<Rightarrow> u64 \<Rightarrow> (u64 \<rightharpoonup> process) \<Rightarrow> (u64 \<rightharpoonup> process)" where
  "reparent proc pid init p m =
     (case m p of
        None \<Rightarrow> m
      | Some n \<Rightarrow> if p = proc \<or> p_ppid n \<noteq> pid then m else m(p \<mapsto> n\<lparr>p_ppid := if init \<noteq> NULL then 1 else 0\<rparr>))"

definition release_resources :: "'b kernel_build_scheme \<Rightarrow> u8 \<Rightarrow> u64 \<Rightarrow> 'a proc_state_scheme \<Rightarrow> 'a proc_state_scheme option" where
  "release_resources K cpu proc s = do {
     s \<leftarrow> upd_process proc (\<lambda>n. n\<lparr>p_fds := map (\<lambda>f. f\<lparr>fd_used := False, fd_vnode := NULL\<rparr>) (p_fds n)\<rparr>) s;
     n \<leftarrow> processes s proc;
     s \<leftarrow> (if p_main_thread n \<noteq> NULL
           then upd_thread (p_main_thread n) (\<lambda>t. t\<lparr>t_state := THREAD_STATE_TERMINATED, t_process := NULL\<rparr>) s else Some s);
     s \<leftarrow> (if p_page_table n \<noteq> NULL then do {
             let s = (if page_table_l4 s \<noteq> NULL then write_cr3 cpu (kernel_page_table_phys K s) s else s);
             s \<leftarrow> free_page_table K (p_page_table n) s;
             upd_process proc (\<lambda>n. n\<lparr>p_page_table := NULL\<rparr>) s }
           else Some s);
     (l, s) \<leftarrow> vm_page_list_free (p_owned_pages n) s;
     upd_process proc (\<lambda>n. n\<lparr>p_owned_pages := l, p_main_thread := NULL\<rparr>) s }"

definition leave_process_list :: "u64 \<Rightarrow> 'a proc_state_scheme \<Rightarrow> 'a proc_state_scheme option" where
  "leave_process_list proc s = do {
     ps \<leftarrow> list_nodes p_next (processes s) (process_list_head s);
     n \<leftarrow> processes s proc;
     let init = fold (\<lambda>p i. if is_init (processes s) proc p then p else i) ps NULL;
     let moved = filter (\<lambda>p. p \<noteq> proc \<and> map_option p_ppid (processes s p) = Some (p_pid n)) ps;
     let init_has_new_zombie = (init \<noteq> NULL \<and> (\<exists>p \<in> set moved. map_option p_zombie (processes s p) = Some True));
     let s = s\<lparr>processes := fold (reparent proc (p_pid n) init) ps (processes s)\<rparr>;
     s \<leftarrow> prune_loop proc None s;
     s \<leftarrow> (if init \<noteq> NULL \<and> init_has_new_zombie then scheduler_wake_all (child_wq init) s else Some s);
     n \<leftarrow> processes s proc;
     parent \<leftarrow> (if p_ppid n \<noteq> 0
        then list_find p_next (\<lambda>p m. p_pid m = p_ppid n \<and> \<not> p_zombie m) (processes s) (process_list_head s)
        else Some NULL);
     if parent \<noteq> NULL then do {
       s \<leftarrow> upd_process proc (\<lambda>n. n\<lparr>p_zombie := True\<rparr>) s;
       scheduler_wake_all (child_wq parent) s }
     else do {
       s \<leftarrow> unlink_loop proc None s;
       drop_process proc s } }"

definition process_terminate :: "'b kernel_build_scheme \<Rightarrow> u8 \<Rightarrow> u64 \<Rightarrow> 'a proc_state_scheme \<Rightarrow> 'a proc_state_scheme option" where
  "process_terminate K cpu proc s =
     (if proc = NULL then Some s
      else do {
        s \<leftarrow> release_resources K cpu proc s;
        leave_process_list proc s })"

text \<open>
  \<open>thread_exit_status\<close> answers whether it came back to its caller, panicked, or the thread is done and
  the next switch takes the CPU away from it.
\<close>

datatype exit_answer = Exit_Returns | Exit_Panic | Exit_Switch

definition thread_exit_status ::
  "'b kernel_build_scheme \<Rightarrow> u8 \<Rightarrow> u32 \<Rightarrow> 'a proc_state_scheme \<Rightarrow> (exit_answer \<times> 'a proc_state_scheme) option" where
  "thread_exit_status K cpu status s =
     (let cur = current_threads s cpu in
      if cur = NULL \<or> cur = idle_threads s cpu then Some (Exit_Returns, s)
      else do {
        c \<leftarrow> threads s cur;
        let proc = t_process c;
        pid \<leftarrow> (if proc = NULL then Some 0 else map_option p_pid (processes s proc));
        if proc \<noteq> NULL \<and> pid = 1 then Some (Exit_Panic, s)
        else do {
          s \<leftarrow> (if proc = NULL then Some s
                else do {
                  let s = (if boot_cr3 s cpu \<noteq> 0
                           then (write_cr3 cpu (boot_cr3 s cpu) s)\<lparr>active_cr3 := (active_cr3 s)(cpu := boot_cr3 s cpu)\<rparr> else s);
                  s \<leftarrow> upd_process proc (\<lambda>n. n\<lparr>p_exit_status := status\<rparr>) s;
                  s \<leftarrow> process_terminate K cpu proc s;
                  upd_thread cur (\<lambda>n. n\<lparr>t_process := NULL\<rparr>) s });
          s \<leftarrow> upd_thread cur (\<lambda>n. n\<lparr>t_state := THREAD_STATE_TERMINATED\<rparr>) s;
          Some (Exit_Switch, s) } })"

definition thread_exit :: "'b kernel_build_scheme \<Rightarrow> u8 \<Rightarrow> 'a proc_state_scheme \<Rightarrow> (exit_answer \<times> 'a proc_state_scheme) option" where
  "thread_exit K cpu s = thread_exit_status K cpu 0 s"

section \<open>Waiting for a child\<close>

definition is_child :: "u32 \<Rightarrow> int \<Rightarrow> process \<Rightarrow> bool" where
  "is_child ppid pid n \<longleftrightarrow> p_ppid n = ppid \<and> (0 < pid \<longrightarrow> sint (p_pid n) = pid)"

text \<open>Answers the pid of the zombie it collected and its status, 0 for a child that still runs, -1 for none.\<close>

definition process_wait_child :: "u64 \<Rightarrow> int \<Rightarrow> 'a proc_state_scheme \<Rightarrow> (int \<times> u32 option \<times> 'a proc_state_scheme) option" where
  "process_wait_child parent pid s =
     (if parent = NULL then Some (- 1, None, s)
      else do {
        n \<leftarrow> processes s parent;
        child \<leftarrow> list_find p_next (\<lambda>p m. is_child (p_pid n) pid m) (processes s) (process_list_head s);
        found \<leftarrow> list_find p_next (\<lambda>p m. is_child (p_pid n) pid m \<and> p_zombie m) (processes s) (process_list_head s);
        if found = NULL then Some (if child \<noteq> NULL then 0 else - 1, None, s)
        else do {
          f \<leftarrow> processes s found;
          s \<leftarrow> unlink_loop found None s;
          s \<leftarrow> drop_process found s;
          Some (sint (p_pid f), Some (p_exit_status f), s) } })"

section \<open>Cloning\<close>

definition thread_stack_release :: "u64 \<Rightarrow> 'a sched_state_scheme \<Rightarrow> 'a sched_state_scheme option" where
  "thread_stack_release st s =
     (if st = NULL then Some s
      else do {
        k \<leftarrow> thread_stacks s st;
        s \<leftarrow> (if ts_base k \<noteq> NULL then free (ts_base k) s else Some s);
        s \<leftarrow> free st s;
        Some (s\<lparr>thread_stacks := (thread_stacks s)(st := None)\<rparr>) })"

definition store32 :: "u64 \<Rightarrow> u32 \<Rightarrow> bytes_mem \<Rightarrow> bytes_mem" where
  "store32 a v m = (\<lambda>x. if x - a < 4 then ucast (drop_bit (8 * unat (x - a)) v) else m x)"

definition clone_fail :: "'b kernel_build_scheme \<Rightarrow> u64 \<Rightarrow> 'a sched_state_scheme \<Rightarrow> (u64 \<times> 'a sched_state_scheme) option" where
  "clone_fail K child s = do {
     n \<leftarrow> processes s child;
     s \<leftarrow> free_page_table K (p_page_table n) s;
     (l, s) \<leftarrow> vm_page_list_free (p_owned_pages n) s;
     s \<leftarrow> drop_process child s;
     Some (NULL, s) }"

text \<open>The user's stack is copied from 128 bytes below its pointer, all of it when the pointer is elsewhere.\<close>

definition stack_copy_from :: "u64 \<Rightarrow> u64" where
  "stack_copy_from user_sp =
     (let stack_lo = USER_STACK_TOP - USER_STACK_SIZE;
          copy_from = (if 128 \<le> user_sp then user_sp - 128 else 0);
          copy_from = (if copy_from < stack_lo \<or> USER_STACK_TOP < copy_from then stack_lo else copy_from)
      in if user_sp < stack_lo \<or> USER_STACK_TOP < user_sp then stack_lo else copy_from)"

definition map_stack ::
  "'b kernel_build_scheme \<Rightarrow> u64 \<Rightarrow> u64 \<Rightarrow> u64 \<Rightarrow> u64 \<Rightarrow> 'a sched_state_scheme \<Rightarrow> (int \<times> 'a sched_state_scheme) option" where
  "map_stack K l4 virt block n s =
     try_each (\<lambda>i s. map_page_4k K l4 (virt + 0x1000 * of_nat i) (hhdm_virt_to_phys K (block + 0x1000 * of_nat i)) (VMF_USER OR VMF_WRITE) s)
       [0..<unat n div 4096] s"

definition clone_options ::
  "'b kernel_build_scheme \<Rightarrow> u64 \<Rightarrow> u64 \<Rightarrow> process_clone_opts option \<Rightarrow> 'a sched_state_scheme \<Rightarrow> 'a sched_state_scheme option" where
  "clone_options K child t opts s =
     (case opts of
        None \<Rightarrow> Some s
      | Some o1 \<Rightarrow> do {
          n \<leftarrow> threads s t;
          s \<leftarrow> (if co_child_stack o1 \<noteq> 0 then upd_frame (t_regs n) (\<lambda>r. r\<lparr>rg_rsp := co_child_stack o1\<rparr>) s else Some s);
          s \<leftarrow> (if co_set_tls o1 then upd_thread t (\<lambda>n. n\<lparr>t_fs_base := co_tls o1\<rparr>) s else Some s);
          if co_child_tid_addr o1 = 0 then Some s
          else do {
            c \<leftarrow> processes s child;
            let sl = vm_user_to_kernel K (p_page_table c) (co_child_tid_addr o1) s;
            Some (if sl = NULL then s else s\<lparr>kbytes := store32 sl (t_id n) (kbytes s)\<rparr>) } })"

definition process_clone ::
  "'b kernel_build_scheme \<Rightarrow> u8 \<Rightarrow> u64 \<Rightarrow> u64 \<Rightarrow> u64 \<Rightarrow> process_clone_opts option \<Rightarrow> 'a proc_state_scheme \<Rightarrow> (u64 \<times> 'a proc_state_scheme) option" where
  "process_clone K cpu parent parent_thread frame opts s =
     (if parent = NULL \<or> parent_thread = NULL \<or> frame = NULL then Some (NULL, s)
      else do {
        let stack_lo = USER_STACK_TOP - USER_STACK_SIZE;
        (child, s) \<leftarrow> malloc SIZEOF_PROCESS s;
        if child = NULL then Some (NULL, s)
        else do {
          p \<leftarrow> processes s parent;
          (pt, owned, s) \<leftarrow> clone_user_address_space K (p_page_table p) stack_lo USER_STACK_TOP empty_page_list s;
          if pt = NULL then do { s \<leftarrow> free child s; Some (NULL, s) }
          else do {
            let s = s\<lparr>processes := (processes s)(child \<mapsto> zero_process\<lparr>p_page_table := pt, p_owned_pages := owned\<rparr>),
                      wait_queues := (wait_queues s)(child_wq child \<mapsto> \<lparr>wq_head = NULL, wq_seq = 0\<rparr>)\<rparr>;
            (stack, s) \<leftarrow> malloc SIZEOF_THREAD_STACK s;
            (block, s) \<leftarrow> (if stack \<noteq> NULL then page_alloc (USER_STACK_SIZE div 0x1000) s else Some (NULL, s));
            if block = NULL then do {
              s \<leftarrow> (if stack \<noteq> NULL then free stack s else Some s);
              clone_fail K child s }
            else do {
              f \<leftarrow> frames s frame;
              let user_sp = rg_rsp f;
              let s = s\<lparr>kbytes := memset block 0 USER_STACK_SIZE (kbytes s),
                        thread_stacks := (thread_stacks s)(stack \<mapsto>
                          \<lparr>ts_ptr = user_sp, ts_base = block, ts_size = USER_STACK_SIZE, ts_user_mapped = True\<rparr>)\<rparr>;
              (r, s) \<leftarrow> map_stack K pt stack_lo block USER_STACK_SIZE s;
              if r \<noteq> 0 then do { s \<leftarrow> thread_stack_release stack s; clone_fail K child s }
              else do {
                let copy_from = stack_copy_from user_sp;
                let s = s\<lparr>kbytes := memcpy (block + (copy_from - stack_lo)) copy_from (USER_STACK_TOP - copy_from) (kbytes s)\<rparr>;
                s \<leftarrow> upd_process child (\<lambda>c. c\<lparr>p_pid := next_pid s, p_ppid := p_pid p, p_name := p_name p,
                       p_brk_start := p_brk_start p, p_brk_current := p_brk_current p,
                       p_mmap_start := p_mmap_start p, p_mmap_current := p_mmap_current p,
                       p_syscall_conv := p_syscall_conv p, p_fds := p_fds p\<rparr>) s;
                let s = s\<lparr>next_pid := next_pid s + 1\<rparr>;
                (t, s) \<leftarrow> thread_clone_user parent_thread frame stack (read_msr cpu IA32_FS_BASE s) s;
                if t = NULL then do { s \<leftarrow> thread_stack_release stack s; clone_fail K child s }
                else do {
                  n \<leftarrow> threads s t;
                  s \<leftarrow> upd_thread t (\<lambda>n. n\<lparr>t_process := child\<rparr>) s;
                  s \<leftarrow> upd_process child (\<lambda>c. c\<lparr>p_main_thread := t, p_main_tid := t_id n\<rparr>) s;
                  s \<leftarrow> clone_options K child t opts s;
                  s \<leftarrow> process_register child s;
                  s \<leftarrow> scheduler_enqueue t s;
                  Some (child, s) } } } } } })"

section \<open>Replacing the program\<close>

definition process_replace ::
  "'b kernel_build_scheme \<Rightarrow> u8 \<Rightarrow> u64 \<Rightarrow> u64 \<Rightarrow> u64 \<Rightarrow> elf_prepared \<Rightarrow> u8 list option \<Rightarrow> 'a proc_state_scheme \<Rightarrow>
   (elf_prepared \<times> 'a proc_state_scheme) option" where
  "process_replace K cpu proc thread frame prepared name s = do {
     p \<leftarrow> processes s proc;
     t \<leftarrow> threads s thread;
     s \<leftarrow> upd_process proc (\<lambda>p. p\<lparr>p_page_table := ep_l4 prepared\<rparr>) s;
     let s = write_cr3 cpu (hhdm_virt_to_phys K (ep_l4 prepared)) s;
     s \<leftarrow> free_page_table K (p_page_table p) s;
     (l, s) \<leftarrow> vm_page_list_free (p_owned_pages p) s;
     s \<leftarrow> thread_stack_release (t_main t) s;
     s \<leftarrow> upd_thread thread (\<lambda>t. t\<lparr>t_main := ep_stack prepared, t_fs_base := 0\<rparr>) s;
     s \<leftarrow> upd_process proc (\<lambda>p. p\<lparr>p_owned_pages := ep_pages prepared, p_brk_start := ep_brk_start prepared,
            p_brk_current := ep_brk_start prepared, p_mmap_start := 0x400000000000, p_mmap_current := 0x400000000000,
            p_name := (case name of None \<Rightarrow> p_name p | Some n \<Rightarrow> take 31 n)\<rparr>) s;
     let s = write_msr cpu IA32_FS_BASE 0 s;
     s \<leftarrow> upd_frame frame (\<lambda>_. zero_registers\<lparr>rg_rip := ep_entry prepared, rg_rsp := ep_sp prepared,
            rg_rflags := 0x202, rg_cs := 0x1b, rg_ss := 0x23\<rparr>) s;
     Some (prepared\<lparr>ep_l4 := NULL, ep_stack := NULL, ep_pages := empty_page_list\<rparr>, s) }"

end
