(* ===== verification/Screen.thy ===== *)
theory Screen
  imports Proc
begin

text \<open>
  The console: drawing characters into the framebuffer (\<^verbatim>\<open>src/drivers/framebuffer/main.c\<close>),
  and formatted output with colour sequences on top of it (\<^verbatim>\<open>src/lib/screen.c\<close>).

  The framebuffer and the buffer behind it are bytes of memory; offsets into them are computed
  in 32 bits, as the code does. Text is read from memory, or from a literal of the kernel.
  The serial port, the built-in font and the configuration are parameters. Messages to the
  console are the only effect of \<^verbatim>\<open>printk\<close>, and the models of the other components leave them out.
\<close>

section \<open>State\<close>

record console_env =
  ce_serial_present :: bool
  ce_serial_mirroring :: bool
  font8x8_basic :: "nat \<Rightarrow> nat \<Rightarrow> u8"

record screen_state = proc_state +
  current_font :: u64
  current_font_size :: u64
  fb_addr :: u64
  backbuffer :: u64
  fb_width :: u32
  fb_height :: u32
  fb_pitch :: u32
  fb_bpp :: u8
  serial_used :: bool
  serial_log :: "u8 list"
  cursor_x :: u32
  cursor_y :: u32
  current_fg :: u32
  current_bg :: u32
  console_suspended :: bool

abbreviation (input) FONT_WIDTH :: u32 where "FONT_WIDTH \<equiv> 8"

section \<open>Pixels\<close>

definition load32 :: "bytes_mem \<Rightarrow> u64 \<Rightarrow> u32" where
  "load32 m a = foldr (\<lambda>k v. v OR push_bit (8 * k) (ucast (m (a + of_nat k)))) [0..<4] 0"

definition store24 :: "u64 \<Rightarrow> u32 \<Rightarrow> bytes_mem \<Rightarrow> bytes_mem" where
  "store24 a color m = m(a := ucast (color AND 0xFF), a + 1 := ucast (drop_bit 8 color AND 0xFF),
     a + 2 := ucast (drop_bit 16 color AND 0xFF))"

text \<open>\<^verbatim>\<open>(uint8_t*)base + y * fb_pitch + x * n\<close> with 32-bit products.\<close>

definition pixel_addr :: "u64 \<Rightarrow> u32 \<Rightarrow> u32 \<Rightarrow> u32 \<Rightarrow> u32 \<Rightarrow> u64" where
  "pixel_addr base pitch n x y = base + ucast (y * pitch) + ucast (x * n)"

definition draw_pixel :: "u64 \<Rightarrow> u32 \<Rightarrow> u8 \<Rightarrow> u32 \<Rightarrow> u32 \<Rightarrow> u32 \<Rightarrow> bytes_mem \<Rightarrow> bytes_mem" where
  "draw_pixel base pitch bpp x y color m =
     (if bpp = 32 then store32 (pixel_addr base pitch 4 x y) color m
      else if bpp = 24 then store24 (pixel_addr base pitch 3 x y) color m
      else m)"

definition framebuffer_putpixel :: "u32 \<Rightarrow> u32 \<Rightarrow> u32 \<Rightarrow> 'a screen_state_scheme \<Rightarrow> 'a screen_state_scheme" where
  "framebuffer_putpixel x y color s =
     (if fb_addr s = NULL \<or> fb_width s \<le> x \<or> fb_height s \<le> y then s
      else let m = (if backbuffer s \<noteq> NULL then draw_pixel (backbuffer s) (fb_pitch s) (fb_bpp s) x y color (kbytes s) else kbytes s)
           in s\<lparr>kbytes := draw_pixel (fb_addr s) (fb_pitch s) (fb_bpp s) x y color m\<rparr>)"

text \<open>A row of pixels is copied eight bytes at a time, and a last odd pixel, or last bytes, alone.\<close>

definition copy_row32 :: "u64 \<Rightarrow> u64 \<Rightarrow> nat \<Rightarrow> bytes_mem \<Rightarrow> bytes_mem" where
  "copy_row32 dest src words m =
     (let m = fold (\<lambda>i m. store64 (dest + 8 * of_nat i) (load64 m (src + 8 * of_nat i)) m) [0..<words div 2] m
      in if words mod 2 \<noteq> 0 then store32 (dest + 4 * of_nat (words - 1)) (load32 m (src + 4 * of_nat (words - 1))) m else m)"

definition copy_bytes :: "u64 \<Rightarrow> u64 \<Rightarrow> nat \<Rightarrow> bytes_mem \<Rightarrow> bytes_mem" where
  "copy_bytes dest src n m =
     (let m = fold (\<lambda>i m. store64 (dest + 8 * of_nat i) (load64 m (src + 8 * of_nat i)) m) [0..<n div 8] m
      in fold (\<lambda>i m. m(dest + of_nat i := m (src + of_nat i))) [n div 8 * 8..<n] m)"

definition framebuffer_flush :: "u32 \<Rightarrow> u32 \<Rightarrow> u32 \<Rightarrow> u32 \<Rightarrow> 'a screen_state_scheme \<Rightarrow> 'a screen_state_scheme" where
  "framebuffer_flush x y width height s =
     (if fb_addr s = NULL \<or> backbuffer s = NULL then s
      else if fb_width s \<le> x \<or> fb_height s \<le> y then s
      else let width = (if fb_width s < x + width then fb_width s - x else width);
               height = (if fb_height s < y + height then fb_height s - y else height)
           in if fb_bpp s = 32 then
                s\<lparr>kbytes := fold (\<lambda>row. copy_row32 (pixel_addr (fb_addr s) (fb_pitch s) 4 x (y + of_nat row))
                   (pixel_addr (backbuffer s) (fb_pitch s) 4 x (y + of_nat row)) (unat width)) [0..<unat height] (kbytes s)\<rparr>
              else if fb_bpp s = 24 then
                s\<lparr>kbytes := fold (\<lambda>row. copy_bytes (pixel_addr (fb_addr s) (fb_pitch s) 3 x (y + of_nat row))
                   (pixel_addr (backbuffer s) (fb_pitch s) 3 x (y + of_nat row)) (unat (width * 3))) [0..<unat height] (kbytes s)\<rparr>
              else s)"

definition framebuffer_init :: "u64 \<Rightarrow> u32 \<Rightarrow> u32 \<Rightarrow> u32 \<Rightarrow> u8 \<Rightarrow> 'a screen_state_scheme \<Rightarrow> 'a screen_state_scheme" where
  "framebuffer_init addr width height pitch bpp s =
     (if addr = NULL then s
      else s\<lparr>fb_addr := addr, fb_width := width, fb_height := height, fb_pitch := pitch, fb_bpp := bpp\<rparr>)"

definition framebuffer_enable_backbuffer :: "'a screen_state_scheme \<Rightarrow> 'a screen_state_scheme option" where
  "framebuffer_enable_backbuffer s =
     (if fb_addr s = NULL then Some s
      else do {
        let n = ucast (fb_height s * fb_pitch s);
        (b, s) \<leftarrow> malloc n s;
        let s = s\<lparr>backbuffer := b\<rparr>;
        Some (if b \<noteq> NULL then s\<lparr>kbytes := memcpy b (fb_addr s) n (kbytes s)\<rparr> else s) })"

section \<open>Fonts\<close>

text \<open>The header of a font file: two bytes of magic, the mode and the height of a glyph.\<close>

definition psf_mode :: "bytes_mem \<Rightarrow> u64 \<Rightarrow> u8" where "psf_mode m font = m (font + 2)"
definition psf_charsize :: "bytes_mem \<Rightarrow> u64 \<Rightarrow> u8" where "psf_charsize m font = m (font + 3)"

definition psf_glyph_count :: "bytes_mem \<Rightarrow> u64 \<Rightarrow> u32" where
  "psf_glyph_count m font = (if psf_mode m font AND 0x01 \<noteq> 0 then 512 else 256)"

definition framebuffer_font_height :: "'a screen_state_scheme \<Rightarrow> u32" where
  "framebuffer_font_height s = (if current_font s \<noteq> NULL then ucast (psf_charsize (kbytes s) (current_font s)) else 8)"

definition clip_cursor :: "'a screen_state_scheme \<Rightarrow> 'a screen_state_scheme" where
  "clip_cursor s = s\<lparr>cursor_x := (if fb_width s \<le> cursor_x s then 0 else cursor_x s),
                      cursor_y := (if fb_height s \<le> cursor_y s then 0 else cursor_y s)\<rparr>"

definition framebuffer_switch_font :: "u64 \<Rightarrow> u64 \<Rightarrow> 'a screen_state_scheme \<Rightarrow> 'a screen_state_scheme" where
  "framebuffer_switch_font font sz s =
     (if font = NULL then clip_cursor (s\<lparr>current_font := NULL, current_font_size := 0\<rparr>)
      else if sz < 4 then s
      else if kbytes s font \<noteq> 0x36 \<or> kbytes s (font + 1) \<noteq> 0x04 then s
      else if psf_charsize (kbytes s) font = 0 then s
      else let glyph_data_size = (ucast (psf_glyph_count (kbytes s) font) * ucast (psf_charsize (kbytes s) font) :: u64);
               required_size = 4 + glyph_data_size
           in if sz < required_size then s
              else clip_cursor (s\<lparr>current_font := font, current_font_size := sz\<rparr>))"

section \<open>Characters\<close>

definition fill_row :: "u64 \<Rightarrow> u32 \<Rightarrow> u8 \<Rightarrow> u32 \<Rightarrow> bytes_mem \<Rightarrow> bytes_mem" where
  "fill_row row width bpp bg m =
     (if bpp = 32 then
        let m = fold (\<lambda>x. store64 (row + 8 * of_nat x) (push_bit 32 (ucast bg) OR ucast bg)) [0..<unat width div 2] m
        in if width mod 2 \<noteq> 0 then store32 (row + 4 * ucast (width - 1)) bg m else m
      else fold (\<lambda>x. store24 (row + ucast (of_nat x * 3 :: u32)) bg) [0..<unat width] m)"

text \<open>Scrolling moves the picture up by a line of text and clears the last one.\<close>

definition scroll_pixels :: "u64 \<Rightarrow> u32 \<Rightarrow> u32 \<Rightarrow> u32 \<Rightarrow> u8 \<Rightarrow> u32 \<Rightarrow> bytes_mem \<Rightarrow> bytes_mem" where
  "scroll_pixels base width height pitch bpp font_height m =
     (let m = copy_bytes base (base + ucast (font_height * pitch)) (unat ((height - font_height) * pitch)) m
      in if bpp = 32 \<or> bpp = 24
         then fold (\<lambda>y. fill_row (base + ucast (of_nat y * pitch)) width bpp 0) [unat (height - font_height)..<unat height] m
         else m)"

definition framebuffer_scroll :: "'a screen_state_scheme \<Rightarrow> 'a screen_state_scheme" where
  "framebuffer_scroll s =
     (if fb_addr s = NULL then s
      else let font_height = (if fb_height s < framebuffer_font_height s then fb_height s else framebuffer_font_height s);
               s = (if backbuffer s \<noteq> NULL
                    then framebuffer_flush 0 0 (fb_width s) (fb_height s)
                           (s\<lparr>kbytes := scroll_pixels (backbuffer s) (fb_width s) (fb_height s) (fb_pitch s) (fb_bpp s) font_height (kbytes s)\<rparr>)
                    else s\<lparr>kbytes := scroll_pixels (fb_addr s) (fb_width s) (fb_height s) (fb_pitch s) (fb_bpp s) font_height (kbytes s)\<rparr>)
           in s\<lparr>cursor_y := (if font_height \<le> cursor_y s then cursor_y s - font_height else 0)\<rparr>)"

text \<open>The eight pixels of a row of a glyph, the low bit first in the built-in font.\<close>

definition draw_row ::
  "u64 \<Rightarrow> u32 \<Rightarrow> u8 \<Rightarrow> u32 \<Rightarrow> u32 \<Rightarrow> u8 \<Rightarrow> bool \<Rightarrow> u32 \<Rightarrow> u32 \<Rightarrow> bytes_mem \<Rightarrow> bytes_mem" where
  "draw_row target pitch bpp x y bits lsb_first fg bg m =
     fold (\<lambda>col. draw_pixel target pitch bpp (x + of_nat col) y
        (if bit bits (if lsb_first then col else 7 - col) then fg else bg)) [0..<8] m"

definition framebuffer_draw_char ::
  "'c console_env_scheme \<Rightarrow> u32 \<Rightarrow> u32 \<Rightarrow> u8 \<Rightarrow> u32 \<Rightarrow> u32 \<Rightarrow> 'a screen_state_scheme \<Rightarrow> 'a screen_state_scheme" where
  "framebuffer_draw_char E x y c fg bg s =
     (if fb_addr s = NULL then s
      else let ch = (if 128 \<le> c then 0x3F else c);
               font_height = framebuffer_font_height s
           in if fb_width s < x + FONT_WIDTH \<or> fb_height s < y + font_height then s
              else let target = (if backbuffer s \<noteq> NULL then backbuffer s else fb_addr s);
                       font = current_font s;
                       glyph = (\<lambda>m row. if font \<noteq> NULL
                          then m (font + 4 + ucast ch * ucast (psf_charsize m font) + of_nat row)
                          else font8x8_basic E (unat ch) row);
                       s = s\<lparr>kbytes := fold (\<lambda>row m. draw_row target (fb_pitch s) (fb_bpp s) x (y + of_nat row)
                              (glyph m row) (font = NULL) fg bg m) [0..<unat font_height] (kbytes s)\<rparr>
                   in if backbuffer s \<noteq> NULL then framebuffer_flush x y FONT_WIDTH font_height s else s)"

definition framebuffer_putchar :: "'c console_env_scheme \<Rightarrow> u8 \<Rightarrow> u32 \<Rightarrow> u32 \<Rightarrow> 'a screen_state_scheme \<Rightarrow> 'a screen_state_scheme" where
  "framebuffer_putchar E c fg bg s =
     (let s = (if \<not> serial_used s then s\<lparr>serial_used := ce_serial_present E\<rparr> else s);
          s = (if ce_serial_mirroring E \<and> serial_used s then s\<lparr>serial_log := serial_log s @ [c]\<rparr> else s);
          font_height = framebuffer_font_height s;
          s = (if c = 0x0A then s\<lparr>cursor_x := 0, cursor_y := cursor_y s + font_height\<rparr>
               else let s = framebuffer_draw_char E (cursor_x s) (cursor_y s) c fg bg s;
                        s = s\<lparr>cursor_x := cursor_x s + FONT_WIDTH\<rparr>
                    in if fb_width s < cursor_x s + FONT_WIDTH
                       then s\<lparr>cursor_x := 0, cursor_y := cursor_y s + font_height\<rparr> else s)
      in if fb_height s \<le> cursor_y s + font_height then framebuffer_scroll s else s)"

definition framebuffer_printstr :: "'c console_env_scheme \<Rightarrow> u8 list \<Rightarrow> u32 \<Rightarrow> u32 \<Rightarrow> 'a screen_state_scheme \<Rightarrow> 'a screen_state_scheme" where
  "framebuffer_printstr E str fg bg s = fold (\<lambda>c. framebuffer_putchar E c fg bg) str s"

section \<open>Colour sequences\<close>

definition ansi_colors :: "u32 list" where
  "ansi_colors = [0x000000, 0xAA0000, 0x00AA00, 0xAA5500, 0x0000AA, 0xAA00AA, 0x00AAAA, 0xAAAAAA,
     0x555555, 0xFF0000, 0x55FF55, 0xFFFF55, 0x5555FF, 0xFF55FF, 0x55FFFF, 0xFFFFFF]"

abbreviation (input) ESC :: u8 where "ESC \<equiv> 0x1B"
abbreviation (input) SEMICOLON :: u8 where "SEMICOLON \<equiv> 0x3B"

text \<open>\<^verbatim>\<open>while (is_char_digit(*s)) { val = val * 10 + (*s - '0'); s++; }\<close> on an \<open>int\<close>, and on a \<open>uint32_t\<close>.\<close>

partial_function (option) ansi_int :: "(u64 \<Rightarrow> u8) \<Rightarrow> u64 \<Rightarrow> nat \<Rightarrow> (u64 \<times> nat) option" where
  "ansi_int rd s v =
     (if is_char_digit (rd s)
      then (let v = v * 10 + (unat (rd s) - 0x30) in if INT_MAX < v then None else ansi_int rd (s + 1) v)
      else Some (s, v))"

partial_function (option) ansi_u32 :: "(u64 \<Rightarrow> u8) \<Rightarrow> u64 \<Rightarrow> u32 \<Rightarrow> (u64 \<times> u32) option" where
  "ansi_u32 rd s v =
     (if is_char_digit (rd s) then ansi_u32 rd (s + 1) (v * 10 + (ucast (rd s) - 0x30)) else Some (s, v))"

text \<open>\<^verbatim>\<open>if (*s == ';') { s++; while (is_char_digit(*s)) ... }\<close>\<close>

definition read_component :: "(u64 \<Rightarrow> u8) \<Rightarrow> u64 \<Rightarrow> (u64 \<times> u32) option" where
  "read_component rd s = (if rd s = SEMICOLON then ansi_u32 rd (s + 1) 0 else Some (s, 0))"

definition ansi_extended :: "(u64 \<Rightarrow> u8) \<Rightarrow> u64 \<Rightarrow> bool \<Rightarrow> u32 \<times> u32 \<Rightarrow> (u64 \<times> u32 \<times> u32) option" where
  "ansi_extended rd s is_fg c =
     (let set1 = (\<lambda>v. if is_fg then (v, snd c) else (fst c, v)) in
      if rd s \<noteq> SEMICOLON then Some (s, c)
      else do {
        (s, mode) \<leftarrow> ansi_int rd (s + 1) 0;
        if mode = 5 then
          (if rd s \<noteq> SEMICOLON then Some (s, c)
           else do {
             (s, idx) \<leftarrow> ansi_int rd (s + 1) 0;
             Some (s, if idx < 16 then set1 (ansi_colors ! idx) else c) })
        else if mode = 2 then do {
          (s, r) \<leftarrow> read_component rd s;
          (s, g) \<leftarrow> read_component rd s;
          (s, b) \<leftarrow> read_component rd s;
          Some (s, set1 (push_bit 16 r OR push_bit 8 g OR b)) }
        else Some (s, c) })"

text \<open>One parameter of the sequence; without digits it counts as 0.\<close>

definition ansi_param :: "(u64 \<Rightarrow> u8) \<Rightarrow> u64 \<Rightarrow> u32 \<times> u32 \<Rightarrow> (u64 \<times> u32 \<times> u32) option" where
  "ansi_param rd s c = do {
     (s, val) \<leftarrow> ansi_int rd s 0;
     if val = 0 then Some (s, 0xFFFFFF, 0x000000)
     else if 30 \<le> val \<and> val \<le> 37 then Some (s, ansi_colors ! (val - 30), snd c)
     else if 40 \<le> val \<and> val \<le> 47 then Some (s, fst c, ansi_colors ! (val - 40))
     else if 90 \<le> val \<and> val \<le> 97 then Some (s, ansi_colors ! (val - 90 + 8), snd c)
     else if 100 \<le> val \<and> val \<le> 107 then Some (s, fst c, ansi_colors ! (val - 100 + 8))
     else if val = 39 then Some (s, 0xFFFFFF, snd c)
     else if val = 49 then Some (s, fst c, 0x000000)
     else if val = 38 \<or> val = 48 then ansi_extended rd s (val = 38) c
     else Some (s, c) }"

partial_function (option) ansi_loop :: "(u64 \<Rightarrow> u8) \<Rightarrow> u64 \<Rightarrow> u32 \<times> u32 \<Rightarrow> (u64 \<times> u32 \<times> u32) option" where
  "ansi_loop rd s c =
     (if rd s = 0 \<or> rd s = 0x6D then Some (s, c)
      else do {
        (s, c) \<leftarrow> ansi_param rd s c;
        ansi_loop rd (if rd s = SEMICOLON then s + 1 else s) c })"

definition parse_ansi :: "(u64 \<Rightarrow> u8) \<Rightarrow> u64 \<Rightarrow> u32 \<times> u32 \<Rightarrow> (u64 \<times> u32 \<times> u32) option" where
  "parse_ansi rd s c = do {
     let s = (if rd s = ESC then s + 1 else s);
     let s = (if rd s = 0x5B then s + 1 else s);
     (s, c) \<leftarrow> ansi_loop rd s c;
     Some (if rd s = 0x6D then s + 1 else s, c) }"

section \<open>Strings\<close>

text \<open>Text lies in memory, or is a literal, which has its terminator behind its last byte.\<close>

datatype text_at = In_Memory | Literal "u8 list"

definition read_text :: "text_at \<Rightarrow> 'a screen_state_scheme \<Rightarrow> u64 \<Rightarrow> u8" where
  "read_text t s a = (case t of In_Memory \<Rightarrow> kbytes s a | Literal cs \<Rightarrow> if unat a < length cs then cs ! unat a else 0)"

definition put_ansi :: "text_at \<Rightarrow> u64 \<Rightarrow> 'a screen_state_scheme \<Rightarrow> (u64 \<times> 'a screen_state_scheme) option" where
  "put_ansi t str s = do {
     (str, fg, bg) \<leftarrow> parse_ansi (read_text t s) str (current_fg s, current_bg s);
     Some (str, s\<lparr>current_fg := fg, current_bg := bg\<rparr>) }"

definition put_current :: "'c console_env_scheme \<Rightarrow> u8 \<Rightarrow> 'a screen_state_scheme \<Rightarrow> 'a screen_state_scheme" where
  "put_current E c s = framebuffer_putchar E c (current_fg s) (current_bg s) s"

partial_function (option) print_string_internal ::
  "'c console_env_scheme \<Rightarrow> text_at \<Rightarrow> u64 \<Rightarrow> 'a screen_state_scheme \<Rightarrow> 'a screen_state_scheme option" where
  "print_string_internal E t str s =
     (if read_text t s str = 0 then Some s
      else if read_text t s str = ESC \<and> read_text t s (str + 1) = 0x5B then do {
        (str, s) \<leftarrow> put_ansi t str s;
        print_string_internal E t str s }
      else print_string_internal E t (str + 1) (put_current E (read_text t s str) s))"

partial_function (option) print_limit_loop ::
  "'c console_env_scheme \<Rightarrow> u64 \<Rightarrow> u64 \<Rightarrow> 'a screen_state_scheme \<Rightarrow> 'a screen_state_scheme option" where
  "print_limit_loop E fin str s =
     (if \<not> str < fin then Some s
      else if str + 1 < fin \<and> kbytes s str = ESC \<and> kbytes s (str + 1) = 0x5B then do {
        (str, s) \<leftarrow> put_ansi In_Memory str s;
        print_limit_loop E fin str s }
      else print_limit_loop E fin (str + 1) (put_current E (kbytes s str) s))"

definition print_string_internal_limit :: "'c console_env_scheme \<Rightarrow> u64 \<Rightarrow> u64 \<Rightarrow> 'a screen_state_scheme \<Rightarrow> 'a screen_state_scheme option" where
  "print_string_internal_limit E str n s = print_limit_loop E (str + n) str s"

definition user_print :: "'c console_env_scheme \<Rightarrow> u64 \<Rightarrow> u64 \<Rightarrow> 'a screen_state_scheme \<Rightarrow> 'a screen_state_scheme option" where
  "user_print E str n s = print_string_internal_limit E str n s"

section \<open>Formatted output\<close>

datatype print_arg = Num u64 | Str "u8 list"

definition print_number :: "'c console_env_scheme \<Rightarrow> (nat \<times> u8 list) option \<Rightarrow> 'a screen_state_scheme \<Rightarrow> 'a screen_state_scheme option" where
  "print_number E r s = do { (n, str) \<leftarrow> r; print_string_internal E (Literal (take n str)) 0 s }"

definition ascii :: "string \<Rightarrow> u8 list" where
  "ascii = map of_char"

text \<open>One conversion after its \<open>%\<close> and \<open>l\<close>; the rest of the arguments is answered.\<close>

definition vprintf_conversion ::
  "'c console_env_scheme \<Rightarrow> u8 \<Rightarrow> bool \<Rightarrow> print_arg list \<Rightarrow> 'a screen_state_scheme \<Rightarrow> (print_arg list \<times> 'a screen_state_scheme) option" where
  "vprintf_conversion E c is_long args s =
     (if c = 0x25 then Some (args, put_current E 0x25 s)
      else if c \<notin> {0x73, 0x64, 0x75, 0x78, 0x70, 0x63} then Some (args, s)
      else (case args of
         Str str # args \<Rightarrow> if c = 0x73 then do { s \<leftarrow> print_string_internal E (Literal str) 0 s; Some (args, s) } else None
       | Num v # args \<Rightarrow>
           if c = 0x73 then do {
             s \<leftarrow> (if v \<noteq> NULL then print_string_internal E In_Memory v s
                   else print_string_internal E (Literal (ascii ''(null)'')) 0 s);
             Some (args, s) }
           else if c = 0x64 then do {
             s \<leftarrow> print_number E (if is_long then ltoa v 10 else ltoa (scast (ucast v :: u32)) 10) s; Some (args, s) }
           else if c = 0x75 then do {
             s \<leftarrow> print_number E (if is_long then ultoa v 10 else ultoa (ucast (ucast v :: u32)) 10) s; Some (args, s) }
           else if c = 0x78 then do {
             s \<leftarrow> print_number E (if is_long then ultoa v 16 else ultoa (ucast (ucast v :: u32)) 16) s; Some (args, s) }
           else if c = 0x70 then do {
             s \<leftarrow> print_string_internal E (Literal (ascii ''0x'')) 0 s;
             s \<leftarrow> print_number E (ultoa v 16) s; Some (args, s) }
           else Some (args, put_current E (ucast v) s)
       | [] \<Rightarrow> None))"

text \<open>A format that ends in a lone \<open>%\<close> makes the loop run past its terminator.\<close>

partial_function (option) vprintf_loop ::
  "'c console_env_scheme \<Rightarrow> u8 list \<Rightarrow> u64 \<Rightarrow> print_arg list \<Rightarrow> 'a screen_state_scheme \<Rightarrow> 'a screen_state_scheme option" where
  "vprintf_loop E fmt i args s =
     (let c = read_text (Literal fmt) s i in
      if c = 0 then Some s
      else if c = 0x25 then do {
        let is_long = (read_text (Literal fmt) s (i + 1) = 0x6C);
        let i = (if is_long then i + 2 else i + 1);
        if read_text (Literal fmt) s i = 0 then None
        else do {
          (args, s) \<leftarrow> vprintf_conversion E (read_text (Literal fmt) s i) is_long args s;
          vprintf_loop E fmt (i + 1) args s } }
      else if c = ESC then do { (i, s) \<leftarrow> put_ansi (Literal fmt) i s; vprintf_loop E fmt i args s }
      else vprintf_loop E fmt (i + 1) args (put_current E c s))"

definition vprintf :: "'c console_env_scheme \<Rightarrow> u8 list \<Rightarrow> print_arg list \<Rightarrow> 'a screen_state_scheme \<Rightarrow> 'a screen_state_scheme option" where
  "vprintf E fmt args s = vprintf_loop E fmt 0 args s"

definition printf :: "'c console_env_scheme \<Rightarrow> u8 list \<Rightarrow> print_arg list \<Rightarrow> 'a screen_state_scheme \<Rightarrow> 'a screen_state_scheme option" where
  "printf E fmt args s = vprintf E fmt args s"

definition locked_printf :: "'c console_env_scheme \<Rightarrow> u8 list \<Rightarrow> print_arg list \<Rightarrow> 'a screen_state_scheme \<Rightarrow> 'a screen_state_scheme option" where
  "locked_printf E fmt args s = vprintf E fmt args s"

datatype kernel_message_type = KMT_LOG | KMT_ERROR | KMT_DEBUG

definition message_level :: "kernel_message_type \<Rightarrow> u8 list" where
  "message_level t = ESC # ascii (case t of KMT_LOG \<Rightarrow> ''[36mLOG'' | KMT_ERROR \<Rightarrow> ''[31mERR'' | KMT_DEBUG \<Rightarrow> ''[90mDBG'')"

text \<open>Seconds and milliseconds, with the milliseconds padded to three digits.\<close>

definition time_stamp :: "u64 \<Rightarrow> u8 list option" where
  "time_stamp ticks = do {
     let seconds = ticks div 1000000000;
     let milliseconds = (ticks mod 1000000000) div 1000000;
     (n, time_str) \<leftarrow> ultoa seconds 10;
     (k, ms_str) \<leftarrow> ultoa milliseconds 10;
     let zeros = (if milliseconds < 10 then [0x30, 0x30] else if milliseconds < 100 then [0x30] else []);
     Some (take n time_str @ [DOT] @ zeros @ take k ms_str) }"

definition printk ::
  "'c console_env_scheme \<Rightarrow> u64 \<Rightarrow> kernel_message_type \<Rightarrow> u8 list \<Rightarrow> u8 list \<Rightarrow> print_arg list \<Rightarrow> 'a screen_state_scheme \<Rightarrow> 'a screen_state_scheme option" where
  "printk E ticks type module fmt args s =
     (if console_suspended s then Some s
      else do {
        time_str \<leftarrow> time_stamp ticks;
        s \<leftarrow> printf E ([ESC] @ ascii ''[37m[%s]'' @ [ESC] @ ascii ''[0m %s'' @ [ESC] @ ascii ''[90m:'' @ [ESC] @ ascii ''[0m '' @
               [ESC] @ ascii ''[38;2;39;159;219m%s'' @ [ESC] @ ascii ''[0m: '') [Str time_str, Str (message_level type), Str module] s;
        s \<leftarrow> vprintf E fmt args s;
        Some (put_current E 0x0A s) })"

definition printk_suspend_console :: "'c console_env_scheme \<Rightarrow> u64 \<Rightarrow> 'a screen_state_scheme \<Rightarrow> 'a screen_state_scheme option" where
  "printk_suspend_console E ticks s = do {
     s \<leftarrow> printk E ticks KMT_LOG (ascii ''Framebuffer'') (ascii ''Suspending kernel console output'') [] s;
     Some (s\<lparr>console_suspended := True\<rparr>) }"

definition printk_remove_console_suspension :: "'c console_env_scheme \<Rightarrow> u64 \<Rightarrow> 'a screen_state_scheme \<Rightarrow> 'a screen_state_scheme option" where
  "printk_remove_console_suspension E ticks s =
     (let was_suspended = console_suspended s; s = s\<lparr>console_suspended := False\<rparr> in
      if was_suspended
      then printk E ticks KMT_LOG (ascii ''Framebuffer'') (ascii ''Ensuring kernel console output is not suspended'') [] s
      else Some s)"

section \<open>Colour sequences the kernel does not get through\<close>

text \<open>
  A colour sequence with a byte that is none of a digit, a semicolon, \<open>m\<close> and the end makes the
  loop go on for ever: the byte stands for the value 0 and is not passed over.
\<close>

lemma ansi_loop_stuck:
  assumes "rd s \<notin> {0, 0x6D, SEMICOLON}" "\<not> is_char_digit (rd s)"
  shows "ansi_loop rd s c = None"
proof -
  have p: "ansi_param rd s c = Some (s, 0xFFFFFF, 0)" for c
    using assms by (simp add: ansi_param_def ansi_int.simps)
  have "rd = rd \<longrightarrow> s \<noteq> s" if "ansi_loop rd s c = Some y" for y
  proof (rule ansi_loop.raw_induct [where P = "\<lambda>rd' a c y. rd' = rd \<longrightarrow> a \<noteq> s", OF _ that], intro impI notI)
    fix loop rd' a c y
    assume IH: "\<And>rd' a c y. loop rd' a c = Some y \<Longrightarrow> rd' = rd \<longrightarrow> a \<noteq> s"
      and body: "(if rd' a = 0 \<or> rd' a = 0x6D then Some (a, c)
        else ansi_param rd' a c \<bind> (\<lambda>(b, c). loop rd' (if rd' b = SEMICOLON then b + 1 else b) c)) = Some y"
      and "rd' = rd" "a = s"
    with assms p have "loop rd s (0xFFFFFF, 0) = Some y" by (auto split: if_splits)
    from IH [OF this] show False by simp
  qed
  then show ?thesis by (cases "ansi_loop rd s c") auto
qed

text \<open>So does a program that writes the sequence for clearing the screen, \<open>ESC [ 2 J\<close>, to its console.\<close>

lemma put_ansi_clear_hangs:
  assumes "map (\<lambda>k. read_text t s (a + of_nat k)) [0..<4] = [ESC, 0x5B, 0x32, 0x4A]"
  shows "put_ansi t a s = None"
proof -
  let ?rd = "read_text t s"
  have rd: "?rd a = ESC" "?rd (a + 1) = 0x5B" "?rd (a + 2) = 0x32" "?rd (a + 3) = 0x4A"
    using assms by (simp_all add: upt_rec)
  have n: "a + 1 + 1 = a + 2" "a + 2 + 1 = a + 3" by simp_all
  have "ansi_loop ?rd (a + 3) c = None" for c by (rule ansi_loop_stuck) (simp_all add: rd is_char_digit_def)
  moreover have "ansi_param ?rd (a + 2) c = Some (a + 3, c)" for c
    by (simp add: ansi_param_def ansi_int.simps [of ?rd] rd n is_char_digit_def INT_MAX_def)
  ultimately have "ansi_loop ?rd (a + 2) c = None" for c by (subst ansi_loop.simps) (simp add: rd)
  then show ?thesis by (simp add: put_ansi_def parse_ansi_def rd n)
qed

lemma user_print_clear_hangs:
  assumes "map (\<lambda>k. kbytes s (a + of_nat k)) [0..<4] = [ESC, 0x5B, 0x32, 0x4A]" "a < a + 4" "a + 1 < a + 4"
  shows "user_print E a 4 s = None"
proof -
  have "put_ansi In_Memory a s = None" using assms(1) by (intro put_ansi_clear_hangs) (simp add: read_text_def)
  moreover have "kbytes s a = ESC" "kbytes s (a + 1) = 0x5B" using assms(1) by (simp_all add: upt_rec)
  ultimately show ?thesis
    using assms(2,3) by (simp add: user_print_def print_string_internal_limit_def print_limit_loop.simps [of E _ a])
qed

end
