(* ===== verification/Keyboard.thy ===== *)
theory Keyboard
  imports Screen "HOL-Library.Sublist"
begin

text \<open>
  The keyboard: scan codes of the PS/2 controller become characters
  (\<^verbatim>\<open>src/drivers/keyboard/ps2.c\<close>), which wait in a ring buffer until a reader takes them
  (\<^verbatim>\<open>src/drivers/keyboard/keyboard.c\<close>). The ring buffer implements a bounded queue, the locale
  \<open>bounded_queue\<close>, and a reader gets a line of what was typed.

  What the ports of the controller answer is an argument. A reader that finds nothing sleeps on
  the wait queue of the keyboard, a static variable whose address is a parameter.
\<close>

section \<open>The code\<close>

record keyboard_env = console_env +
  sym_kbd_wq :: u64

record keyboard_state = screen_state +
  kbd_buf :: "u8 list"
  kbd_head :: u32
  kbd_tail :: u32
  keyboard_should_putchar :: bool
  shift_left_pressed :: bool
  shift_right_pressed :: bool

abbreviation (input) KBD_BUF_SIZE :: u32 where "KBD_BUF_SIZE \<equiv> 256"

definition kbd_insert :: "u8 \<Rightarrow> 'a keyboard_state_scheme \<Rightarrow> 'a keyboard_state_scheme" where
  "kbd_insert c s =
     (let next = (kbd_head s + 1) mod KBD_BUF_SIZE in
      if next \<noteq> kbd_tail s then s\<lparr>kbd_buf := (kbd_buf s)[unat (kbd_head s) := c], kbd_head := next\<rparr> else s)"

definition kbd_push :: "'e keyboard_env_scheme \<Rightarrow> u8 \<Rightarrow> 'a keyboard_state_scheme \<Rightarrow> 'a keyboard_state_scheme option" where
  "kbd_push E c s = scheduler_wake_all (sym_kbd_wq E) (kbd_insert c s)"

definition kbd_pop :: "'a keyboard_state_scheme \<Rightarrow> u8 option \<times> 'a keyboard_state_scheme" where
  "kbd_pop s =
     (if kbd_head s \<noteq> kbd_tail s
      then (Some (kbd_buf s ! unat (kbd_tail s)), s\<lparr>kbd_tail := (kbd_tail s + 1) mod KBD_BUF_SIZE\<rparr>)
      else (None, s))"

datatype keyboard_pressed_key = KEYBOARD_PRESSED_KEY_KIND_CHAR u8

definition keyboard_handle_keypress ::
  "'e keyboard_env_scheme \<Rightarrow> keyboard_pressed_key \<Rightarrow> 'a keyboard_state_scheme \<Rightarrow> 'a keyboard_state_scheme option" where
  "keyboard_handle_keypress E key s =
     (case key of KEYBOARD_PRESSED_KEY_KIND_CHAR character \<Rightarrow>
        if character = 0 then Some s
        else let character = (if character = 0x0D then 0x0A else character);
                 s = (if keyboard_should_putchar s then framebuffer_putchar E character 0xFFFFFF 0x000000 s else s)
             in kbd_push E character s)"

text \<open>The tables of the keys, 128 entries each; the last ones are 0.\<close>

definition keymap :: "u8 list" where
  "keymap = [0, 0x1B, 0x31, 0x32, 0x33, 0x34, 0x35, 0x36, 0x37, 0x38, 0x39, 0x30, 0x2D, 0x3D, 0x08,
    0x09, 0x71, 0x77, 0x65, 0x72, 0x74, 0x79, 0x75, 0x69, 0x6F, 0x70, 0x5B, 0x5D, 0x0A, 0,
    0x61, 0x73, 0x64, 0x66, 0x67, 0x68, 0x6A, 0x6B, 0x6C, 0x3B, 0x27, 0x60, 0, 0x5C, 0x7A,
    0x78, 0x63, 0x76, 0x62, 0x6E, 0x6D, 0x2C, 0x2E, 0x2F, 0, 0x2A, 0, 0x20, 0, 0, 0, 0, 0,
    0, 0, 0, 0, 0, 0, 0, 0x2D, 0, 0, 0, 0x2B] @ replicate 53 0"

definition shift_keymap :: "u8 list" where
  "shift_keymap = [0, 0x1B, 0x21, 0x40, 0x23, 0x24, 0x25, 0x5E, 0x26, 0x2A, 0x28, 0x29, 0x5F, 0x2B, 0x08,
    0x09, 0x51, 0x57, 0x45, 0x52, 0x54, 0x59, 0x55, 0x49, 0x4F, 0x50, 0x7B, 0x7D, 0x0A, 0,
    0x41, 0x53, 0x44, 0x46, 0x47, 0x48, 0x4A, 0x4B, 0x4C, 0x3A, 0x22, 0x7E, 0, 0x7C, 0x5A,
    0x58, 0x43, 0x56, 0x42, 0x4E, 0x4D, 0x3C, 0x3E, 0x3F, 0, 0x2A, 0, 0x20, 0, 0, 0, 0, 0,
    0, 0, 0, 0, 0, 0, 0, 0x2D, 0, 0, 0, 0x2B] @ replicate 53 0"

text \<open>The status port 0x64 says whether the data port 0x60 has a code.\<close>

definition read_scancode :: "u8 \<Rightarrow> u8 \<Rightarrow> u8" where
  "read_scancode status data = (if status AND 0x01 = 0 then 0 else data)"

definition ps2_interrupt_handler ::
  "'e keyboard_env_scheme \<Rightarrow> u8 \<Rightarrow> u8 \<Rightarrow> 'a keyboard_state_scheme \<Rightarrow> 'a keyboard_state_scheme option" where
  "ps2_interrupt_handler E status data s =
     (let scancode = read_scancode status data;
          released = (scancode AND 0x80 \<noteq> 0);
          key = scancode AND NOT 0x80
      in if key = 0 then Some s
         else if released then
           Some (if key = 0x2A then s\<lparr>shift_left_pressed := False\<rparr>
                 else if key = 0x36 then s\<lparr>shift_right_pressed := False\<rparr> else s)
         else if key = 0x2A then Some (s\<lparr>shift_left_pressed := True\<rparr>)
         else if key = 0x36 then Some (s\<lparr>shift_right_pressed := True\<rparr>)
         else keyboard_handle_keypress E (KEYBOARD_PRESSED_KEY_KIND_CHAR
           ((if shift_left_pressed s \<or> shift_right_pressed s then shift_keymap else keymap) ! unat key)) s)"

text \<open>
  \<^verbatim>\<open>while (n < count && kbd_pop(&c))\<close>: answers whether a line has ended, and how much was read. A
  round of the outer loop either returns to the caller or sleeps until the sequence number of
  the wait queue moves on from the one it saw first; the next round then goes on at \<open>n\<close>.
\<close>

lemma unat_succ_less: "(n :: u64) < k \<Longrightarrow> unat (n + 1) = unat n + 1"
  using unat_u64_less [of k] by (subst unat_plus_no_wrap) (auto simp: word_less_nat_alt)

function keyboard_drain ::
  "u64 \<Rightarrow> u64 \<Rightarrow> u64 \<Rightarrow> 'a keyboard_state_scheme \<Rightarrow> bool \<times> u64 \<times> 'a keyboard_state_scheme" where
  "keyboard_drain buffer count n s =
     (if n < count
      then (case kbd_pop s of
              (None, s) \<Rightarrow> (False, n, s)
            | (Some c, s) \<Rightarrow>
                let s = s\<lparr>kbytes := (kbytes s)(buffer + n := c)\<rparr> in
                if c = 0x0A then (True, n + 1, s) else keyboard_drain buffer count (n + 1) s)
      else (False, n, s))"
  by auto
termination
  by (relation "measure (\<lambda>(buffer, count, n, s). unat count - unat n)")
    (auto simp: word_less_nat_alt unat_succ_less)

declare keyboard_drain.simps [simp del]

datatype read_answer = Read_Done u64 | Read_Wait u64 u64

definition keyboard_read_round ::
  "'e keyboard_env_scheme \<Rightarrow> u64 \<Rightarrow> u64 \<Rightarrow> u64 \<Rightarrow> 'a keyboard_state_scheme \<Rightarrow> (read_answer \<times> 'a keyboard_state_scheme) option" where
  "keyboard_read_round E buffer count n s = do {
     seq \<leftarrow> wait_queue_snapshot (sym_kbd_wq E) s;
     let (line, n, s) = keyboard_drain buffer count n s;
     Some (if line \<or> n = count then Read_Done n else Read_Wait seq n, s) }"

text \<open>The result is an \<open>int\<close>: the count is cut to 32 bits and extended again by its sign.\<close>

definition keyboard_result :: "u64 \<Rightarrow> u64" where
  "keyboard_result n = scast (ucast n :: u32)"

definition keyboard_read ::
  "'e keyboard_env_scheme \<Rightarrow> u64 \<Rightarrow> u64 \<Rightarrow> 'a keyboard_state_scheme \<Rightarrow> (read_answer \<times> 'a keyboard_state_scheme) option" where
  "keyboard_read E buffer count s =
     (if count = 0 then Some (Read_Done 0, s) else keyboard_read_round E buffer count 0 s)"


section \<open>A bounded queue\<close>

text \<open>
  \<open>enq\<close> appends unless the queue is full, \<open>deq\<close> takes the first element. An event is an element to
  append or \<open>None\<close> to take one.
\<close>

fun appended :: "'c option list \<Rightarrow> 'c list" where
  "appended [] = []"
| "appended (Some c # es) = c # appended es"
| "appended (None # es) = appended es"

locale bounded_queue =
  fixes enq :: "'c \<Rightarrow> 's \<Rightarrow> 's" and deq :: "'s \<Rightarrow> 'c option \<times> 's"
    and contents :: "'s \<Rightarrow> 'c list" and ok :: "'s \<Rightarrow> bool" and capacity :: nat
  assumes enq_law: "ok s \<Longrightarrow> ok (enq c s) \<and> contents (enq c s) = (if length (contents s) < capacity then contents s @ [c] else contents s)"
    and deq_law: "ok s \<Longrightarrow> ok (snd (deq s)) \<and>
      (case contents s of [] \<Rightarrow> fst (deq s) = None \<and> contents (snd (deq s)) = [] | c # cs \<Rightarrow> fst (deq s) = Some c \<and> contents (snd (deq s)) = cs)"
begin

fun run :: "'c option list \<Rightarrow> 's \<Rightarrow> 'c list \<times> 's" where
  "run [] s = ([], s)"
| "run (Some c # es) s = run es (enq c s)"
| "run (None # es) s = (case deq s of (x, s) \<Rightarrow> let (out, s) = run es s in (case x of None \<Rightarrow> out | Some c \<Rightarrow> c # out, s))"

text \<open>First in, first out: nothing is reordered, and nothing is lost while there is room.\<close>

lemma fifo:
  assumes "ok s"
  shows "\<exists>acc. subseq acc (appended es) \<and> contents s @ acc = fst (run es s) @ contents (snd (run es s)) \<and>
    (length (contents s) + length (appended es) \<le> capacity \<longrightarrow> acc = appended es) \<and> ok (snd (run es s))"
  using assms
proof (induction es arbitrary: s)
  case Nil
  then show ?case by simp
next
  case (Cons e es)
  show ?case
  proof (cases e)
    case (Some c)
    note e = enq_law [OF Cons.prems, of c]
    from Cons.IH [OF conjunct1 [OF e]] obtain acc where a: "subseq acc (appended es)"
      "contents (enq c s) @ acc = fst (run es (enq c s)) @ contents (snd (run es (enq c s)))"
      "length (contents (enq c s)) + length (appended es) \<le> capacity \<longrightarrow> acc = appended es" "ok (snd (run es (enq c s)))" by blast
    have m: "appended (e # es) = c # appended es" by (simp add: Some)
    show ?thesis
    proof (cases "length (contents s) < capacity")
      case True
      with a e show ?thesis unfolding m Some by (intro exI [of _ "c # acc"]) auto
    next
      case False
      with a e show ?thesis unfolding m Some by (intro exI [of _ acc]) auto
    qed
  next
    case None
    obtain x s1 where d: "deq s = (x, s1)" by (cases "deq s")
    note e = deq_law [OF Cons.prems, unfolded d]
    from Cons.IH [of s1] e obtain acc where a: "subseq acc (appended es)"
      "contents s1 @ acc = fst (run es s1) @ contents (snd (run es s1))"
      "length (contents s1) + length (appended es) \<le> capacity \<longrightarrow> acc = appended es" "ok (snd (run es s1))" by auto
    have m: "appended (e # es) = appended es" by (simp add: None)
    from a e show ?thesis unfolding m None
      by (intro exI [of _ acc]) (auto simp: d split_beta Let_def split: list.splits option.splits)
  qed
qed

end

text \<open>The ring buffer: \<open>kbd_head = kbd_tail\<close> is empty, so it holds one byte less than its size.\<close>

definition kbd_ok :: "'a keyboard_state_scheme \<Rightarrow> bool" where
  "kbd_ok s \<longleftrightarrow> length (kbd_buf s) = 256 \<and> unat (kbd_head s) < 256 \<and> unat (kbd_tail s) < 256"

definition kbd_contents :: "'a keyboard_state_scheme \<Rightarrow> u8 list" where
  "kbd_contents s = map (\<lambda>i. kbd_buf s ! ((unat (kbd_tail s) + i) mod 256))
     [0..<(unat (kbd_head s) + 256 - unat (kbd_tail s)) mod 256]"

lemma unat_next_slot: "unat (i :: u32) < 256 \<Longrightarrow> unat ((i + 1) mod 256) = (unat i + 1) mod 256"
  by (simp add: unat_mod unat_word_ariths)

lemma mod_256: "x < 512 \<Longrightarrow> x mod 256 = (if x < 256 then x else x - 256)" for x :: nat
  by (simp add: mod_if)

lemma kbd_insert_contents:
  assumes "kbd_ok s"
  shows "kbd_ok (kbd_insert c s) \<and>
    kbd_contents (kbd_insert c s) = (if length (kbd_contents s) < 255 then kbd_contents s @ [c] else kbd_contents s)"
proof -
  define h t where "h = unat (kbd_head s)" and "t = unat (kbd_tail s)"
  have ht: "h < 256" "t < 256" "length (kbd_buf s) = 256" using assms by (simp_all add: kbd_ok_def h_def t_def)
  have nx: "unat ((kbd_head s + 1) mod 256) = (h + 1) mod 256" using ht unat_next_slot [of "kbd_head s"] by (simp add: h_def)
  define k where "k = (if t \<le> h then h - t else h + 256 - t)"
  have k: "(h + 256 - t) mod 256 = k" using ht by (simp add: k_def mod_256)
  have h1: "(h + 1) mod 256 = (if h = 255 then 0 else h + 1)" using ht by (simp add: mod_256)
  have "(if h = 255 then 0 else h + 1) \<noteq> t \<longleftrightarrow> k < 255" using ht by (auto simp: k_def)
  then have full: "(kbd_head s + 1) mod 256 \<noteq> kbd_tail s \<longleftrightarrow> k < 255"
    unfolding word_unat_eq_iff nx t_def [symmetric] h1 .
  show ?thesis
  proof (cases "k < 255")
    case True
    have k': "((h + 1) mod 256 + 256 - t) mod 256 = Suc k"
      using True ht unfolding h1 by (auto simp: k_def mod_256 split: if_splits)
    have last: "(t + k) mod 256 = h" using ht by (simp add: k_def mod_256)
    have old: "(t + i) mod 256 \<noteq> h" if "i < k" for i using that ht by (auto simp: k_def mod_256 split: if_splits)
    have ins: "kbd_insert c s = s\<lparr>kbd_buf := (kbd_buf s)[h := c], kbd_head := (kbd_head s + 1) mod 256\<rparr>"
      using True full by (simp add: kbd_insert_def h_def)
    have kc: "kbd_contents s = map (\<lambda>i. kbd_buf s ! ((t + i) mod 256)) [0..<k]"
      by (simp add: kbd_contents_def h_def [symmetric] t_def [symmetric] k)
    have same: "(kbd_buf s)[h := c] ! ((t + i) mod 256) = kbd_buf s ! ((t + i) mod 256)" if "i < k" for i
      using old [OF that] by simp
    have "kbd_contents (kbd_insert c s) = map (\<lambda>i. (kbd_buf s)[h := c] ! ((t + i) mod 256)) [0..<Suc k]"
      using k' by (simp add: kbd_contents_def ins nx t_def [symmetric] del: upt_Suc)
    also have "\<dots> = kbd_contents s @ [c]" using last ht by (simp add: kc same)
    finally show ?thesis using True ht nx by (simp add: kc kbd_ok_def ins t_def [symmetric])
  next
    case False
    with assms full k show ?thesis by (simp add: kbd_insert_def kbd_contents_def h_def t_def)
  qed
qed

lemma kbd_pop_contents:
  assumes "kbd_ok s"
  shows "kbd_ok (snd (kbd_pop s)) \<and>
    (case kbd_contents s of [] \<Rightarrow> fst (kbd_pop s) = None \<and> kbd_contents (snd (kbd_pop s)) = []
     | c # cs \<Rightarrow> fst (kbd_pop s) = Some c \<and> kbd_contents (snd (kbd_pop s)) = cs)"
proof -
  define h t where "h = unat (kbd_head s)" and "t = unat (kbd_tail s)"
  have ht: "h < 256" "t < 256" using assms by (simp_all add: kbd_ok_def h_def t_def)
  have nx: "unat ((kbd_tail s + 1) mod 256) = (t + 1) mod 256" using ht unat_next_slot [of "kbd_tail s"] by (simp add: t_def)
  have ne: "kbd_head s \<noteq> kbd_tail s \<longleftrightarrow> h \<noteq> t" by (simp add: h_def t_def word_unat_eq_iff)
  show ?thesis
  proof (cases "h = t")
    case True
    with assms ne show ?thesis by (simp add: kbd_pop_def kbd_contents_def h_def t_def)
  next
    case False
    define k where "k = (h + 256 - (t + 1) mod 256) mod 256"
    have t1: "(t + 1) mod 256 = (if t = 255 then 0 else t + 1)" using ht by (simp add: mod_256)
    have k: "(h + 256 - t) mod 256 = Suc k" using False ht unfolding k_def t1 by (auto simp: mod_256)
    have "kbd_contents s = kbd_buf s ! t # map (\<lambda>i. kbd_buf s ! (((t + 1) mod 256 + i) mod 256)) [0..<k]"
      using ht unfolding kbd_contents_def h_def [symmetric] t_def [symmetric] k
      by (simp add: upt_conv_Cons map_Suc_upt [symmetric] mod_simps del: upt_Suc)
    with False ne nx ht assms show ?thesis
      by (simp add: kbd_pop_def kbd_contents_def kbd_ok_def h_def [symmetric] t_def [symmetric] k_def)
  qed
qed

interpretation kbd: bounded_queue kbd_insert kbd_pop kbd_contents kbd_ok 255
  by unfold_locales (rule kbd_insert_contents kbd_pop_contents, assumption)+


section \<open>Reading a line\<close>

text \<open>What a reader with room for \<open>n\<close> bytes takes: up to the end of the first line.\<close>

fun first_line :: "nat \<Rightarrow> u8 list \<Rightarrow> u8 list" where
  "first_line 0 q = []"
| "first_line (Suc n) [] = []"
| "first_line (Suc n) (c # q) = c # (if c = 0x0A then [] else first_line n q)"

lemma first_line_prefix: "first_line n q = take (length (first_line n q)) q"
  by (induction n q rule: first_line.induct) auto

lemma length_first_line: "length (first_line n q) \<le> n" "length (first_line n q) \<le> length q"
  by (induction n q rule: first_line.induct) auto

definition stored :: "u64 \<Rightarrow> u8 list \<Rightarrow> bytes_mem \<Rightarrow> bytes_mem" where
  "stored a d m = (\<lambda>x. if unat (x - a) < length d then d ! unat (x - a) else m x)"

lemma stored_Nil [simp]: "stored a [] m = m"
  by (simp add: stored_def)

lemma stored_Cons:
  assumes "length d + 1 < 2 ^ 64"
  shows "stored (a + 1) d (m(a := c)) = stored a (c # d) m"
proof
  fix x
  show "stored (a + 1) d (m(a := c)) x = stored a (c # d) m x"
  proof (cases "x = a")
    case True
    have "x - (a + 1) = - 1" using True by simp
    then have "unat (x - (a + 1)) = 2 ^ 64 - 1" by (simp only: unsigned_minus_1_eq_mask) (simp add: mask_numeral)
    with assms True show ?thesis by (simp add: stored_def)
  next
    case False
    have "unat (x - a) = Suc (unat (x - (a + 1)))"
    proof -
      have e: "1 + (x - (a + 1)) = x - a" by simp
      have "unat (1 + (x - (a + 1))) = Suc (unat (x - (a + 1)))" by (rule unatSuc) (use False e in simp)
      then show ?thesis by (simp only: e)
    qed
    with False show ?thesis by (simp add: stored_def)
  qed
qed

lemma load_bytes_stored: "length d \<le> 2 ^ 64 \<Longrightarrow> load_bytes (stored a d m) a (length d) = d"
  by (rule nth_equalityI) (auto simp: stored_def unat_of_nat)

lemma kbd_contents_kbytes [simp]: "kbd_contents (s\<lparr>kbytes := m\<rparr>) = kbd_contents s" "kbd_ok (s\<lparr>kbytes := m\<rparr>) = kbd_ok s"
  by (simp_all add: kbd_contents_def kbd_ok_def)

lemma drain_line:
  assumes "kbd_ok s" "n \<le> k"
  shows "\<exists>s'. keyboard_drain buffer k n s = (0x0A \<in> set (first_line (unat k - unat n) (kbd_contents s)),
      n + of_nat (length (first_line (unat k - unat n) (kbd_contents s))), s') \<and>
    kbytes s' = stored (buffer + n) (first_line (unat k - unat n) (kbd_contents s)) (kbytes s) \<and>
    kbd_contents s' = drop (length (first_line (unat k - unat n) (kbd_contents s))) (kbd_contents s) \<and> kbd_ok s'"
  using assms
proof (induction buffer k n s rule: keyboard_drain.induct)
  case (1 buffer k n s)
  show ?case
  proof (cases "n < k")
    case False
    with "1.prems" show ?thesis by (subst keyboard_drain.simps) (simp add: word_less_nat_alt word_le_nat_alt)
  next
    case True
    then have k: "unat k - unat n = Suc (unat k - unat (n + 1))" by (simp add: unat_succ_less word_less_nat_alt)
    have n1: "n + 1 \<le> k" using True by (simp add: word_le_nat_alt unat_succ_less word_less_nat_alt)
    obtain x s1 where p: "kbd_pop s = (x, s1)" by (cases "kbd_pop s")
    note law = kbd_pop_contents [OF "1.prems"(1), unfolded p]
    have kb: "kbytes s1 = kbytes s" using p by (auto simp: kbd_pop_def split: if_splits)
    show ?thesis
    proof (cases "kbd_contents s")
      case Nil
      with law True p kb k show ?thesis by (subst keyboard_drain.simps) simp
    next
      case (Cons c q)
      with law have x: "x = Some c" "kbd_contents s1 = q" "kbd_ok s1" by auto
      define s2 where "s2 = s1\<lparr>kbytes := (kbytes s1)(buffer + n := c)\<rparr>"
      have s2: "kbd_contents s2 = q" "kbd_ok s2" "kbytes s2 = (kbytes s)(buffer + n := c)" using x kb by (simp_all add: s2_def)
      show ?thesis
      proof (cases "c = 0x0A")
        case nl: True
        with p x True Cons k s2 stored_Cons [of "[]" "buffer + n" "kbytes s" c] show ?thesis
          by (subst keyboard_drain.simps) (simp add: s2_def)
      next
        case nl: False
        let ?d = "first_line (unat k - unat (n + 1)) q"
        have "length ?d \<le> unat k - unat (n + 1)" by (rule length_first_line)
        then have l: "length ?d + 1 < 2 ^ 64" using unat_u64_less [of k] True
          by (simp add: unat_succ_less word_less_nat_alt)
        from "1.IH" [OF True p [symmetric] x(1) s2_def nl s2(2) n1] obtain s' where
          s': "keyboard_drain buffer k (n + 1) s2 = (0x0A \<in> set ?d, n + 1 + of_nat (length ?d), s')"
          "kbytes s' = stored (buffer + (n + 1)) ?d (kbytes s2)" "kbd_contents s' = drop (length ?d) q" "kbd_ok s'"
          unfolding s2(1) by blast
        have "kbytes s' = stored (buffer + n) (c # ?d) (kbytes s)"
          unfolding s'(2) s2(3) using stored_Cons [OF l, of "buffer + n" "kbytes s" c] by (simp add: add.assoc)
        with s' nl p x True Cons k show ?thesis
          by (subst keyboard_drain.simps) (simp add: s2_def [symmetric] add.assoc)
      qed
    qed
  qed
qed

text \<open>C34: 
  What is typed is read. A read of the keyboard stores the first line that is waiting, or as much of
  it as the buffer takes, at the buffer, answers its length and leaves the rest for the
  next read. When the line is not complete and there is room, the reader goes to sleep, with the
  sequence number the queue had before it looked.\<close>

theorem keyboard_read_line:
  assumes "kbd_ok s" "wait_queues s (sym_kbd_wq E) = Some v" "0 < k" "first_line (unat k) (kbd_contents s) = d"
  shows "\<exists>s'. keyboard_read E buffer k s =
      Some (if 0x0A \<in> set d \<or> length d = unat k then Read_Done (of_nat (length d)) else Read_Wait (wq_seq v) (of_nat (length d)), s') \<and>
    load_bytes (kbytes s') buffer (length d) = d \<and> kbd_contents s = d @ kbd_contents s' \<and> kbd_ok s'"
proof -
  have dk: "length d \<le> unat k" using length_first_line(1) [of "unat k"] assms(4) by blast
  then have l: "length d \<le> 2 ^ 64" "of_nat (length d) = k \<longleftrightarrow> length d = unat k"
    using unat_u64_less [of k] by (auto simp: u64_eq_iff unat_of_nat)
  have k: "0 \<le> k" "k \<noteq> 0" "unat k - unat (0 :: u64) = unat k" using assms(3) by auto
  from drain_line [OF assms(1) k(1), of buffer, unfolded k(3) assms(4)] obtain s' where
    s': "keyboard_drain buffer k 0 s = (0x0A \<in> set d, 0 + of_nat (length d), s')" "kbytes s' = stored (buffer + 0) d (kbytes s)"
    "kbd_contents s' = drop (length d) (kbd_contents s)" "kbd_ok s'" by blast
  have "kbd_contents s = d @ kbd_contents s'"
    using first_line_prefix [of "unat k" "kbd_contents s"] s'(3) assms(4) append_take_drop_id [of "length d" "kbd_contents s"] by simp
  with s' k l assms(2) load_bytes_stored [OF l(1), of buffer "kbytes s"] show ?thesis
    by (simp add: keyboard_read_def keyboard_read_round_def wait_queue_snapshot_def)
qed


text \<open>A console on which a line and a byte of the next one were typed.\<close>

definition example_keyboard :: keyboard_state where
  "example_keyboard = \<lparr>hp_head = NULL, hp_blocks = Map.empty, pmm_initialized = True, kmem = (\<lambda>_. 0), page_table_l4 = NULL,
     tlb_log = [], kernel_memory_map = [], kbytes = (\<lambda>_. 0), ramfs_nodes = Map.empty, tarfs_nodes = Map.empty,
     tarfs_image = NULL, tarfs_image_size = 0, devtmpfs_nodes = Map.empty, fs_mounts = Map.empty, g_drivers = [], g_mounts = [],
     gdt_per_cpu = (\<lambda>_ _. 0), gdt_ptr_per_cpu = (\<lambda>_. \<lparr>gp_limit = 0, gp_base = 0\<rparr>), gdtr = (\<lambda>_. 0), task_register = (\<lambda>_. 0),
     tss_per_cpu = (\<lambda>_. \<lparr>rsp0 = 0, iomap_base = 0\<rparr>), cpu_local_data = (\<lambda>_. \<lparr>cl_kernel_stack = 0, cl_user_stack = 0\<rparr>),
     idt_entries = (\<lambda>_. \<lparr>offset_low = 0, selector = 0, ist = 0, type_attr = 0, offset_mid = 0, offset_high = 0, reserved = 0\<rparr>),
     idt_built = False, idtr = (\<lambda>_. (0, 0)), msr = (\<lambda>_ _. 0), cr0 = (\<lambda>_. 0), cr3 = (\<lambda>_. 0), cr4 = (\<lambda>_. 0),
     interrupts_on = (\<lambda>_. False), port_log = [],
     threads = Map.empty, thread_stacks = Map.empty, frames = Map.empty,
     wait_queues = [0x300 \<mapsto> \<lparr>wq_head = NULL, wq_seq = 7\<rparr>], processes = Map.empty, current_threads = (\<lambda>_. NULL), idle_threads = (\<lambda>_. NULL),
     boot_cr3 = (\<lambda>_. 0), active_cr3 = (\<lambda>_. 0), ready_queue_head = NULL, ready_queue_tail = NULL, zombie_list = NULL,
     pending_zombie = (\<lambda>_. NULL), pending_park = (\<lambda>_. NULL), next_thread_id = 0, context_switch_lock = False,
     process_list_head = NULL, next_pid = 1, current_font = NULL, current_font_size = 0, fb_addr = NULL, backbuffer = NULL,
     fb_width = 0, fb_height = 0, fb_pitch = 0, fb_bpp = 32, serial_used = False, serial_log = [], cursor_x = 0, cursor_y = 0,
     current_fg = 0, current_bg = 0, console_suspended = False,
     kbd_buf = [0x68, 0x69, 0x0A, 0x78] @ replicate 252 0, kbd_head = 4, kbd_tail = 0, keyboard_should_putchar = True,
     shift_left_pressed = False, shift_right_pressed = False\<rparr>"

definition example_env :: keyboard_env where
  "example_env = \<lparr>ce_serial_present = False, ce_serial_mirroring = False, font8x8_basic = (\<lambda>_ _. 0), sym_kbd_wq = 0x300\<rparr>"

lemma example_keyboard: "kbd_ok example_keyboard" "kbd_contents example_keyboard = [0x68, 0x69, 0x0A, 0x78]"
  "wait_queues example_keyboard 0x300 = Some \<lparr>wq_head = NULL, wq_seq = 7\<rparr>"
  by (simp_all add: kbd_ok_def kbd_contents_def example_keyboard_def upt_rec)

theorem keyboard_read_line_witness:
  "\<exists>s'. keyboard_read example_env 0x5000 16 example_keyboard = Some (Read_Done 3, s') \<and>
    load_bytes (kbytes s') 0x5000 3 = [0x68, 0x69, 0x0A] \<and> kbd_contents s' = [0x78]"
proof -
  have "first_line (unat (16 :: u64)) (kbd_contents example_keyboard) = [0x68, 0x69, 0x0A]"
  proof -
    have "unat (16 :: u64) = Suc (Suc (Suc 13))" by simp
    then show ?thesis by (simp only: example_keyboard first_line.simps) simp
  qed
  from keyboard_read_line [OF example_keyboard(1) _ _ this, of example_env _ "0x5000"] show ?thesis
    by (auto simp: example_env_def example_keyboard numeral_3_eq_3)
qed


end
