(* ===== verification/Linux_Io.thy ===== *)
theory Linux_Io
  imports Keyboard
begin

text \<open>
  The Linux system calls on descriptors, files and the console
  (\<^verbatim>\<open>src/exec/syscalls/linux/io.c\<close> and \<^verbatim>\<open>common.c\<close>).

  A handler gets the arguments, the process and the thread of the caller. Its memory is \<open>kbytes\<close>
  in the address space that is active; an access to memory that is not mapped there is not in the
  model. An element of \<open>fds\<close> outside its 32 entries has no defined value. A handler that puts the
  caller to sleep answers what it waits for and how it goes on then.
\<close>

section \<open>Calls and answers\<close>

record syscall_regs =
  sr_arg1 :: u64
  sr_arg2 :: u64
  sr_arg3 :: u64
  sr_arg4 :: u64
  sr_arg5 :: u64
  sr_arg6 :: u64
  sr_syscall_no :: u64
  sr_frame :: u64

text \<open>
  \<open>Sleep wq seq k\<close>: the thread waits until the sequence number of \<open>wq\<close> is no longer \<open>seq\<close>, then goes
  on as \<open>k\<close> says. \<open>Gone\<close>: the thread has ended. \<open>Panic\<close>: the kernel stops.
\<close>

datatype resume =
    Read_More u64 u64 u64
  | Wait4_More int u64 int u64

datatype sys_answer =
    Ret u64
  | Sleep u64 u64 resume
  | Gone
  | Panic

type_synonym 'a sys_result = "(sys_answer \<times> 'a keyboard_state_scheme) option"

text \<open>\<^verbatim>\<open>int x = regs->arg\<close>.\<close>

definition to_int :: "u64 \<Rightarrow> int" where
  "to_int v = sint (ucast v :: u32)"

definition exit_result :: "(exit_answer \<times> 'a keyboard_state_scheme) option \<Rightarrow> 'a sys_result" where
  "exit_result r = map_option (\<lambda>(a, s). (case a of Exit_Returns \<Rightarrow> Ret 0 | Exit_Panic \<Rightarrow> Panic | Exit_Switch \<Rightarrow> Gone, s)) r"

definition store16 :: "u64 \<Rightarrow> u16 \<Rightarrow> bytes_mem \<Rightarrow> bytes_mem" where
  "store16 a v m = m(a := ucast v, a + 1 := ucast (drop_bit 8 v))"

abbreviation (input) ENOENT :: u64 where "ENOENT \<equiv> 2"
abbreviation (input) ESRCH :: u64 where "ESRCH \<equiv> 3"
abbreviation (input) EBADF :: u64 where "EBADF \<equiv> 9"
abbreviation (input) EACCES :: u64 where "EACCES \<equiv> 13"
abbreviation (input) EFAULT :: u64 where "EFAULT \<equiv> 14"
abbreviation (input) ENOTDIR :: u64 where "ENOTDIR \<equiv> 20"
abbreviation (input) EISDIR :: u64 where "EISDIR \<equiv> 21"
abbreviation (input) EINVAL :: u64 where "EINVAL \<equiv> 22"
abbreviation (input) EMFILE :: u64 where "EMFILE \<equiv> 24"
abbreviation (input) EROFS :: u64 where "EROFS \<equiv> 30"
abbreviation (input) ENOSYS :: u64 where "ENOSYS \<equiv> 38"

definition O_APPEND :: u32 where "O_APPEND = 0x400"

section \<open>Descriptors\<close>

definition fd_in_range :: "int \<Rightarrow> bool" where
  "fd_in_range fd \<longleftrightarrow> 0 \<le> fd \<and> fd < int MAX_FILES_PER_PROCESS"

definition get_fd :: "process \<Rightarrow> int \<Rightarrow> file_desc option" where
  "get_fd p fd = (if fd_in_range fd then Some (p_fds p ! nat fd) else None)"

text \<open>\<^verbatim>\<open>fd >= 0 && fd < MAX_FILES_PER_PROCESS && process->fds[fd].used\<close>\<close>

definition fd_open :: "process \<Rightarrow> int \<Rightarrow> bool" where
  "fd_open p fd \<longleftrightarrow> fd_in_range fd \<and> fd_used (p_fds p ! nat fd)"

definition upd_fd :: "u64 \<Rightarrow> int \<Rightarrow> (file_desc \<Rightarrow> file_desc) \<Rightarrow> 'a sched_state_scheme \<Rightarrow> 'a sched_state_scheme option" where
  "upd_fd process fd f s = upd_process process (\<lambda>p. p\<lparr>p_fds := (p_fds p)[nat fd := f (p_fds p ! nat fd)]\<rparr>) s"

definition advance :: "u64 \<Rightarrow> file_desc \<Rightarrow> file_desc" where
  "advance n f = f\<lparr>fd_offset := fd_offset f + n\<rparr>"

section \<open>Reading and writing\<close>

definition count_of :: "u64 option \<Rightarrow> u64" where
  "count_of n = (case n of None \<Rightarrow> 0 | Some n \<Rightarrow> n)"

definition do_read ::
  "'e keyboard_env_scheme \<Rightarrow> u64 \<Rightarrow> int \<Rightarrow> u64 \<Rightarrow> u64 \<Rightarrow> u64 \<Rightarrow> bool \<Rightarrow> 'a keyboard_state_scheme \<Rightarrow> 'a sys_result" where
  "do_read E process fd buf cnt offset update_offset s =
     (if process = NULL then Some (Ret (- 1), s)
      else do {
        p \<leftarrow> processes s process;
        if \<not> fd_open p fd then Some (Ret (- EBADF), s)
        else if fd = 0 then
          map_option (\<lambda>(a, s). (case a of Read_Done n \<Rightarrow> Ret (keyboard_result n)
             | Read_Wait seq n \<Rightarrow> Sleep (sym_kbd_wq E) seq (Read_More buf cnt n), s)) (keyboard_read E buf cnt s)
        else do {
          f \<leftarrow> get_fd p fd;
          if fd_vnode f = NULL then Some (Ret (- EBADF), s)
          else do {
            v \<leftarrow> vnode_at s (fd_vnode f);
            if vn_type v = VNODE_TYPE_DIR then Some (Ret (- EISDIR), s)
            else (case Option.bind (vn_ops v) ops_read of
               None \<Rightarrow> Some (Ret (- EINVAL), s)
             | Some rd \<Rightarrow> do {
                 (res, n, s) \<leftarrow> rd (fd_vnode f) buf cnt offset s;
                 if res \<noteq> 0 then Some (Ret (word_of_int res), s)
                 else do {
                   s \<leftarrow> (if update_offset then upd_fd process fd (advance (count_of n)) s else Some s);
                   Some (Ret (count_of n), s) } }) } } })"

definition do_write ::
  "'e keyboard_env_scheme \<Rightarrow> u64 \<Rightarrow> u64 \<Rightarrow> u64 \<Rightarrow> int \<Rightarrow> 'a keyboard_state_scheme \<Rightarrow> (u64 \<times> 'a keyboard_state_scheme) option" where
  "do_write E process data len fd s =
     (if process = NULL then Some (- 1, s)
      else do {
        p \<leftarrow> processes s process;
        if \<not> fd_open p fd then Some (- EBADF, s)
        else if fd = 1 \<or> fd = 2 then do { s \<leftarrow> user_print E data len s; Some (len, s) }
        else do {
          f \<leftarrow> get_fd p fd;
          if fd_vnode f = NULL then Some (- EBADF, s)
          else do {
            v \<leftarrow> vnode_at s (fd_vnode f);
            if vn_type v = VNODE_TYPE_DIR then Some (- EISDIR, s)
            else (case Option.bind (vn_ops v) ops_write of
               None \<Rightarrow> Some (- EROFS, s)
             | Some wr \<Rightarrow> do {
                 (res, n, s) \<leftarrow> wr (fd_vnode f) data len (fd_offset f) s;
                 if res \<noteq> 0 then Some (word_of_int res, s)
                 else do {
                   s \<leftarrow> upd_fd process fd (advance (count_of n)) s;
                   Some (count_of n, s) } }) } } })"

text \<open>The offset is read before the descriptor is checked.\<close>

definition syscall_linux_read ::
  "'e keyboard_env_scheme \<Rightarrow> syscall_regs \<Rightarrow> u64 \<Rightarrow> 'a keyboard_state_scheme \<Rightarrow> 'a sys_result" where
  "syscall_linux_read E regs process s = do {
     let fd = to_int (sr_arg1 regs);
     p \<leftarrow> processes s process;
     f \<leftarrow> get_fd p fd;
     do_read E process fd (sr_arg2 regs) (sr_arg3 regs) (fd_offset f) True s }"

definition syscall_linux_pread64 ::
  "'e keyboard_env_scheme \<Rightarrow> syscall_regs \<Rightarrow> u64 \<Rightarrow> 'a keyboard_state_scheme \<Rightarrow> 'a sys_result" where
  "syscall_linux_pread64 E regs process s =
     do_read E process (to_int (sr_arg1 regs)) (sr_arg2 regs) (sr_arg3 regs) (sr_arg4 regs) False s"

definition ret :: "(u64 \<times> 'a keyboard_state_scheme) option \<Rightarrow> 'a sys_result" where
  "ret r = map_option (\<lambda>(v, s). (Ret v, s)) r"

definition syscall_linux_write ::
  "'e keyboard_env_scheme \<Rightarrow> syscall_regs \<Rightarrow> u64 \<Rightarrow> 'a keyboard_state_scheme \<Rightarrow> 'a sys_result" where
  "syscall_linux_write E regs process s = ret (do_write E process (sr_arg2 regs) (sr_arg3 regs) (to_int (sr_arg1 regs)) s)"

text \<open>The elements of the vector are a base and a length of eight bytes each.\<close>

fun writev_loop ::
  "'e keyboard_env_scheme \<Rightarrow> u64 \<Rightarrow> int \<Rightarrow> u64 \<Rightarrow> nat list \<Rightarrow> u64 \<Rightarrow> 'a keyboard_state_scheme \<Rightarrow> (u64 \<times> 'a keyboard_state_scheme) option" where
  "writev_loop E process fd iov [] total_len s = Some (total_len, s)"
| "writev_loop E process fd iov (i # is) total_len s = do {
     let base = load64 (kbytes s) (iov + 16 * of_nat i);
     let len = load64 (kbytes s) (iov + 16 * of_nat i + 8);
     (n, s) \<leftarrow> do_write E process base len fd s;
     let len = load64 (kbytes s) (iov + 16 * of_nat i + 8);
     if n = - EBADF then Some (if total_len = 0 then - EBADF else total_len, s)
     else if n < len then Some (total_len + n, s)
     else writev_loop E process fd iov is (total_len + n) s }"

definition syscall_linux_writev ::
  "'e keyboard_env_scheme \<Rightarrow> syscall_regs \<Rightarrow> u64 \<Rightarrow> 'a keyboard_state_scheme \<Rightarrow> 'a sys_result" where
  "syscall_linux_writev E regs process s =
     (if process = NULL then Some (Ret (- 1), s)
      else ret (writev_loop E process (to_int (sr_arg1 regs)) (sr_arg2 regs) [0..<nat (to_int (sr_arg3 regs))] 0 s))"

section \<open>The console\<close>

abbreviation (input) TCGETS :: u64 where "TCGETS \<equiv> 0x5401"
abbreviation (input) TCSETS :: u64 where "TCSETS \<equiv> 0x5402"
abbreviation (input) TIOCGPGRP :: u64 where "TIOCGPGRP \<equiv> 0x540F"
abbreviation (input) TIOCGWINSZ :: u64 where "TIOCGWINSZ \<equiv> 0x5413"

text \<open>In \<^verbatim>\<open>struct termios\<close> \<open>c_lflag\<close> is the fourth word; \<open>ECHO\<close> is octal 10.\<close>

definition syscall_linux_ioctl :: "syscall_regs \<Rightarrow> u64 \<Rightarrow> 'a keyboard_state_scheme \<Rightarrow> 'a sys_result" where
  "syscall_linux_ioctl regs process s =
     (let req = sr_arg2 regs; arg = sr_arg3 regs in
      if req = TCSETS then Some (Ret 0, s\<lparr>keyboard_should_putchar := (load32 (kbytes s) (arg + 12) AND 8 \<noteq> 0)\<rparr>)
      else if req = TCGETS then Some (Ret 0, s\<lparr>kbytes := store32 (arg + 12) 0 (kbytes s)\<rparr>)
      else if req = TIOCGPGRP then
        if arg = NULL \<or> process = NULL then Some (Ret (- EFAULT), s)
        else do { p \<leftarrow> processes s process; Some (Ret 0, s\<lparr>kbytes := store32 arg (p_pid p) (kbytes s)\<rparr>) }
      else if req = TIOCGWINSZ then
        if framebuffer_font_height s = 0 then None
        else let m = store16 (arg + 2) (ucast (fb_height s div framebuffer_font_height s)) (kbytes s);
                 s = s\<lparr>kbytes := m\<rparr>
             in Some (Ret 0, s\<lparr>kbytes := store16 arg (ucast (fb_width s div framebuffer_font_height s)) (kbytes s)\<rparr>)
      else Some (Ret 0, s))"

section \<open>Descriptors again\<close>

text \<open>The sums are \<open>int64_t\<close>; one that overflows is undefined.\<close>

definition int64 :: "int \<Rightarrow> int option" where
  "int64 v = (if - (2 ^ 63) \<le> v \<and> v < 2 ^ 63 then Some v else None)"

definition syscall_linux_lseek :: "syscall_regs \<Rightarrow> u64 \<Rightarrow> 'a keyboard_state_scheme \<Rightarrow> 'a sys_result" where
  "syscall_linux_lseek regs process s =
     (if process = NULL then Some (Ret (- EINVAL), s)
      else do {
        let fd = to_int (sr_arg1 regs);
        let offset = sint (sr_arg2 regs);
        let whence = to_int (sr_arg3 regs);
        p \<leftarrow> processes s process;
        if \<not> fd_open p fd then Some (Ret (- EBADF), s)
        else do {
          f \<leftarrow> get_fd p fd;
          if fd_vnode f = NULL then Some (Ret (- EBADF), s)
          else do {
            v \<leftarrow> vnode_at s (fd_vnode f);
            if whence \<notin> {0, 1, 2} then Some (Ret (- EINVAL), s)
            else do {
              new_offset \<leftarrow> (if whence = 0 then Some offset
                 else if whence = 1 then int64 (sint (fd_offset f) + offset)
                 else int64 (sint (vn_size v) + offset));
              if new_offset < 0 then Some (Ret (- EINVAL), s)
              else do {
                s \<leftarrow> upd_fd process fd (\<lambda>f. f\<lparr>fd_offset := word_of_int new_offset\<rparr>) s;
                Some (Ret (word_of_int new_offset), s) } } } } })"

text \<open>The ready sets and the number of their elements.\<close>

definition select_fd :: "process \<Rightarrow> u64 \<Rightarrow> u64 \<Rightarrow> nat \<Rightarrow> u64 \<times> u64 \<times> nat \<Rightarrow> u64 \<times> u64 \<times> nat" where
  "select_fd p readfds writefds fd st = (case st of (r, w, n) \<Rightarrow>
     let mask = push_bit fd 1 in
     if fd_used (p_fds p ! fd) then
       let (r, n) = (if readfds AND mask \<noteq> 0 then (r OR mask, n + 1) else (r, n));
           (w, n) = (if writefds AND mask \<noteq> 0 then (w OR mask, n + 1) else (w, n))
       in (r, w, n)
     else (r, w, n))"

definition store64_if :: "u64 \<Rightarrow> u64 \<Rightarrow> bytes_mem \<Rightarrow> bytes_mem" where
  "store64_if p v m = (if p \<noteq> NULL then store64 p v m else m)"

definition syscall_linux_pselect6 :: "syscall_regs \<Rightarrow> u64 \<Rightarrow> 'a keyboard_state_scheme \<Rightarrow> 'a sys_result" where
  "syscall_linux_pselect6 regs process s =
     (if process = NULL then Some (Ret (- EINVAL), s)
      else let nfds = to_int (sr_arg1 regs) in
        if nfds < 0 \<or> int MAX_FILES_PER_PROCESS < nfds then Some (Ret (- EINVAL), s)
        else do {
          p \<leftarrow> processes s process;
          let readfds = (if sr_arg2 regs \<noteq> NULL then load64 (kbytes s) (sr_arg2 regs) else 0);
          let writefds = (if sr_arg3 regs \<noteq> NULL then load64 (kbytes s) (sr_arg3 regs) else 0);
          let (r, w, n) = fold (select_fd p readfds writefds) [0..<nat nfds] (0, 0, 0);
          Some (Ret (of_nat n), s\<lparr>kbytes := store64_if (sr_arg4 regs) 0 (store64_if (sr_arg3 regs) w
            (store64_if (sr_arg2 regs) r (kbytes s)))\<rparr>) })"

definition syscall_linux_getcwd :: "syscall_regs \<Rightarrow> 'a keyboard_state_scheme \<Rightarrow> 'a sys_result" where
  "syscall_linux_getcwd regs s =
     (if sr_arg2 regs < 2 then Some (Ret (- 34), s)
      else Some (Ret 2, s\<lparr>kbytes := (kbytes s)(sr_arg1 regs := SLASH, sr_arg1 regs + 1 := 0)\<rparr>))"

text \<open>The fields of \<^verbatim>\<open>struct stat\<close> (144 bytes) that are set.\<close>

definition fill_stat :: "u64 \<Rightarrow> u64 \<Rightarrow> vnode \<Rightarrow> bytes_mem \<Rightarrow> bytes_mem" where
  "fill_stat st node v m =
     store32 (st + 24) (if vn_type v = VNODE_TYPE_DIR then 0x41ED else 0x81A4)
      (store64 (st + 64) ((vn_size v + 511) div 512)
      (store64 (st + 56) 4096
      (store64 (st + 48) (vn_size v)
      (store64 (st + 8) node
      (store64 st 1 m)))))"

definition syscall_linux_fstat :: "syscall_regs \<Rightarrow> u64 \<Rightarrow> 'a keyboard_state_scheme \<Rightarrow> 'a sys_result" where
  "syscall_linux_fstat regs process s =
     (if process = NULL then Some (Ret (- EINVAL), s)
      else let fd = to_int (sr_arg1 regs); statbuf = sr_arg2 regs in
        if statbuf = NULL then Some (Ret (- EFAULT), s)
        else do {
          p \<leftarrow> processes s process;
          if \<not> fd_open p fd then Some (Ret (- EBADF), s)
          else do {
            let s = s\<lparr>kbytes := memset statbuf 0 144 (kbytes s)\<rparr>;
            if fd = 0 \<or> fd = 1 \<or> fd = 2
            then Some (Ret 0, s\<lparr>kbytes := store64 (statbuf + 56) 1024 (store32 (statbuf + 24) 0x21B6 (kbytes s))\<rparr>)
            else do {
              f \<leftarrow> get_fd p fd;
              if fd_vnode f = NULL then Some (Ret (- EBADF), s)
              else do {
                v \<leftarrow> vnode_at s (fd_vnode f);
                Some (Ret 0, s\<lparr>kbytes := fill_stat statbuf (fd_vnode f) v (kbytes s)\<rparr>) } } } })"

section \<open>Opening and closing\<close>

definition user_string :: "bytes_mem \<Rightarrow> u64 \<Rightarrow> u8 list option" where
  "user_string m a = map_option (load_bytes m a) (strlen m a)"

text \<open>The first descriptor from 3 on that is not in use.\<close>

definition free_fd :: "process \<Rightarrow> nat option" where
  "free_fd p = find (\<lambda>i. \<not> fd_used (p_fds p ! i)) [3..<MAX_FILES_PER_PROCESS]"

definition open_path :: "u64 \<Rightarrow> u64 \<Rightarrow> u32 \<Rightarrow> 'a keyboard_state_scheme \<Rightarrow> 'a sys_result" where
  "open_path process path flags s =
     (if process = NULL then Some (Ret (- EINVAL), s)
      else if path = NULL then Some (Ret (- EFAULT), s)
      else do {
        p \<leftarrow> processes s process;
        (case free_fd p of
           None \<Rightarrow> Some (Ret (- EMFILE), s)
         | Some fd \<Rightarrow> do {
             name \<leftarrow> user_string (kbytes s) path;
             (res, node, s) \<leftarrow> vfs_open name flags s;
             if res \<noteq> 0 then Some (Ret (word_of_int res), s)
             else do {
               node \<leftarrow> node;
               v \<leftarrow> (if flags AND O_APPEND \<noteq> 0 then map_option vn_size (vnode_at s node) else Some 0);
               s \<leftarrow> upd_fd process (int fd) (\<lambda>_. \<lparr>fd_vnode = node, fd_offset = v, fd_flags = flags, fd_used = True\<rparr>) s;
               Some (Ret (of_nat fd), s) } }) })"

definition syscall_linux_open :: "syscall_regs \<Rightarrow> u64 \<Rightarrow> 'a keyboard_state_scheme \<Rightarrow> 'a sys_result" where
  "syscall_linux_open regs process s = open_path process (sr_arg1 regs) (ucast (sr_arg2 regs)) s"

definition syscall_linux_openat :: "syscall_regs \<Rightarrow> u64 \<Rightarrow> 'a keyboard_state_scheme \<Rightarrow> 'a sys_result" where
  "syscall_linux_openat regs process s = open_path process (sr_arg2 regs) (ucast (sr_arg3 regs)) s"

definition syscall_linux_close :: "syscall_regs \<Rightarrow> u64 \<Rightarrow> 'a keyboard_state_scheme \<Rightarrow> 'a sys_result" where
  "syscall_linux_close regs process s =
     (if process = NULL then Some (Ret (- EINVAL), s)
      else do {
        let fd = to_int (sr_arg1 regs);
        p \<leftarrow> processes s process;
        if \<not> fd_open p fd then Some (Ret (- EBADF), s)
        else do { s \<leftarrow> upd_fd process fd (\<lambda>_. zero_fd) s; Some (Ret 0, s) } })"

section \<open>Polling\<close>

abbreviation (input) POLLIN :: u16 where "POLLIN \<equiv> 0x001"
abbreviation (input) POLLOUT :: u16 where "POLLOUT \<equiv> 0x004"
abbreviation (input) POLLNVAL :: u16 where "POLLNVAL \<equiv> 0x020"

definition poll_events :: "process \<Rightarrow> int \<Rightarrow> u16 \<Rightarrow> 'a vfs_state_scheme \<Rightarrow> u16 option" where
  "poll_events p fd events s = do {
     let out = (if events AND POLLOUT \<noteq> 0 then POLLOUT else 0);
     f \<leftarrow> get_fd p fd;
     readable \<leftarrow> (if events AND POLLIN = 0 then Some False
        else if fd = 0 then Some True
        else if fd_vnode f = NULL then Some False
        else map_option (\<lambda>v. fd_offset f < vn_size v) (vnode_at s (fd_vnode f)));
     Some (out OR (if readable then POLLIN else 0)) }"

text \<open>One element of eight bytes: the descriptor, the events and the answer.\<close>

definition poll_one :: "u64 \<Rightarrow> u64 \<Rightarrow> nat \<Rightarrow> nat \<times> 'a keyboard_state_scheme \<Rightarrow> (nat \<times> 'a keyboard_state_scheme) option" where
  "poll_one process fds i st = (case st of (ready, s) \<Rightarrow>
     (let a = fds + 8 * of_nat i;
          s = s\<lparr>kbytes := store16 (a + 6) 0 (kbytes s)\<rparr>;
          fd = sint (load32 (kbytes s) a);
          events = (ucast (kbytes s (a + 4)) OR push_bit 8 (ucast (kbytes s (a + 5))) :: u16)
      in if fd < 0 then Some (ready, s)
         else do {
           p \<leftarrow> processes s process;
           if \<not> fd_open p fd then Some (ready + 1, s\<lparr>kbytes := store16 (a + 6) POLLNVAL (kbytes s)\<rparr>)
           else do {
             r \<leftarrow> poll_events p fd events s;
             Some (if r \<noteq> 0 then ready + 1 else ready, s\<lparr>kbytes := store16 (a + 6) r (kbytes s)\<rparr>) } }))"

definition syscall_linux_poll :: "syscall_regs \<Rightarrow> u64 \<Rightarrow> 'a keyboard_state_scheme \<Rightarrow> 'a sys_result" where
  "syscall_linux_poll regs process s =
     map_option (\<lambda>(ready, s). (Ret (of_nat ready), s))
       (for_each (poll_one process (sr_arg1 regs)) [0..<unat (sr_arg2 regs)] (0, s))"

section \<open>Files by name\<close>

definition syscall_linux_access :: "syscall_regs \<Rightarrow> u64 \<Rightarrow> 'a keyboard_state_scheme \<Rightarrow> 'a sys_result" where
  "syscall_linux_access regs process s =
     (if process = NULL then Some (Ret (- EINVAL), s)
      else let pathname = sr_arg1 regs; mode = (ucast (sr_arg2 regs) :: u32) in
        if pathname = NULL then Some (Ret (- EFAULT), s)
        else do {
          name \<leftarrow> user_string (kbytes s) pathname;
          (res, node, s) \<leftarrow> vfs_open name 0 s;
          if res \<noteq> 0 then Some (Ret (word_of_int res), s)
          else if mode = 0 then Some (Ret 0, s)
          else do {
            node \<leftarrow> node;
            v \<leftarrow> vnode_at s node;
            let st_mode = (if vn_type v = VNODE_TYPE_DIR then 0x41ED else 0x81A4 :: u32);
            if mode AND 4 \<noteq> 0 \<and> st_mode AND 0x124 = 0 then Some (Ret (- EACCES), s)
            else if mode AND 2 \<noteq> 0 \<and> st_mode AND 0x92 = 0 then Some (Ret (- EACCES), s)
            else if mode AND 1 \<noteq> 0 \<and> st_mode AND 0x49 = 0 then Some (Ret (- EACCES), s)
            else Some (Ret 0, s) } })"

definition syscall_linux_newfstatat :: "syscall_regs \<Rightarrow> u64 \<Rightarrow> 'a keyboard_state_scheme \<Rightarrow> 'a sys_result" where
  "syscall_linux_newfstatat regs process s =
     (if process = NULL then Some (Ret (- EINVAL), s)
      else let filename = sr_arg2 regs; statbuf = sr_arg3 regs in
        if filename = NULL \<or> statbuf = NULL then Some (Ret (- EFAULT), s)
        else do {
          name \<leftarrow> user_string (kbytes s) filename;
          (res, node, s) \<leftarrow> vfs_open name 0 s;
          if res \<noteq> 0 then Some (Ret (word_of_int res), s)
          else do {
            node \<leftarrow> node;
            let s = s\<lparr>kbytes := memset statbuf 0 144 (kbytes s)\<rparr>;
            v \<leftarrow> vnode_at s node;
            Some (Ret 0, s\<lparr>kbytes := fill_stat statbuf node v (kbytes s)\<rparr>) } })"

text \<open>
  A directory entry has 19 bytes before its name; entries are padded to eight bytes. \<open>put_dirent\<close> writes
  one, \<open>dirents_loop\<close> those that fit.
\<close>

definition put_name :: "u64 \<Rightarrow> u8 list \<Rightarrow> bytes_mem \<Rightarrow> bytes_mem" where
  "put_name a cs m = fold (\<lambda>i m. m(a + of_nat i := cs ! i)) [0..<length cs] m"

definition dirent_length :: "nat \<Rightarrow> u64" where
  "dirent_length name_len = (19 + of_nat name_len + 1 + 7) AND NOT 7"

definition put_dirent :: "u64 \<Rightarrow> u64 \<Rightarrow> vfs_dirent \<Rightarrow> bytes_mem \<Rightarrow> bytes_mem" where
  "put_dirent d index entry m =
     (let name_len = length (de_name entry);
          reclen = dirent_length name_len;
          used_len = 19 + of_nat name_len + 1;
          m = store64 d (de_ino entry) m;
          m = store64 (d + 8) (index + 1) m;
          m = store16 (d + 16) (ucast reclen) m;
          m = m(d + 18 := de_type entry);
          m = put_name (d + 19) (de_name entry) m;
          m = m(d + 19 + of_nat name_len := 0)
      in if used_len < reclen then memset (d + used_len) 0 (reclen - used_len) m else m)"

partial_function (option) dirents_loop ::
  "(u64 \<Rightarrow> u64 \<Rightarrow> 'a keyboard_state_scheme \<Rightarrow> (int \<times> vfs_dirent option) option) \<Rightarrow> u64 \<Rightarrow> u64 \<Rightarrow> u64 \<Rightarrow> u64 \<Rightarrow> u64 \<Rightarrow>
   'a keyboard_state_scheme \<Rightarrow> (u64 \<times> u64 \<times> 'a keyboard_state_scheme) option" where
  "dirents_loop readdir dir user_buf cnt written index s =
     (if \<not> written < cnt then Some (written, index, s)
      else do {
        (res, e) \<leftarrow> readdir dir index s;
        if res < 0 then Some (written, index, s)
        else do {
          entry \<leftarrow> e;
          let reclen = dirent_length (length (de_name entry));
          if cnt - written < reclen then Some (written, index, s)
          else dirents_loop readdir dir user_buf cnt (written + reclen) (index + 1)
                 (s\<lparr>kbytes := put_dirent (user_buf + written) index entry (kbytes s)\<rparr>) } })"

text \<open>The descriptor is not checked.\<close>

definition syscall_linux_getdents64 :: "syscall_regs \<Rightarrow> u64 \<Rightarrow> 'a keyboard_state_scheme \<Rightarrow> 'a sys_result" where
  "syscall_linux_getdents64 regs process s =
     (if process = NULL then Some (Ret (- EINVAL), s)
      else let fd = to_int (sr_arg1 regs); user_buf = sr_arg2 regs; cnt = sr_arg3 regs in
        if user_buf = NULL then Some (Ret (- EFAULT), s)
        else if cnt = 0 then Some (Ret 0, s)
        else do {
          p \<leftarrow> processes s process;
          f \<leftarrow> get_fd p fd;
          if fd_vnode f = NULL then Some (Ret (- EBADF), s)
          else do {
            v \<leftarrow> vnode_at s (fd_vnode f);
            if vn_type v \<noteq> VNODE_TYPE_DIR then Some (Ret (- ENOTDIR), s)
            else (case Option.bind (vn_ops v) ops_readdir of
               None \<Rightarrow> Some (Ret (- ENOTDIR), s)
             | Some readdir \<Rightarrow> do {
                 (written, index, s) \<leftarrow> dirents_loop readdir (fd_vnode f) user_buf cnt 0 (fd_offset f) s;
                 s \<leftarrow> upd_fd process fd (\<lambda>f. f\<lparr>fd_offset := index\<rparr>) s;
                 Some (Ret (scast (ucast written :: u32)), s) }) } })"

section \<open>The rest\<close>

definition ARCH_SET_GS :: u64 where "ARCH_SET_GS = 0x1001"
definition ARCH_SET_FS :: u64 where "ARCH_SET_FS = 0x1002"
definition ARCH_GET_FS :: u64 where "ARCH_GET_FS = 0x1003"
definition ARCH_GET_GS :: u64 where "ARCH_GET_GS = 0x1004"

definition get_base :: "u8 \<Rightarrow> u32 \<Rightarrow> u64 \<Rightarrow> 'a keyboard_state_scheme \<Rightarrow> 'a sys_result" where
  "get_base cpu reg addr s =
     (if addr = NULL then Some (Ret (- 1), s) else Some (Ret 0, s\<lparr>kbytes := store64 addr (read_msr cpu reg s) (kbytes s)\<rparr>))"

definition syscall_linux_arch_prctl :: "u8 \<Rightarrow> syscall_regs \<Rightarrow> 'a keyboard_state_scheme \<Rightarrow> 'a sys_result" where
  "syscall_linux_arch_prctl cpu regs s =
     (let code = sr_arg1 regs; addr = sr_arg2 regs in
      if code = ARCH_SET_FS then Some (Ret 0, write_msr cpu IA32_FS_BASE addr s)
      else if code = ARCH_GET_FS then get_base cpu IA32_FS_BASE addr s
      else if code = ARCH_SET_GS then Some (Ret 0, write_msr cpu IA32_GS_BASE addr s)
      else if code = ARCH_GET_GS then get_base cpu IA32_GS_BASE addr s
      else Some (Ret (- ENOSYS), s))"

definition syscall_linux_stub_unimplemented :: "'a keyboard_state_scheme \<Rightarrow> 'a sys_result" where
  "syscall_linux_stub_unimplemented s = Some (Ret 0, s)"

text \<open>The six fields of \<^verbatim>\<open>struct utsname\<close> have 65 bytes each.\<close>

definition UTOPIA_VERSION :: "u8 list" where
  "UTOPIA_VERSION = ascii ''beta@2.1.0''"

definition syscall_linux_uname :: "syscall_regs \<Rightarrow> 'a keyboard_state_scheme \<Rightarrow> 'a sys_result" where
  "syscall_linux_uname regs s =
     (let a = sr_arg1 regs;
          put = (\<lambda>k str. put_name (a + 65 * k) (str @ [0]))
      in Some (Ret 0, s\<lparr>kbytes := put 5 [] (put 4 (ascii ''x86_64'') (put 3 (ascii ''(no build information)'')
           (put 2 UTOPIA_VERSION (put 1 (ascii ''example-computer-lol'') (put 0 (ascii ''Utopia'') (kbytes s))))))\<rparr>))"

definition syscall_linux_set_tid_address :: "syscall_regs \<Rightarrow> u64 \<Rightarrow> 'a keyboard_state_scheme \<Rightarrow> 'a sys_result" where
  "syscall_linux_set_tid_address regs thread s = do {
     t \<leftarrow> threads s thread;
     Some (Ret (ucast (t_id t)), if sr_arg1 regs \<noteq> NULL then s\<lparr>kbytes := store32 (sr_arg1 regs) (t_id t) (kbytes s)\<rparr> else s) }"

definition syscall_linux_getrandom :: "syscall_regs \<Rightarrow> 'a keyboard_state_scheme \<Rightarrow> 'a sys_result" where
  "syscall_linux_getrandom regs s =
     (if sr_arg1 regs = NULL then Some (Ret (- EFAULT), s)
      else Some (Ret (sr_arg2 regs), s\<lparr>kbytes := fold (\<lambda>i m. m(sr_arg1 regs + of_nat i := of_nat i XOR 0x5A)) [0..<unat (sr_arg2 regs)] (kbytes s)\<rparr>))"

text \<open>\<open>getpgrp\<close>, \<open>getsid\<close> and \<open>setsid\<close> have the same body.\<close>

definition own_pid :: "u64 \<Rightarrow> 'a keyboard_state_scheme \<Rightarrow> 'a sys_result" where
  "own_pid process s =
     (if process = NULL then Some (Ret (- EINVAL), s) else do { p \<leftarrow> processes s process; Some (Ret (ucast (p_pid p)), s) })"

definition syscall_linux_getpgid :: "syscall_regs \<Rightarrow> u64 \<Rightarrow> 'a keyboard_state_scheme \<Rightarrow> 'a sys_result" where
  "syscall_linux_getpgid regs process s =
     (if process = NULL then Some (Ret (- EINVAL), s)
      else do { p \<leftarrow> processes s process; Some (Ret (if sr_arg1 regs = 0 then ucast (p_pid p) else sr_arg1 regs), s) })"

definition syscall_linux_setpgid :: "'a keyboard_state_scheme \<Rightarrow> 'a sys_result" where
  "syscall_linux_setpgid s = Some (Ret 0, s)"

definition syscall_linux_rt_sigprocmask :: "syscall_regs \<Rightarrow> 'a keyboard_state_scheme \<Rightarrow> 'a sys_result" where
  "syscall_linux_rt_sigprocmask regs s =
     (if 128 < sr_arg4 regs then Some (Ret (- EINVAL), s)
      else Some (Ret 0, if sr_arg3 regs \<noteq> NULL then s\<lparr>kbytes := memset (sr_arg3 regs) 0 (sr_arg4 regs) (kbytes s)\<rparr> else s))"

definition syscall_linux_rt_sigaction :: "syscall_regs \<Rightarrow> 'a keyboard_state_scheme \<Rightarrow> 'a sys_result" where
  "syscall_linux_rt_sigaction regs s =
     Some (Ret 0, if sr_arg3 regs \<noteq> NULL then s\<lparr>kbytes := memset (sr_arg3 regs) 0 24 (kbytes s)\<rparr> else s)"

definition syscall_linux_tgkill ::
  "'e keyboard_env_scheme \<Rightarrow> 'b kernel_build_scheme \<Rightarrow> u8 \<Rightarrow> syscall_regs \<Rightarrow> u64 \<Rightarrow> u64 \<Rightarrow> 'a keyboard_state_scheme \<Rightarrow> 'a sys_result" where
  "syscall_linux_tgkill E K cpu regs process thread s = do {
     p \<leftarrow> processes s process;
     t \<leftarrow> threads s thread;
     if sr_arg1 regs \<noteq> ucast (p_pid p) \<or> sr_arg2 regs \<noteq> ucast (t_id t) then Some (Ret (- ESRCH), s)
     else if sr_arg3 regs = 0 then Some (Ret 0, s)
     else if sr_arg3 regs \<noteq> 6 then Some (Ret (- ENOSYS), s)
     else do {
       s \<leftarrow> printf E (ascii ''abort.'' @ [0x0A]) [] s;
       exit_result (thread_exit_status K cpu 6 s) } }"

definition syscall_linux_exit :: "'b kernel_build_scheme \<Rightarrow> u8 \<Rightarrow> syscall_regs \<Rightarrow> 'a keyboard_state_scheme \<Rightarrow> 'a sys_result" where
  "syscall_linux_exit K cpu regs s = exit_result (thread_exit_status K cpu (push_bit 8 (ucast (sr_arg1 regs AND 0xff))) s)"

end
