(* ===== verification/Elf.thy ===== *)
theory Elf
  imports Screen
begin

text \<open>
  The program loader, \<^verbatim>\<open>src/exec/loaders/elf.c\<close>: reading the headers of an ELF image, mapping and
  filling its segments, the dynamic section with its relocations and symbols, the interpreter, and
  the first stack of a process.

  The image is bytes of memory at the address the caller gives; headers are read from it where the
  code reads them, unaligned and in little-endian order, so a header out of the image is what lies
  there. Pages are written through the direct map. A string is read up to its terminator.
\<close>

section \<open>Structures in the img_data\<close>

definition load16 :: "bytes_mem \<Rightarrow> u64 \<Rightarrow> u16" where
  "load16 m a = ucast (m a) OR push_bit 8 (ucast (m (a + 1)))"

record elf64_ehdr =
  e_ident :: "u8 list"
  e_type :: u16
  e_machine :: u16
  e_entry :: u64
  e_phoff :: u64
  e_phentsize :: u16
  e_phnum :: u16

definition ehdr_at :: "bytes_mem \<Rightarrow> u64 \<Rightarrow> elf64_ehdr" where
  "ehdr_at m a = \<lparr>e_ident = load_bytes m a 16, e_type = load16 m (a + 16), e_machine = load16 m (a + 18),
     e_entry = load64 m (a + 24), e_phoff = load64 m (a + 32), e_phentsize = load16 m (a + 54), e_phnum = load16 m (a + 56)\<rparr>"

abbreviation SIZEOF_EHDR :: u64 where "SIZEOF_EHDR \<equiv> 64"

record elf64_phdr =
  p_type :: u32
  p_flags :: u32
  p_offset :: u64
  p_vaddr :: u64
  p_filesz :: u64
  p_memsz :: u64

definition phdr_at :: "bytes_mem \<Rightarrow> u64 \<Rightarrow> elf64_phdr" where
  "phdr_at m a = \<lparr>p_type = load32 m a, p_flags = load32 m (a + 4), p_offset = load64 m (a + 8), p_vaddr = load64 m (a + 16),
     p_filesz = load64 m (a + 32), p_memsz = load64 m (a + 40)\<rparr>"

record elf64_dyn =
  d_tag :: u64
  d_val :: u64

definition dyn_at :: "bytes_mem \<Rightarrow> u64 \<Rightarrow> elf64_dyn" where
  "dyn_at m a = \<lparr>d_tag = load64 m a, d_val = load64 m (a + 8)\<rparr>"

record elf64_rela =
  r_offset :: u64
  r_info :: u64
  r_addend :: u64

definition rela_at :: "bytes_mem \<Rightarrow> u64 \<Rightarrow> elf64_rela" where
  "rela_at m a = \<lparr>r_offset = load64 m a, r_info = load64 m (a + 8), r_addend = load64 m (a + 16)\<rparr>"

record elf64_sym =
  st_name :: u32
  st_shndx :: u16
  st_value :: u64

definition sym_at :: "bytes_mem \<Rightarrow> u64 \<Rightarrow> elf64_sym" where
  "sym_at m a = \<lparr>st_name = load32 m a, st_shndx = load16 m (a + 6), st_value = load64 m (a + 8)\<rparr>"

abbreviation (input) ET_EXEC :: u16 where "ET_EXEC \<equiv> 2"
abbreviation (input) ET_DYN :: u16 where "ET_DYN \<equiv> 3"
abbreviation (input) EM_X86_64 :: u16 where "EM_X86_64 \<equiv> 0x3e"
abbreviation (input) PT_LOAD :: u32 where "PT_LOAD \<equiv> 1"
abbreviation (input) PT_DYNAMIC :: u32 where "PT_DYNAMIC \<equiv> 2"
abbreviation (input) PT_INTERP :: u32 where "PT_INTERP \<equiv> 3"
abbreviation (input) PT_PHDR :: u32 where "PT_PHDR \<equiv> 6"
abbreviation (input) SIZEOF_RELA :: u64 where "SIZEOF_RELA \<equiv> 24"
abbreviation (input) SIZEOF_SYM :: u64 where "SIZEOF_SYM \<equiv> 24"
abbreviation (input) SIZEOF_DYN :: u64 where "SIZEOF_DYN \<equiv> 16"

definition ELF_PIE_BASE :: u64 where "ELF_PIE_BASE = 0x555555554000"
definition ELF_INTERP_BASE :: u64 where "ELF_INTERP_BASE = 0x7f0000000000"
abbreviation (input) ELF_INTERP_PATH_MAX :: u64 where "ELF_INTERP_PATH_MAX \<equiv> 256"

record elf_image =
  im_data :: u64
  im_size :: u64
  im_phdrs :: u64
  im_phnum :: u16
  im_phentsize :: u16

datatype elf_load_status =
    ELF_OK
  | ELF_ERR_BAD_MAGIC
  | ELF_ERR_BAD_CLASS
  | ELF_ERR_BAD_ENDIAN
  | ELF_ERR_BAD_MACHINE
  | ELF_ERR_BAD_TYPE
  | ELF_ERR_TRUNCATED
  | ELF_ERR_NO_MEMORY
  | ELF_ERR_MAP_FAILED
  | ELF_ERR_BAD_DYNAMIC
  | ELF_ERR_RELOC_TARGET_UNMAPPED
  | ELF_ERR_DYNTABLE_NOT_FOUND
  | ELF_ERR_INTERP_TOO_LONG
  | ELF_ERR_INTERP_NOT_FOUND
  | ELF_ERR_INTERP_LOAD_FAILED

record elf_load_result =
  er_status :: elf_load_status
  er_entry :: u64
  er_load_bias :: u64
  er_lowest_vaddr :: u64
  er_highest_vaddr :: u64
  er_phdr_vaddr :: u64
  er_phnum :: u16
  er_phentsize :: u16
  er_is_pie :: bool
  er_has_interp :: bool
  er_interp_path :: "u8 list"
  er_symtab_vaddr :: u64
  er_strtab_vaddr :: u64
  er_strtab_size :: u64
  er_sym_count :: u64

definition zero_result :: elf_load_result where
  "zero_result = \<lparr>er_status = ELF_OK, er_entry = 0, er_load_bias = 0, er_lowest_vaddr = 0, er_highest_vaddr = 0,
     er_phdr_vaddr = 0, er_phnum = 0, er_phentsize = 0, er_is_pie = False, er_has_interp = False, er_interp_path = [],
     er_symtab_vaddr = 0, er_strtab_vaddr = 0, er_strtab_size = 0, er_sym_count = 0\<rparr>"

record elf_object =
  ob_image :: elf_image
  ob_load_bias :: u64
  ob_symtab_vaddr :: u64
  ob_strtab_vaddr :: u64
  ob_strtab_size :: u64
  ob_sym_count :: u64

section \<open>Addresses\<close>

definition page_flags_for :: "u32 \<Rightarrow> vm_flags" where
  "page_flags_for flags =
     (if flags AND 0x2 \<noteq> 0 then VMF_WRITE else 0) OR VMF_USER OR (if flags AND 0x1 \<noteq> 0 then VMF_EXEC else 0)"

text \<open>The walk of the loader has its own copy of the one in \<^verbatim>\<open>vmm.c\<close>.\<close>

fun uv2kv_walk :: "'b kernel_build_scheme \<Rightarrow> (u64 \<Rightarrow> u64) \<Rightarrow> u64 \<Rightarrow> nat \<Rightarrow> u64 \<Rightarrow> u64" where
  "uv2kv_walk K m vaddr 0 table =
     (let entry = m (slot table (pt_index vaddr 0)) in
      if \<not> pte_present (arch K) entry then NULL
      else phys_to_virt K (pte_phys (arch K) entry) + (vaddr AND 0xFFF))"
| "uv2kv_walk K m vaddr (Suc l) table =
     (let level = Suc l; entry = m (slot table (pt_index vaddr level)) in
      if \<not> pte_present (arch K) entry then NULL
      else if pte_is_leaf (arch K) entry level
      then phys_to_virt K (pte_phys (arch K) entry) + (vaddr AND (push_bit (12 + level * 9) 1 - 1))
      else uv2kv_walk K m vaddr l (phys_to_virt K (pte_phys (arch K) entry)))"

definition elf_uv2kv :: "'b kernel_build_scheme \<Rightarrow> u64 \<Rightarrow> u64 \<Rightarrow> 'a mem_state_scheme \<Rightarrow> u64" where
  "elf_uv2kv K l4_table vaddr s = uv2kv_walk K (kmem s) vaddr PT_TOP_LEVEL l4_table"

text \<open>The place in the file behind an address, if \<open>need\<close> bytes of one loaded segment are there.\<close>

definition phdr_fileptr :: "elf_image \<Rightarrow> elf64_phdr \<Rightarrow> u64 \<Rightarrow> u64 \<Rightarrow> u64 option" where
  "phdr_fileptr img ph vaddr need_size =
     (if p_type ph \<noteq> PT_LOAD then None
      else if p_vaddr ph \<le> vaddr \<and> vaddr < p_vaddr ph + p_filesz ph then
        let offset_in_phdr = vaddr - p_vaddr ph in
        if need_size \<le> p_filesz ph - offset_in_phdr then
          let off = p_offset ph + offset_in_phdr in
          if off + need_size \<le> im_size img then Some (im_data img + off) else None
        else None
      else None)"

definition image_phdr :: "bytes_mem \<Rightarrow> elf_image \<Rightarrow> nat \<Rightarrow> elf64_phdr" where
  "image_phdr m img i = phdr_at m (im_phdrs img + of_nat i * ucast (im_phentsize img))"

definition elf_vaddr_to_fileptr :: "elf_image \<Rightarrow> u64 \<Rightarrow> u64 \<Rightarrow> bytes_mem \<Rightarrow> u64" where
  "elf_vaddr_to_fileptr img vaddr need_size m =
     (case List.map_filter (\<lambda>i. phdr_fileptr img (image_phdr m img i) vaddr need_size) [0..<unat (im_phnum img)] of
        [] \<Rightarrow> NULL | p # _ \<Rightarrow> p)"

section \<open>Symbols\<close>

definition elf_symbol_name_raw :: "elf_image \<Rightarrow> u64 \<Rightarrow> u64 \<Rightarrow> u32 \<Rightarrow> bytes_mem \<Rightarrow> u64" where
  "elf_symbol_name_raw img strtab_vaddr strtab_size name m =
     (if strtab_vaddr = 0 \<or> strtab_size \<le> ucast name then NULL
      else elf_vaddr_to_fileptr img (strtab_vaddr + ucast name) 1 m)"

primrec streq_loop :: "bytes_mem \<Rightarrow> nat \<Rightarrow> u64 \<Rightarrow> u64 \<Rightarrow> bool" where
  "streq_loop m 0 a b = False"
| "streq_loop m (Suc k) a b =
     (if m a \<noteq> m b then False else if m a = 0 then True else streq_loop m k (a + 1) (b + 1))"

definition elf_streq :: "u64 \<Rightarrow> u64 \<Rightarrow> bytes_mem \<Rightarrow> bool" where
  "elf_streq a b m = streq_loop m 512 a b"

text \<open>\<^verbatim>\<open>for (i = sym_count - left; i < sym_count; i++)\<close>\<close>

primrec find_symbol_loop :: "bytes_mem \<Rightarrow> elf_object \<Rightarrow> u64 \<Rightarrow> nat \<Rightarrow> u64 option" where
  "find_symbol_loop m mdl name 0 = None"
| "find_symbol_loop m mdl name (Suc left) =
     (let i = ob_sym_count mdl - of_nat (Suc left);
          p = elf_vaddr_to_fileptr (ob_image mdl) (ob_symtab_vaddr mdl + i * SIZEOF_SYM) SIZEOF_SYM m;
          sym = sym_at m p;
          cand = elf_symbol_name_raw (ob_image mdl) (ob_strtab_vaddr mdl) (ob_strtab_size mdl) (st_name sym) m
      in if p = NULL then None
         else if st_name sym = 0 \<or> st_shndx sym = 0 then find_symbol_loop m mdl name left
         else if cand = NULL then find_symbol_loop m mdl name left
         else if elf_streq cand name m then Some (ob_load_bias mdl + st_value sym)
         else find_symbol_loop m mdl name left)"

definition elf_module_find_symbol :: "elf_object \<Rightarrow> u64 \<Rightarrow> bytes_mem \<Rightarrow> u64 option" where
  "elf_module_find_symbol mdl name m =
     (if ob_symtab_vaddr mdl = 0 \<or> ob_strtab_vaddr mdl = 0 \<or> ob_sym_count mdl = 0 then None
      else find_symbol_loop m mdl name (unat (ob_sym_count mdl) - 1))"

fun elf_resolve_external_symbol :: "elf_object list \<Rightarrow> u64 \<Rightarrow> bytes_mem \<Rightarrow> u64 option" where
  "elf_resolve_external_symbol [] name m = None"
| "elf_resolve_external_symbol (mdl # mdls) name m =
     (case elf_module_find_symbol mdl name m of Some v \<Rightarrow> Some v | None \<Rightarrow> elf_resolve_external_symbol mdls name m)"

section \<open>Relocations\<close>

abbreviation (input) R_X86_64_64 :: u32 where "R_X86_64_64 \<equiv> 1"
abbreviation (input) R_X86_64_GLOB_DAT :: u32 where "R_X86_64_GLOB_DAT \<equiv> 6"
abbreviation (input) R_X86_64_JUMP_SLOT :: u32 where "R_X86_64_JUMP_SLOT \<equiv> 7"
abbreviation (input) R_X86_64_RELATIVE :: u32 where "R_X86_64_RELATIVE \<equiv> 8"

text \<open>What a relocation stores, or nothing.\<close>

definition rela_value ::
  "elf_image \<Rightarrow> u64 \<Rightarrow> u64 \<Rightarrow> u64 \<Rightarrow> u64 \<Rightarrow> elf_object list \<Rightarrow> elf64_rela \<Rightarrow> bytes_mem \<Rightarrow> u64 option" where
  "rela_value img load_bias symtab_vaddr strtab_vaddr strtab_size ext_modules rel m =
     (let type = (ucast (r_info rel) :: u32); sym_idx = drop_bit 32 (r_info rel) in
      if type = R_X86_64_RELATIVE then Some (load_bias + r_addend rel)
      else if type = R_X86_64_64 \<or> type = R_X86_64_GLOB_DAT \<or> type = R_X86_64_JUMP_SLOT then
        if symtab_vaddr = 0 then None
        else let p = elf_vaddr_to_fileptr img (symtab_vaddr + sym_idx * SIZEOF_SYM) SIZEOF_SYM m;
                 sym = sym_at m p;
                 name = elf_symbol_name_raw img strtab_vaddr strtab_size (st_name sym) m;
                 addend = (if type = R_X86_64_64 then r_addend rel else 0)
             in if p = NULL then None
                else if st_shndx sym = 0 then
                  if name = NULL then None
                  else map_option (\<lambda>resolved. resolved + addend) (elf_resolve_external_symbol ext_modules name m)
                else Some (load_bias + st_value sym + addend)
      else None)"

definition elf_apply_rela_table ::
  "'b kernel_build_scheme \<Rightarrow> elf_image \<Rightarrow> u64 \<Rightarrow> u64 \<Rightarrow> u64 \<Rightarrow> u64 \<Rightarrow> u64 \<Rightarrow> u64 \<Rightarrow> u64 \<Rightarrow> u64 \<Rightarrow> elf_object list \<Rightarrow>
   'a byte_state_scheme \<Rightarrow> (int \<times> 'a byte_state_scheme) option" where
  "elf_apply_rela_table K img l4_table load_bias table_vaddr table_size entsize symtab_vaddr strtab_vaddr strtab_size ext_modules s =
     (let entsize = (if entsize = 0 then SIZEOF_RELA else entsize);
          cnt = table_size div entsize;
          table = elf_vaddr_to_fileptr img table_vaddr table_size (kbytes s)
      in if table = NULL then Some (- 1, s)
         else try_each (\<lambda>i s.
           let rel = rela_at (kbytes s) (table + of_nat i * entsize);
               dst = elf_uv2kv K l4_table (load_bias + r_offset rel) s
           in Some (if dst = NULL then (- 2, s)
              else (0, case rela_value img load_bias symtab_vaddr strtab_vaddr strtab_size ext_modules rel (kbytes s) of
                  None \<Rightarrow> s | Some v \<Rightarrow> s\<lparr>kbytes := store64 dst v (kbytes s)\<rparr>)))
           [0..<unat cnt] s)"

definition add_bias :: "'b kernel_build_scheme \<Rightarrow> u64 \<Rightarrow> u64 \<Rightarrow> u64 \<Rightarrow> 'a byte_state_scheme \<Rightarrow> int \<times> 'a byte_state_scheme" where
  "add_bias K l4_table load_bias addr s =
     (let dst = elf_uv2kv K l4_table (load_bias + addr) s in
      if dst = NULL then (- 2, s) else (0, s\<lparr>kbytes := store64 dst (load_bias + load64 (kbytes s) dst) (kbytes s)\<rparr>))"

text \<open>\<^verbatim>\<open>while (bits) { ...; bits >>= 1; addr += 8; }\<close>\<close>

function relr_bits ::
  "'b kernel_build_scheme \<Rightarrow> u64 \<Rightarrow> u64 \<Rightarrow> u64 \<Rightarrow> u64 \<Rightarrow> 'a byte_state_scheme \<Rightarrow> int \<times> 'a byte_state_scheme" where
  "relr_bits K l4_table load_bias bits addr s =
     (if bits = 0 then (0, s)
      else let (r, s) = (if bits AND 1 \<noteq> 0 then add_bias K l4_table load_bias addr s else (0, s)) in
        if r \<noteq> 0 then (r, s) else relr_bits K l4_table load_bias (drop_bit 1 bits) (addr + 8) s)"
  by auto
termination
proof (relation "measure (\<lambda>(K, l4_table, load_bias, bits, addr, s). unat bits)", goal_cases)
  case (2 K l4_table load_bias bits addr s)
  then have "unat bits \<noteq> 0" by (simp add: unat_eq_0)
  then show ?case by (simp add: unat_drop_bit_eq drop_bit_eq_div unat_div)
qed simp

declare relr_bits.simps [simp del]

text \<open>An even entry is an address; an odd one a bitmap of the 63 words behind the last address.\<close>

definition elf_apply_relr_table ::
  "'b kernel_build_scheme \<Rightarrow> elf_image \<Rightarrow> u64 \<Rightarrow> u64 \<Rightarrow> u64 \<Rightarrow> u64 \<Rightarrow> u64 \<Rightarrow> 'a byte_state_scheme \<Rightarrow> (int \<times> 'a byte_state_scheme) option" where
  "elf_apply_relr_table K img l4_table load_bias table_vaddr table_size entsize s =
     (let entsize = (if entsize = 0 then 8 else entsize);
          cnt = table_size div entsize;
          table = elf_vaddr_to_fileptr img table_vaddr table_size (kbytes s)
      in if table = NULL then Some (- 1, s)
         else map_option (\<lambda>(r, base, s). (r, s)) (try_each (\<lambda>i (base, s).
           let entry = load64 (kbytes s) (table + of_nat i * 8) in
           Some (if entry AND 1 = 0 then (let (r, s) = add_bias K l4_table load_bias entry s in (r, entry + 8, s))
                 else (let (r, s) = relr_bits K l4_table load_bias (drop_bit 1 entry) base s in (r, base + 63 * 8, s))))
           [0..<unat cnt] (0, s)))"

section \<open>The dynamic section\<close>

primrec gnu_hash_loop :: "bytes_mem \<Rightarrow> elf_image \<Rightarrow> u64 \<Rightarrow> nat \<Rightarrow> u64 \<Rightarrow> u64 \<Rightarrow> u64 option" where
  "gnu_hash_loop m img chain_vaddr 0 chain_idx cnt = Some cnt"
| "gnu_hash_loop m img chain_vaddr (Suc guard) chain_idx cnt =
     (let cp = elf_vaddr_to_fileptr img (chain_vaddr + chain_idx * 4) 4 m in
      if cp = NULL then None
      else if load32 m cp AND 1 \<noteq> 0 then Some (cnt + 1)
      else gnu_hash_loop m img chain_vaddr guard (chain_idx + 1) (cnt + 1))"

definition elf_gnu_hash_symcount :: "elf_image \<Rightarrow> u64 \<Rightarrow> bytes_mem \<Rightarrow> u64 option" where
  "elf_gnu_hash_symcount img gnu_hash_vaddr m =
     (let hp = elf_vaddr_to_fileptr img gnu_hash_vaddr 16 m in
      if hp = NULL then None
      else let nbucket = load32 m hp; symoffset = load32 m (hp + 4); bloom_size = load32 m (hp + 8) in
        if nbucket = 0 then Some (ucast symoffset)
        else let buckets_vaddr = gnu_hash_vaddr + 16 + ucast bloom_size * 8;
                 bp = elf_vaddr_to_fileptr img buckets_vaddr (ucast nbucket * 4) m
             in if bp = NULL then None
                else let max_idx = fold (\<lambda>i x. let b = load32 m (bp + of_nat i * 4) in if x < b then b else x) [0..<unat nbucket] 0 in
                  if max_idx < symoffset then Some (ucast symoffset)
                  else gnu_hash_loop m img (buckets_vaddr + ucast nbucket * 4) 1000000 (ucast (max_idx - symoffset)) (ucast max_idx))"

text \<open>The local variables that the scan of the section fills.\<close>

record dyn_scan =
  ds_rela_off :: u64
  ds_rela_size :: u64
  ds_rela_ent :: u64
  ds_relr_off :: u64
  ds_relr_size :: u64
  ds_relr_ent :: u64
  ds_jmprel_off :: u64
  ds_jmprel_size :: u64
  ds_pltrel_type :: u64
  ds_symtab_off :: u64
  ds_strtab_off :: u64
  ds_strtab_size :: u64
  ds_hash_off :: u64
  ds_gnu_hash_off :: u64
  ds_has_rel :: bool

abbreviation (input) DT_RELA :: u64 where "DT_RELA \<equiv> 7"

definition zero_scan :: dyn_scan where
  "zero_scan = \<lparr>ds_rela_off = 0, ds_rela_size = 0, ds_rela_ent = SIZEOF_RELA, ds_relr_off = 0, ds_relr_size = 0, ds_relr_ent = 8,
     ds_jmprel_off = 0, ds_jmprel_size = 0, ds_pltrel_type = DT_RELA, ds_symtab_off = 0, ds_strtab_off = 0, ds_strtab_size = 0,
     ds_hash_off = 0, ds_gnu_hash_off = 0, ds_has_rel = False\<rparr>"

definition scan_tag :: "elf64_dyn \<Rightarrow> dyn_scan \<Rightarrow> dyn_scan" where
  "scan_tag d ds =
     (if d_tag d = 7 then ds\<lparr>ds_rela_off := d_val d\<rparr>
      else if d_tag d = 8 then ds\<lparr>ds_rela_size := d_val d\<rparr>
      else if d_tag d = 9 then ds\<lparr>ds_rela_ent := d_val d\<rparr>
      else if d_tag d = 6 then ds\<lparr>ds_symtab_off := d_val d\<rparr>
      else if d_tag d = 5 then ds\<lparr>ds_strtab_off := d_val d\<rparr>
      else if d_tag d = 10 then ds\<lparr>ds_strtab_size := d_val d\<rparr>
      else if d_tag d = 4 then ds\<lparr>ds_hash_off := d_val d\<rparr>
      else if d_tag d = 0x6ffffef5 then ds\<lparr>ds_gnu_hash_off := d_val d\<rparr>
      else if d_tag d = 2 then ds\<lparr>ds_jmprel_size := d_val d\<rparr>
      else if d_tag d = 20 then ds\<lparr>ds_pltrel_type := d_val d\<rparr>
      else if d_tag d = 17 then ds\<lparr>ds_has_rel := True\<rparr>
      else if d_tag d = 35 then ds\<lparr>ds_relr_size := d_val d\<rparr>
      else if d_tag d = 36 then ds\<lparr>ds_relr_off := d_val d\<rparr>
      else if d_tag d = 37 then ds\<lparr>ds_relr_ent := d_val d\<rparr>
      else ds)"

text \<open>Both scans stop at the first \<open>DT_NULL\<close>; the second one looks for \<open>DT_JMPREL\<close>.\<close>

definition scan_dynamic :: "elf64_dyn list \<Rightarrow> dyn_scan" where
  "scan_dynamic ds =
     (let ds = takeWhile (\<lambda>d. d_tag d \<noteq> 0) ds
      in fold (\<lambda>d r. if d_tag d = 23 then r\<lparr>ds_jmprel_off := d_val d\<rparr> else r) ds (fold scan_tag ds zero_scan))"

definition dyn_sym_count :: "elf_image \<Rightarrow> dyn_scan \<Rightarrow> bytes_mem \<Rightarrow> u64" where
  "dyn_sym_count img d m =
     (let n = (if ds_gnu_hash_off d \<noteq> 0 then (case elf_gnu_hash_symcount img (ds_gnu_hash_off d) m of Some n \<Rightarrow> n | None \<Rightarrow> 0) else 0) in
      if n = 0 \<and> ds_hash_off d \<noteq> 0
      then let hp = elf_vaddr_to_fileptr img (ds_hash_off d) 8 m in if hp \<noteq> NULL then ucast (load32 m (hp + 4)) else n
      else n)"

definition elf_process_dynamic ::
  "'b kernel_build_scheme \<Rightarrow> elf_image \<Rightarrow> u64 \<Rightarrow> u64 \<Rightarrow> elf64_phdr \<Rightarrow> elf_object list \<Rightarrow> elf_load_result \<Rightarrow> bool \<Rightarrow>
   'a byte_state_scheme \<Rightarrow> (elf_load_status \<times> elf_load_result \<times> 'a byte_state_scheme) option" where
  "elf_process_dynamic K img l4_table load_bias dyn_ph ext_modules result apply_relocs s =
     (if im_size img < p_offset dyn_ph + p_filesz dyn_ph then Some (ELF_ERR_TRUNCATED, result, s)
      else let dyn_count = p_filesz dyn_ph div SIZEOF_DYN;
               d = scan_dynamic (map (\<lambda>i. dyn_at (kbytes s) (im_data img + p_offset dyn_ph + of_nat i * SIZEOF_DYN)) [0..<unat dyn_count])
        in if ds_has_rel d \<and> ds_rela_off d = 0 then Some (ELF_ERR_BAD_DYNAMIC, result, s)
        else let result = result\<lparr>er_symtab_vaddr := ds_symtab_off d, er_strtab_vaddr := ds_strtab_off d,
                   er_strtab_size := ds_strtab_size d, er_sym_count := dyn_sym_count img d (kbytes s)\<rparr>
        in if \<not> apply_relocs then Some (ELF_OK, result, s)
        else do {
          (rc, s) \<leftarrow> (if ds_rela_off d \<noteq> 0 \<and> ds_rela_size d \<noteq> 0
             then elf_apply_rela_table K img l4_table load_bias (ds_rela_off d) (ds_rela_size d) (ds_rela_ent d)
                    (ds_symtab_off d) (ds_strtab_off d) (ds_strtab_size d) ext_modules s
             else Some (0, s));
          if rc = - 1 then Some (ELF_ERR_DYNTABLE_NOT_FOUND, result, s)
          else if rc \<noteq> 0 then Some (ELF_ERR_RELOC_TARGET_UNMAPPED, result, s)
          else do {
            (rc, s) \<leftarrow> (if ds_jmprel_off d \<noteq> 0 \<and> ds_jmprel_size d \<noteq> 0 \<and> ds_pltrel_type d = DT_RELA
               then elf_apply_rela_table K img l4_table load_bias (ds_jmprel_off d) (ds_jmprel_size d) SIZEOF_RELA
                      (ds_symtab_off d) (ds_strtab_off d) (ds_strtab_size d) ext_modules s
               else Some (0, s));
            if rc \<noteq> 0 then Some (ELF_ERR_RELOC_TARGET_UNMAPPED, result, s)
            else do {
              (rc, s) \<leftarrow> (if ds_relr_off d \<noteq> 0 \<and> ds_relr_size d \<noteq> 0
                 then elf_apply_relr_table K img l4_table load_bias (ds_relr_off d) (ds_relr_size d) (ds_relr_ent d) s
                 else Some (0, s));
              Some (if rc \<noteq> 0 then ELF_ERR_RELOC_TARGET_UNMAPPED else ELF_OK, result, s) } } })"


section \<open>Loading an img_data\<close>

definition elf_check_header :: "bytes_mem \<Rightarrow> u64 \<Rightarrow> u64 \<Rightarrow> elf_load_status" where
  "elf_check_header m img_data image_size =
     (let ehdr = ehdr_at m img_data in
      if image_size < SIZEOF_EHDR then ELF_ERR_TRUNCATED
      else if take 4 (e_ident ehdr) \<noteq> [0x7f, 0x45, 0x4C, 0x46] then ELF_ERR_BAD_MAGIC
      else if e_ident ehdr ! 4 \<noteq> 2 then ELF_ERR_BAD_CLASS
      else if e_ident ehdr ! 5 \<noteq> 1 then ELF_ERR_BAD_ENDIAN
      else if e_machine ehdr \<noteq> EM_X86_64 then ELF_ERR_BAD_MACHINE
      else if e_type ehdr \<noteq> ET_EXEC \<and> e_type ehdr \<noteq> ET_DYN then ELF_ERR_BAD_TYPE
      else if image_size < e_phoff ehdr + ucast (e_phnum ehdr) * ucast (e_phentsize ehdr) then ELF_ERR_TRUNCATED
      else ELF_OK)"

text \<open>The page of memory behind \<open>page_va\<close>: the one an earlier segment mapped, or a new one filled with zeros.\<close>

definition segment_page ::
  "'b kernel_build_scheme \<Rightarrow> u64 \<Rightarrow> vm_flags \<Rightarrow> vm_flags \<Rightarrow> u64 \<Rightarrow> 'a byte_state_scheme \<Rightarrow>
   (elf_load_status \<times> u64 \<times> 'a byte_state_scheme) option" where
  "segment_page K l4_table flags prev_seg_flags page_va s =
     (let existing = elf_uv2kv K l4_table page_va s in
      if existing \<noteq> NULL then do {
        (r, s) \<leftarrow> protect_page_4k K l4_table page_va (flags OR prev_seg_flags) s;
        Some (if r \<noteq> 0 then ELF_ERR_MAP_FAILED else ELF_OK, existing, s) }
      else do {
        (page, s) \<leftarrow> pt_pool_alloc s;
        let phys = hhdm_virt_to_phys K page;
        if phys = 0 then Some (ELF_ERR_NO_MEMORY, NULL, s)
        else do {
          let dst = phys_to_virt K phys;
          let s = s\<lparr>kbytes := fold (\<lambda>b m. m(dst + of_nat b := 0)) [0..<4096] (kbytes s)\<rparr>;
          (r, s) \<leftarrow> map_page_4k K l4_table page_va phys flags s;
          Some (if r \<noteq> 0 then ELF_ERR_MAP_FAILED else ELF_OK, dst, s) } })"

text \<open>The part of the segment's file range that falls into the page.\<close>

definition copy_into_page :: "u64 \<Rightarrow> elf64_phdr \<Rightarrow> u64 \<Rightarrow> u64 \<Rightarrow> u64 \<Rightarrow> bytes_mem \<Rightarrow> bytes_mem" where
  "copy_into_page img_data ph load_bias page_va dst m =
     (let page_end = page_va + 0x1000;
          file_lo = load_bias + p_vaddr ph;
          file_hi = load_bias + p_vaddr ph + p_filesz ph;
          copy_lo = (if file_lo < page_va then page_va else file_lo);
          copy_hi = (if page_end < file_hi then page_end else file_hi)
      in if copy_lo < copy_hi then
           let src_off = p_offset ph + (copy_lo - file_lo);
               dst_off = copy_lo - page_va
           in fold (\<lambda>b m. m(dst + (dst_off + of_nat b) := m (img_data + (src_off + of_nat b)))) [0..<unat (copy_hi - copy_lo)] m
         else m)"

partial_function (option) segment_loop ::
  "'b kernel_build_scheme \<Rightarrow> u64 \<Rightarrow> elf64_phdr \<Rightarrow> u64 \<Rightarrow> u64 \<Rightarrow> vm_flags \<Rightarrow> vm_flags \<Rightarrow> u64 \<Rightarrow> u64 \<Rightarrow>
   'a byte_state_scheme \<Rightarrow> (elf_load_status \<times> 'a byte_state_scheme) option" where
  "segment_loop K img_data ph load_bias l4_table flags prev_seg_flags seg_end page_va s =
     (if \<not> page_va < seg_end then Some (ELF_OK, s)
      else do {
        (status, dst, s) \<leftarrow> segment_page K l4_table flags prev_seg_flags page_va s;
        if status \<noteq> ELF_OK then Some (status, s)
        else segment_loop K img_data ph load_bias l4_table flags prev_seg_flags seg_end (page_va + 0x1000)
               (s\<lparr>kbytes := copy_into_page img_data ph load_bias page_va dst (kbytes s)\<rparr>) })"

text \<open>The local variables of \<open>elf_load\<close>'s loop over the program headers.\<close>

record load_scan =
  ls_prev_seg_flags :: vm_flags
  ls_lowest :: u64
  ls_highest :: u64
  ls_dyn_ph :: "elf64_phdr option"
  ls_interp_ph :: "elf64_phdr option"
  ls_phdr_vaddr :: u64

definition zero_load :: load_scan where
  "zero_load = \<lparr>ls_prev_seg_flags = 0, ls_lowest = NOT 0, ls_highest = 0, ls_dyn_ph = None, ls_interp_ph = None, ls_phdr_vaddr = 0\<rparr>"

definition load_segment ::
  "'b kernel_build_scheme \<Rightarrow> u64 \<Rightarrow> u64 \<Rightarrow> u64 \<Rightarrow> u64 \<Rightarrow> u64 \<Rightarrow> elf64_phdr \<Rightarrow> load_scan \<Rightarrow> 'a byte_state_scheme \<Rightarrow>
   (elf_load_status \<times> load_scan \<times> 'a byte_state_scheme) option" where
  "load_segment K img_data image_size l4_table load_bias phoff ph l s =
     (if p_type ph = PT_PHDR then Some (ELF_OK, l\<lparr>ls_phdr_vaddr := load_bias + p_vaddr ph\<rparr>, s)
      else if p_type ph = PT_DYNAMIC then Some (ELF_OK, l\<lparr>ls_dyn_ph := Some ph\<rparr>, s)
      else if p_type ph = PT_INTERP then Some (ELF_OK, l\<lparr>ls_interp_ph := Some ph\<rparr>, s)
      else if p_type ph \<noteq> PT_LOAD then Some (ELF_OK, l, s)
      else if image_size < p_offset ph + p_filesz ph then Some (ELF_ERR_TRUNCATED, l, s)
      else do {
        let seg_start = (load_bias + p_vaddr ph) AND NOT 0xFFF;
        let seg_end = (load_bias + p_vaddr ph + p_memsz ph + 0xFFF) AND NOT 0xFFF;
        let flags = page_flags_for (p_flags ph);
        (status, s) \<leftarrow> segment_loop K img_data ph load_bias l4_table flags (ls_prev_seg_flags l) seg_end seg_start s;
        if status \<noteq> ELF_OK then Some (status, l, s)
        else Some (ELF_OK, l\<lparr>ls_prev_seg_flags := flags,
          ls_lowest := (if seg_start < ls_lowest l then seg_start else ls_lowest l),
          ls_highest := (if ls_highest l < seg_end then seg_end else ls_highest l),
          ls_phdr_vaddr := (if ls_phdr_vaddr l = 0 \<and> p_offset ph \<le> phoff \<and> phoff - p_offset ph \<le> p_filesz ph
            then load_bias + p_vaddr ph + (phoff - p_offset ph) else ls_phdr_vaddr l)\<rparr>, s) })"

text \<open>\<^verbatim>\<open>for (uint16_t i = 0; i < ehdr->e_phnum; i++)\<close>; the header is read from the image in each round.\<close>

lemma unat_u16_less: "unat (x :: u16) < 65536"
  using unsigned_less [of x] by simp

function load_segments ::
  "'b kernel_build_scheme \<Rightarrow> u64 \<Rightarrow> u64 \<Rightarrow> u64 \<Rightarrow> u64 \<Rightarrow> u64 \<Rightarrow> nat \<Rightarrow> load_scan \<Rightarrow> 'a byte_state_scheme \<Rightarrow>
   (elf_load_status \<times> load_scan \<times> 'a byte_state_scheme) option" where
  "load_segments K img_data image_size l4_table load_bias phdr_base i l s =
     (let ehdr = ehdr_at (kbytes s) img_data in
      if i < unat (e_phnum ehdr) then do {
        let ph = phdr_at (kbytes s) (phdr_base + of_nat i * ucast (e_phentsize ehdr));
        (status, l, s) \<leftarrow> load_segment K img_data image_size l4_table load_bias (e_phoff ehdr) ph l s;
        if status \<noteq> ELF_OK then Some (status, l, s)
        else load_segments K img_data image_size l4_table load_bias phdr_base (i + 1) l s }
      else Some (ELF_OK, l, s))"
  by auto
termination
  by (relation "measure (\<lambda>(K, img_data, image_size, l4_table, load_bias, phdr_base, i, l, s). 65536 - i)")
    (auto dest: less_trans [OF _ unat_u16_less])

declare load_segments.simps [simp del]

text \<open>The path of the interpreter, which needs room for its terminator.\<close>

definition load_interp_path ::
  "u64 \<Rightarrow> u64 \<Rightarrow> elf64_phdr option \<Rightarrow> elf_load_result \<Rightarrow> bytes_mem \<Rightarrow> elf_load_status \<times> elf_load_result" where
  "load_interp_path img_data image_size interp_ph result m =
     (case interp_ph of
        None \<Rightarrow> (ELF_OK, result)
      | Some ph \<Rightarrow>
          if image_size < p_offset ph + p_filesz ph then (ELF_ERR_TRUNCATED, result)
          else if ELF_INTERP_PATH_MAX \<le> p_filesz ph then (ELF_ERR_INTERP_TOO_LONG, result)
          else (ELF_OK, result\<lparr>er_interp_path := load_bytes m (img_data + p_offset ph) (unat (p_filesz ph)), er_has_interp := True\<rparr>))"

definition elf_load ::
  "'b kernel_build_scheme \<Rightarrow> u64 \<Rightarrow> u64 \<Rightarrow> u64 \<Rightarrow> u64 \<Rightarrow> elf_object list \<Rightarrow> bool \<Rightarrow> 'a byte_state_scheme \<Rightarrow>
   (elf_load_result \<times> 'a byte_state_scheme) option" where
  "elf_load K img_data image_size l4_table load_bias ext_modules apply_relocs s =
     (let status = elf_check_header (kbytes s) img_data image_size;
          ehdr = ehdr_at (kbytes s) img_data
      in if status \<noteq> ELF_OK then Some (zero_result\<lparr>er_status := status\<rparr>, s)
         else do {
           let load_bias = (if e_type ehdr = ET_EXEC then 0 else load_bias);
           let result = zero_result\<lparr>er_is_pie := (e_type ehdr = ET_DYN), er_load_bias := load_bias,
                 er_phnum := e_phnum ehdr, er_phentsize := e_phentsize ehdr\<rparr>;
           let phdr_base = img_data + e_phoff ehdr;
           (status, l, s) \<leftarrow> load_segments K img_data image_size l4_table load_bias phdr_base 0 zero_load s;
           let result = result\<lparr>er_phdr_vaddr := ls_phdr_vaddr l\<rparr>;
           if status \<noteq> ELF_OK then Some (result\<lparr>er_status := status\<rparr>, s)
           else if ls_highest l = 0 then Some (result\<lparr>er_status := ELF_ERR_TRUNCATED\<rparr>, s)
           else do {
             let ehdr = ehdr_at (kbytes s) img_data;
             let result = result\<lparr>er_lowest_vaddr := ls_lowest l, er_highest_vaddr := ls_highest l, er_entry := load_bias + e_entry ehdr\<rparr>;
             let (status, result) = load_interp_path img_data image_size (ls_interp_ph l) result (kbytes s);
             if status \<noteq> ELF_OK then Some (result\<lparr>er_status := status\<rparr>, s)
             else (case ls_dyn_ph l of
                None \<Rightarrow> Some (result\<lparr>er_status := ELF_OK\<rparr>, s)
              | Some dyn_ph \<Rightarrow> do {
                  let img = \<lparr>im_data = img_data, im_size = image_size, im_phdrs = phdr_base,
                             im_phnum = e_phnum ehdr, im_phentsize = e_phentsize ehdr\<rparr>;
                  (status, result, s) \<leftarrow> elf_process_dynamic K img l4_table load_bias dyn_ph ext_modules result apply_relocs s;
                  Some (result\<lparr>er_status := status\<rparr>, s) }) } })"

section \<open>The interpreter\<close>

partial_function (option) read_whole_loop ::
  "(u64 \<Rightarrow> u64 \<Rightarrow> u64 \<Rightarrow> u64 \<Rightarrow> 'a vfs_state_scheme \<Rightarrow> (int \<times> u64 option \<times> 'a vfs_state_scheme) option) \<Rightarrow>
   u64 \<Rightarrow> u64 \<Rightarrow> u64 \<Rightarrow> u64 \<Rightarrow> 'a vfs_state_scheme \<Rightarrow> (int \<times> u64 \<times> 'a vfs_state_scheme) option" where
  "read_whole_loop rd node buf sz got s =
     (if \<not> got < sz then Some (0, got, s)
      else do {
        (r, n, s) \<leftarrow> rd node (buf + got) (sz - got) got s;
        if r \<noteq> 0 then do { s \<leftarrow> free buf s; Some (r, got, s) }
        else if n = None \<or> n = Some 0 then Some (0, got, s)
        else read_whole_loop rd node buf sz (got + the n) s })"

definition elf_vfs_read_whole :: "u8 list \<Rightarrow> 'a vfs_state_scheme \<Rightarrow> (int \<times> u64 \<times> u64 \<times> 'a vfs_state_scheme) option" where
  "elf_vfs_read_whole path s = do {
     (rc, node, s) \<leftarrow> vfs_open path 0 s;
     if rc \<noteq> 0 \<or> node = None \<or> node = Some NULL then Some (- 1, NULL, 0, s)
     else do {
       v \<leftarrow> vnode_at s (the node);
       (case Option.bind (vn_ops v) ops_read of
          None \<Rightarrow> Some (- 1, NULL, 0, s)
        | Some rd \<Rightarrow>
            if vn_type v \<noteq> VNODE_TYPE_FILE then Some (- 1, NULL, 0, s)
            else do {
              (buf, s) \<leftarrow> malloc (if vn_size v \<noteq> 0 then vn_size v else 1) s;
              if buf = NULL then Some (- 1, NULL, 0, s)
              else do {
                (r, got, s) \<leftarrow> read_whole_loop rd (the node) buf (vn_size v) 0 s;
                Some (r, buf, got, s) } }) } }"

record elf_auxv_info =
  at_phdr :: u64
  at_phent :: u16
  at_phnum :: u16
  at_entry :: u64
  at_base :: u64
  at_has_interp :: bool

text \<open>A path is what lies before its first zero.\<close>

definition c_string :: "u8 list \<Rightarrow> u8 list" where
  "c_string = takeWhile (\<lambda>c. c \<noteq> 0)"

definition elf_load_full ::
  "'b kernel_build_scheme \<Rightarrow> u64 \<Rightarrow> u64 \<Rightarrow> u64 \<Rightarrow> 'a vfs_state_scheme \<Rightarrow>
   (int \<times> (elf_load_result \<times> elf_auxv_info \<times> u64) option \<times> 'a vfs_state_scheme) option" where
  "elf_load_full K img_data image_size l4_table s =
     (if image_size < SIZEOF_EHDR then Some (- 1, None, s)
      else do {
        let bias = (if e_type (ehdr_at (kbytes s) img_data) = ET_DYN then ELF_PIE_BASE else 0);
        (main_res, s) \<leftarrow> elf_load K img_data image_size l4_table bias [] False s;
        if er_status main_res \<noteq> ELF_OK then Some (- 1, None, s)
        else do {
          let auxv = \<lparr>at_phdr = er_phdr_vaddr main_res, at_phent = er_phentsize main_res, at_phnum = er_phnum main_res,
                at_entry = er_entry main_res, at_base = 0, at_has_interp = er_has_interp main_res\<rparr>;
          if \<not> er_has_interp main_res then Some (0, Some (main_res, auxv, er_entry main_res), s)
          else do {
            (rc, interp_buf, interp_size, s) \<leftarrow> elf_vfs_read_whole (c_string (er_interp_path main_res)) s;
            if rc \<noteq> 0 then Some (14, None, s)
            else do {
              let main_object = \<lparr>ob_image = \<lparr>im_data = img_data, im_size = image_size,
                     im_phdrs = img_data + e_phoff (ehdr_at (kbytes s) img_data), im_phnum = er_phnum main_res, im_phentsize = er_phentsize main_res\<rparr>,
                   ob_load_bias = er_load_bias main_res, ob_symtab_vaddr = er_symtab_vaddr main_res, ob_strtab_vaddr = er_strtab_vaddr main_res,
                   ob_strtab_size = er_strtab_size main_res, ob_sym_count = er_sym_count main_res\<rparr>;
              (interp_res, s) \<leftarrow> elf_load K interp_buf interp_size l4_table ELF_INTERP_BASE [main_object] False s;
              s \<leftarrow> free interp_buf s;
              if er_status interp_res \<noteq> ELF_OK then Some (14, None, s)
              else Some (0, Some (main_res, auxv\<lparr>at_base := er_load_bias interp_res\<rparr>, er_entry interp_res), s) } } } })"


section \<open>A program ready to run\<close>

definition zero_prepared :: elf_prepared where
  "zero_prepared = \<lparr>ep_l4 = NULL, ep_entry = 0, ep_sp = 0, ep_brk_start = 0, ep_stack = NULL, ep_pages = empty_page_list\<rparr>"

definition elf_prepared_destroy :: "'b kernel_build_scheme \<Rightarrow> elf_prepared \<Rightarrow> 'a sched_state_scheme \<Rightarrow> 'a sched_state_scheme option" where
  "elf_prepared_destroy K p s = do {
     s \<leftarrow> (if ep_l4 p \<noteq> NULL then free_page_table K (ep_l4 p) s else Some s);
     (l, s) \<leftarrow> vm_page_list_free (ep_pages p) s;
     if ep_stack p = NULL then Some s
     else do {
       k \<leftarrow> thread_stacks s (ep_stack p);
       s \<leftarrow> (if ts_base k \<noteq> NULL then free (ts_base k) s else Some s);
       s \<leftarrow> free (ep_stack p) s;
       Some (s\<lparr>thread_stacks := (thread_stacks s)(ep_stack p := None)\<rparr>) } }"

text \<open>The arguments are vectors of pointers to strings, both in memory.\<close>

record create_elf_process_request =
  rq_data :: u64
  rq_size :: u64
  rq_argv :: u64
  rq_argc :: int
  rq_envp :: u64
  rq_syscall_conv :: u32
  rq_arg :: u32

text \<open>\<^verbatim>\<open>while (envp[envc]) envc++;\<close>\<close>

partial_function (option) count_vector :: "bytes_mem \<Rightarrow> u64 \<Rightarrow> nat \<Rightarrow> nat option" where
  "count_vector m vec n =
     (if load64 m (vec + 8 * of_nat n) = 0 then Some n
      else if INT_MAX \<le> n then None else count_vector m vec (n + 1))"

text \<open>The strings are copied below the top of the stack, the last one first.\<close>

definition push_string :: "(u64 \<Rightarrow> u64) \<Rightarrow> u64 \<Rightarrow> nat \<Rightarrow> u64 \<times> u64 list \<times> bytes_mem \<Rightarrow> (u64 \<times> u64 list \<times> bytes_mem) option" where
  "push_string K2U vec i st = (case st of (sp, addrs, m) \<Rightarrow> do {
     let p = load64 m (vec + 8 * of_nat i);
     n \<leftarrow> strlen m p;
     let sp = sp - of_nat (n + 1);
     Some (sp, K2U sp # addrs, memcpy sp p (of_nat (n + 1)) m) })"

definition push_strings :: "(u64 \<Rightarrow> u64) \<Rightarrow> u64 \<Rightarrow> nat \<Rightarrow> u64 \<Rightarrow> bytes_mem \<Rightarrow> (u64 \<times> u64 list \<times> bytes_mem) option" where
  "push_strings K2U vec n sp m = for_each (push_string K2U vec) (rev [0..<n]) (sp, [], m)"

definition put_bytes :: "u64 \<Rightarrow> u8 list \<Rightarrow> bytes_mem \<Rightarrow> bytes_mem" where
  "put_bytes a cs m = fold (\<lambda>i m. m(a + of_nat i := cs ! i)) [0..<length cs] m"

text \<open>\<open>''/init''\<close> and its terminator.\<close>

definition default_argv0 :: "u8 list" where
  "default_argv0 = [0x2F, 0x69, 0x6E, 0x69, 0x74, 0]"

definition initial_vector :: "nat \<Rightarrow> u64 list \<Rightarrow> u64 list \<Rightarrow> elf_auxv_info \<Rightarrow> u64 \<Rightarrow> u64 \<Rightarrow> u64 list" where
  "initial_vector argc argv_addrs envp_addrs auxv random_addr execfn_addr =
     of_nat argc # argv_addrs @ 0 # envp_addrs @ 0 #
     [3, at_phdr auxv, 4, ucast (at_phent auxv), 5, ucast (at_phnum auxv), 6, 4096,
      7, if at_has_interp auxv then at_base auxv else 0, 9, at_entry auxv,
      11, 0, 12, 0, 13, 0, 14, 0, 23, 0, 17, 100, 25, random_addr, 31, execfn_addr, 0, 0]"

definition put_words :: "u64 \<Rightarrow> u64 list \<Rightarrow> bytes_mem \<Rightarrow> bytes_mem" where
  "put_words a vs m = fold (\<lambda>i m. store64 (a + 8 * of_nat i) (vs ! i) m) [0..<length vs] m"

text \<open>
  The first stack, lowest address first: argc, argv, NULL, envp, NULL, the auxiliary vector; above it
  16 bytes for \<open>AT_RANDOM\<close> and the strings. Answers the stack pointer as the kernel sees it. The three
  arrays the code collects the addresses in live for this call only and are lists here, beside the
  blocks that are allocated for them.
\<close>

definition initial_stack ::
  "u64 \<Rightarrow> (u64 \<Rightarrow> u64) \<Rightarrow> nat \<Rightarrow> u64 \<Rightarrow> nat \<Rightarrow> u64 \<Rightarrow> bool \<Rightarrow> elf_auxv_info \<Rightarrow> bytes_mem \<Rightarrow> (u64 \<times> bytes_mem) option" where
  "initial_stack ktop K2U argc argv envc envp use_default_argv auxv m = do {
     (sp, envp_addrs, m) \<leftarrow> push_strings K2U envp envc ktop m;
     (sp, argv_addrs, m) \<leftarrow> (if use_default_argv
        then (let sp = sp - 6 in Some (sp, [K2U sp], put_bytes sp default_argv0 m))
        else push_strings K2U argv argc sp m);
     let sp = sp AND NOT 15;
     let sp = sp - 16;
     let m = fold (\<lambda>i m. m(sp + of_nat i := of_nat i XOR 0x42)) [0..<16] m;
     let vec = initial_vector argc argv_addrs envp_addrs auxv (K2U sp) (hd argv_addrs);
     let sp = sp - of_nat (length vec) * 8;
     let sp = sp AND NOT 0xF;
     Some (sp, put_words sp vec m) }"

definition free_if :: "u64 \<Rightarrow> 'a heap_state_scheme \<Rightarrow> 'a heap_state_scheme option" where
  "free_if p s = (if p \<noteq> NULL then free p s else Some s)"

definition prepare_arguments ::
  "'b kernel_build_scheme \<Rightarrow> create_elf_process_request \<Rightarrow> u64 \<Rightarrow> elf_auxv_info \<Rightarrow> 'a byte_state_scheme \<Rightarrow>
   (int \<times> u64 \<times> 'a byte_state_scheme) option" where
  "prepare_arguments K req stack_base auxv s = do {
     let ktop = stack_base + USER_STACK_SIZE;
     let K2U = (\<lambda>kp. USER_STACK_TOP - (ktop - kp));
     envc \<leftarrow> (if rq_envp req \<noteq> NULL then count_vector (kbytes s) (rq_envp req) 0 else Some 0);
     let use_default_argv = (\<not> (0 < rq_argc req \<and> rq_argv req \<noteq> NULL));
     let argc = (if use_default_argv then 1 else nat (rq_argc req));
     (envp_addrs, s) \<leftarrow> malloc (8 * of_nat (if envc = 0 then 1 else envc)) s;
     (argv_addrs, s) \<leftarrow> malloc (8 * of_nat argc) s;
     (vec, s) \<leftarrow> malloc (8 * of_nat (argc + envc + 3 + 32)) s;
     (ret, sp, s) \<leftarrow> (if envp_addrs = NULL \<or> argv_addrs = NULL \<or> vec = NULL then Some (- 1, 0, s)
        else do {
          (sp, m) \<leftarrow> initial_stack ktop K2U argc (rq_argv req) envc (rq_envp req) use_default_argv auxv (kbytes s);
          Some (0, K2U sp, s\<lparr>kbytes := m\<rparr>) });
     s \<leftarrow> free_if envp_addrs s;
     s \<leftarrow> free_if argv_addrs s;
     s \<leftarrow> free_if vec s;
     Some (ret, sp, s) }"

definition prepare_stack ::
  "'b kernel_build_scheme \<Rightarrow> create_elf_process_request \<Rightarrow> elf_auxv_info \<Rightarrow> elf_prepared \<Rightarrow> 'a sched_state_scheme \<Rightarrow>
   (int \<times> elf_prepared \<times> 'a sched_state_scheme) option" where
  "prepare_stack K req auxv out s = do {
     (stack_base, s) \<leftarrow> page_alloc (USER_STACK_SIZE div 0x1000) s;
     if stack_base = NULL then Some (- 1, out, s)
     else do {
       let s = s\<lparr>kbytes := memset stack_base 0 USER_STACK_SIZE (kbytes s)\<rparr>;
       (stack, s) \<leftarrow> malloc SIZEOF_THREAD_STACK s;
       if stack = NULL then do { s \<leftarrow> free stack_base s; Some (- 1, out, s) }
       else do {
         let s = s\<lparr>thread_stacks := (thread_stacks s)(stack \<mapsto>
               \<lparr>ts_ptr = NULL, ts_base = stack_base, ts_size = USER_STACK_SIZE, ts_user_mapped = True\<rparr>)\<rparr>;
         let out = out\<lparr>ep_stack := stack\<rparr>;
         (r, s) \<leftarrow> map_stack K (ep_l4 out) (USER_STACK_TOP - USER_STACK_SIZE) stack_base USER_STACK_SIZE s;
         if r \<noteq> 0 then Some (- 1, out, s)
         else do {
           (ret, sp, s) \<leftarrow> prepare_arguments K req stack_base auxv s;
           if ret \<noteq> 0 then Some (- 1, out, s)
           else Some (0, out\<lparr>ep_sp := sp\<rparr>, s\<lparr>thread_stacks := (thread_stacks s)(stack \<mapsto>
               \<lparr>ts_ptr = sp, ts_base = stack_base, ts_size = USER_STACK_SIZE, ts_user_mapped = True\<rparr>)\<rparr>) } } } }"

definition elf_prepare ::
  "'b kernel_build_scheme \<Rightarrow> create_elf_process_request \<Rightarrow> 'a proc_state_scheme \<Rightarrow> (int \<times> elf_prepared \<times> 'a proc_state_scheme) option" where
  "elf_prepare K req s = do {
     (l4, s) \<leftarrow> clone_page_table s;
     if l4 = NULL then Some (- 1, zero_prepared, s)
     else do {
       (rc, loaded, s) \<leftarrow> elf_load_full K (rq_data req) (rq_size req) l4 s;
       (case loaded of
          None \<Rightarrow> do {
            (r, pages, s) \<leftarrow> vm_collect_user_pages K l4 0 0 empty_page_list s;
            s \<leftarrow> (if r = 0 then map_option snd (vm_page_list_free pages s) else Some s);
            s \<leftarrow> free_page_table K l4 s;
            Some (rc, zero_prepared, s) }
        | Some (main_res, auxv, entry) \<Rightarrow> do {
            let out = zero_prepared\<lparr>ep_l4 := l4, ep_entry := entry, ep_brk_start := (er_highest_vaddr main_res + 0xFFF) AND NOT 0xFFF\<rparr>;
            (r, pages, s) \<leftarrow> vm_collect_user_pages K l4 0 0 empty_page_list s;
            let out = out\<lparr>ep_pages := pages\<rparr>;
            (ret, out, s) \<leftarrow> (if r \<noteq> 0 then Some (- 1, out, s) else prepare_stack K req auxv out s);
            if ret = 0 then Some (0, out, s)
            else do { s \<leftarrow> elf_prepared_destroy K out s; Some (- 1, zero_prepared, s) } }) } }"

text \<open>\<open>''jakis-elf''\<close>. The process gets an empty address space first, which the prepared one replaces.\<close>

definition elf_start ::
  "'b kernel_build_scheme \<Rightarrow> create_elf_process_request \<Rightarrow> 'a proc_state_scheme \<Rightarrow> (int \<times> 'a proc_state_scheme) option" where
  "elf_start K req s = do {
     (r, prep, s) \<leftarrow> elf_prepare K req s;
     if r \<noteq> 0 then Some (- 1, s)
     else do {
       (proc, s) \<leftarrow> process_create K [0x6A, 0x61, 0x6B, 0x69, 0x73, 0x2D, 0x65, 0x6C, 0x66] (ep_entry prep) (scast (rq_arg req)) 3 (ep_stack prep) s;
       if proc = NULL then do { s \<leftarrow> elf_prepared_destroy K prep s; Some (- 1, s) }
       else do {
         p \<leftarrow> processes s proc;
         s \<leftarrow> (if p_page_table p \<noteq> NULL then free_page_table K (p_page_table p) s else Some s);
         s \<leftarrow> upd_process proc (\<lambda>p. p\<lparr>p_page_table := ep_l4 prep, p_owned_pages := ep_pages prep, p_brk_start := ep_brk_start prep,
                p_brk_current := ep_brk_start prep, p_mmap_start := 0x400000000000, p_mmap_current := 0x400000000000,
                p_syscall_conv := rq_syscall_conv req\<rparr>) s;
         s \<leftarrow> scheduler_enqueue (p_main_thread p) s;
         Some (0, s) } } }"

end
