(* ===== verification/Syscalls.thy ===== *)
theory Syscalls
  imports Linux_Io Elf
begin

text \<open>
  The Linux system calls on memory and processes (\<^verbatim>\<open>src/exec/syscalls/linux/memory.c\<close> and
  \<^verbatim>\<open>process.c\<close>), the kernel's own calls (\<^verbatim>\<open>own.c\<close>), the tables of both conventions, and the
  entry that picks the handler and returns its result in \<open>rax\<close> (\<^verbatim>\<open>src/exec/syscalls/common.c\<close>).
\<close>

abbreviation (input) ECHILD :: u64 where "ECHILD \<equiv> 10"
abbreviation (input) ENOEXEC :: u64 where "ENOEXEC \<equiv> 8"
abbreviation (input) ENOMEM :: u64 where "ENOMEM \<equiv> 12"
abbreviation (input) ENAMETOOLONG :: u64 where "ENAMETOOLONG \<equiv> 36"
abbreviation (input) E2BIG :: u64 where "E2BIG \<equiv> 7"

definition USER_VA_LIMIT :: u64 where "USER_VA_LIMIT = push_bit 47 1"
definition USER_HEAP_MAX :: u64 where "USER_HEAP_MAX = 0x0000800000000000"

section \<open>Memory\<close>

definition page_align_up :: "u64 \<Rightarrow> u64" where
  "page_align_up v = (v + 0xFFF) AND NOT 0xFFF"

text \<open>One page of the heap; its frame is noted for the end of the process.\<close>

definition grow_page :: "'b kernel_build_scheme \<Rightarrow> u64 \<Rightarrow> u64 \<Rightarrow> 'a keyboard_state_scheme \<Rightarrow> (int \<times> 'a keyboard_state_scheme) option" where
  "grow_page K process addr s = do {
     (page, s) \<leftarrow> pt_pool_alloc s;
     if page = NULL then Some (- 1, s)
     else do {
       let phys = hhdm_virt_to_phys K page;
       p \<leftarrow> processes s process;
       (r, s) \<leftarrow> map_page_4k K (p_page_table p) addr phys (VMF_USER OR VMF_WRITE) s;
       if r \<noteq> 0 then do { s \<leftarrow> free page s; Some (- 1, s) }
       else do {
         (r, l, s) \<leftarrow> vm_page_list_add (p_owned_pages p) page s;
         s \<leftarrow> upd_process process (\<lambda>p. p\<lparr>p_owned_pages := l\<rparr>) s;
         Some (if r \<noteq> 0 then - 1 else 0, s) } } }"

partial_function (option) grow_loop ::
  "'b kernel_build_scheme \<Rightarrow> u64 \<Rightarrow> u64 \<Rightarrow> u64 \<Rightarrow> 'a keyboard_state_scheme \<Rightarrow> (int \<times> 'a keyboard_state_scheme) option" where
  "grow_loop K process new_end addr s =
     (if \<not> addr < new_end then Some (0, s)
      else do {
        (r, s) \<leftarrow> grow_page K process addr s;
        if r \<noteq> 0 then Some (- 1, s) else grow_loop K process new_end (addr + 0x1000) s })"

definition grow_process_brk ::
  "'b kernel_build_scheme \<Rightarrow> u64 \<Rightarrow> u64 \<Rightarrow> 'a keyboard_state_scheme \<Rightarrow> (int \<times> 'a keyboard_state_scheme) option" where
  "grow_process_brk K process new_break s = do {
     p \<leftarrow> processes s process;
     grow_loop K process (page_align_up new_break) (page_align_up (p_brk_current p)) s }"

definition syscall_linux_brk :: "'b kernel_build_scheme \<Rightarrow> syscall_regs \<Rightarrow> u64 \<Rightarrow> 'a keyboard_state_scheme \<Rightarrow> 'a sys_result" where
  "syscall_linux_brk K regs process s =
     (let requested_break = sr_arg1 regs in
      if process = NULL then Some (Ret (- ENOSYS), s)
      else do {
        p \<leftarrow> processes s process;
        if requested_break = 0 then Some (Ret (p_brk_current p), s)
        else if requested_break < p_brk_start p \<or> USER_HEAP_MAX \<le> requested_break then Some (Ret (p_brk_current p), s)
        else do {
          (r, s) \<leftarrow> (if p_brk_current p < requested_break then grow_process_brk K process requested_break s else Some (0, s));
          if r \<noteq> 0 then Some (Ret (p_brk_current p), s)
          else do {
            s \<leftarrow> upd_process process (\<lambda>p. p\<lparr>p_brk_current := requested_break\<rparr>) s;
            Some (Ret requested_break, s) } } })"

text \<open>The contents of a file are read into the fresh block before it is mapped.\<close>

definition mmap_fill :: "u64 \<Rightarrow> u64 \<Rightarrow> u64 \<Rightarrow> u64 \<Rightarrow> 'a keyboard_state_scheme \<Rightarrow> 'a keyboard_state_scheme option" where
  "mmap_fill node block alloc_size offset s =
     (if node = NULL then Some s
      else do {
        v \<leftarrow> vnode_at s node;
        if offset < vn_size v then do {
          let want = vn_size v - offset;
          let want = (if alloc_size < want then alloc_size else want);
          rd \<leftarrow> Option.bind (vn_ops v) ops_read;
          (r, n, s) \<leftarrow> rd node block want offset s;
          Some s }
        else Some s })"

definition map_block ::
  "'b kernel_build_scheme \<Rightarrow> u64 \<Rightarrow> u64 \<Rightarrow> u64 \<Rightarrow> vm_flags \<Rightarrow> nat \<Rightarrow> 'a keyboard_state_scheme \<Rightarrow> (int \<times> 'a keyboard_state_scheme) option" where
  "map_block K l4 target_vaddr phys_base pflags pages s =
     try_each (\<lambda>i s. map_page_4k K l4 (target_vaddr + of_nat i * 0x1000) (phys_base + of_nat i * 0x1000) pflags s) [0..<pages] s"

definition mmap_flags :: "u64 \<Rightarrow> vm_flags" where
  "mmap_flags prot = VMF_USER OR (if prot AND 0x2 \<noteq> 0 then VMF_WRITE else 0) OR (if prot AND 0x1 \<noteq> 0 then VMF_EXEC else 0)"

definition syscall_linux_mmap :: "'b kernel_build_scheme \<Rightarrow> syscall_regs \<Rightarrow> u64 \<Rightarrow> 'a keyboard_state_scheme \<Rightarrow> 'a sys_result" where
  "syscall_linux_mmap K regs process s =
     (if process = NULL then Some (Ret (- 1), s)
      else let addr = sr_arg1 regs; len = sr_arg2 regs; flags = sr_arg4 regs; fd = sint (sr_arg5 regs); offset = sr_arg6 regs in
        if len = 0 then Some (Ret 0, s)
        else do {
          let alloc_size = page_align_up len;
          let pages_count = alloc_size div 0x1000;
          p \<leftarrow> processes s process;
          let target_vaddr = (if addr = 0 then p_mmap_current p else page_align_up addr);
          s \<leftarrow> (if addr = 0 then upd_process process (\<lambda>p. p\<lparr>p_mmap_current := p_mmap_current p + alloc_size\<rparr>) s else Some s);
          let anonymous = (flags AND 0x20 \<noteq> 0 \<or> fd < 0);
          node \<leftarrow> (if anonymous then Some NULL else map_option fd_vnode (get_fd p fd));
          if \<not> anonymous \<and> node = NULL then Some (Ret (- EBADF), s)
          else do {
            (virt_block, s) \<leftarrow> page_alloc pages_count s;
            if virt_block = NULL then Some (Ret 0, s)
            else do {
              let phys_base = hhdm_virt_to_phys K virt_block;
              let s = s\<lparr>kbytes := memset virt_block 0 alloc_size (kbytes s)\<rparr>;
              s \<leftarrow> mmap_fill node virt_block alloc_size offset s;
              (r, s) \<leftarrow> map_block K (p_page_table p) target_vaddr phys_base (mmap_flags (sr_arg3 regs)) (unat pages_count) s;
              if r \<noteq> 0 then do { s \<leftarrow> free virt_block s; Some (Ret 0, s) }
              else Some (Ret target_vaddr, s) } } })"

text \<open>\<^verbatim>\<open>for (va = addr; va < addr + aligned_len; va += 0x1000) if (f(va) != 0) return err;\<close>\<close>

partial_function (option) pages_loop ::
  "(u64 \<Rightarrow> 'a keyboard_state_scheme \<Rightarrow> (int \<times> 'a keyboard_state_scheme) option) \<Rightarrow> u64 \<Rightarrow> u64 \<Rightarrow> 'a keyboard_state_scheme \<Rightarrow>
   (int \<times> 'a keyboard_state_scheme) option" where
  "pages_loop f fin va s =
     (if \<not> va < fin then Some (0, s)
      else do {
        (r, s) \<leftarrow> f va s;
        if r \<noteq> 0 then Some (r, s) else pages_loop f fin (va + 0x1000) s })"

definition mprotect_flags :: "u64 \<Rightarrow> vm_flags" where
  "mprotect_flags prot = VMF_USER OR (if prot AND 0x2 \<noteq> 0 then VMF_WRITE else 0) OR (if prot AND 0x4 \<noteq> 0 then VMF_EXEC else 0)"

definition syscall_linux_mprotect :: "'b kernel_build_scheme \<Rightarrow> syscall_regs \<Rightarrow> u64 \<Rightarrow> 'a keyboard_state_scheme \<Rightarrow> 'a sys_result" where
  "syscall_linux_mprotect K regs process s =
     (if process = NULL then Some (Ret (- EINVAL), s)
      else let addr = sr_arg1 regs; len = sr_arg2 regs in
        if len = 0 then Some (Ret 0, s)
        else if addr AND 0xFFF \<noteq> 0 then Some (Ret (- EINVAL), s)
        else do {
          p \<leftarrow> processes s process;
          (r, s) \<leftarrow> pages_loop (\<lambda>va s. protect_page_4k K (p_page_table p) va (mprotect_flags (sr_arg3 regs)) s) (addr + page_align_up len) addr s;
          Some (Ret (if r \<noteq> 0 then - ENOMEM else 0), s) })"

definition syscall_linux_munmap :: "'b kernel_build_scheme \<Rightarrow> syscall_regs \<Rightarrow> u64 \<Rightarrow> 'a keyboard_state_scheme \<Rightarrow> 'a sys_result" where
  "syscall_linux_munmap K regs process s =
     (if process = NULL then Some (Ret (- EINVAL), s)
      else let addr = sr_arg1 regs; len = sr_arg2 regs in
        if len = 0 then Some (Ret (- EINVAL), s)
        else if addr AND 0xFFF \<noteq> 0 then Some (Ret (- EINVAL), s)
        else do {
          p \<leftarrow> processes s process;
          (r, s) \<leftarrow> pages_loop (\<lambda>va s. unmap_page_4k K (p_page_table p) va s) (addr + page_align_up len) addr s;
          Some (Ret (if r \<noteq> 0 then - 12 else 0), s) })"

section \<open>Replacing the program\<close>

text \<open>The vectors of \<open>execve\<close> are copied into kernel memory: an array of pointers and one block per string.\<close>

definition exec_free_strvec :: "u64 \<Rightarrow> nat \<Rightarrow> 'a keyboard_state_scheme \<Rightarrow> 'a keyboard_state_scheme option" where
  "exec_free_strvec vec cnt s =
     (if vec = NULL then Some s
      else do {
        s \<leftarrow> for_each (\<lambda>i s. free (load64 (kbytes s) (vec + 8 * of_nat i)) s) [0..<cnt] s;
        free vec s })"

text \<open>\<open>fuel\<close> counts down from \<open>EXEC_MAX_ARGS\<close>.\<close>

primrec count_user_vec :: "bytes_mem \<Rightarrow> u64 \<Rightarrow> nat \<Rightarrow> nat \<Rightarrow> nat option" where
  "count_user_vec m vec 0 n = (if load64 m (vec + 8 * of_nat n) = 0 then Some n else None)"
| "count_user_vec m vec (Suc fuel) n =
     (if load64 m (vec + 8 * of_nat n) = 0 then Some n else count_user_vec m vec fuel (n + 1))"

text \<open>One string: its status, the budget that is left, and the state.\<close>

definition exec_copy_string ::
  "u64 \<Rightarrow> u64 \<Rightarrow> nat \<Rightarrow> u64 \<times> 'a keyboard_state_scheme \<Rightarrow> (int \<times> u64 \<times> 'a keyboard_state_scheme) option" where
  "exec_copy_string user_vec vec i st = (case st of (budget, s) \<Rightarrow> do {
     let src = load64 (kbytes s) (user_vec + 8 * of_nat i);
     if USER_VA_LIMIT \<le> src then do { s \<leftarrow> exec_free_strvec vec i s; Some (- 14, budget, s) }
     else do {
       n \<leftarrow> strlen (kbytes s) src;
       let len = of_nat (n + 1);
       if budget < len then do { s \<leftarrow> exec_free_strvec vec i s; Some (- 7, budget, s) }
       else do {
         let budget = budget - len;
         (block, s) \<leftarrow> malloc len s;
         let s = s\<lparr>kbytes := store64 (vec + 8 * of_nat i) block (kbytes s)\<rparr>;
         if block = NULL then do { s \<leftarrow> exec_free_strvec vec i s; Some (- 12, budget, s) }
         else Some (0, budget, s\<lparr>kbytes := memcpy block src len (kbytes s)\<rparr>) } } })"

definition exec_copy_strvec ::
  "u64 \<Rightarrow> u64 \<Rightarrow> 'a keyboard_state_scheme \<Rightarrow> (int \<times> u64 \<times> nat \<times> u64 \<times> 'a keyboard_state_scheme) option" where
  "exec_copy_strvec user_vec budget s =
     (if user_vec = NULL then Some (0, NULL, 0, budget, s)
      else if USER_VA_LIMIT \<le> user_vec then Some (- 14, NULL, 0, budget, s)
      else (case count_user_vec (kbytes s) user_vec 1024 0 of
         None \<Rightarrow> Some (- 7, NULL, 0, budget, s)
       | Some cnt \<Rightarrow> do {
           (vec, cleared, s) \<leftarrow> calloc (of_nat cnt + 1) 8 s;
           if vec = NULL then Some (- 12, NULL, 0, budget, s)
           else do {
             (r, budget, s) \<leftarrow> try_each (exec_copy_string user_vec vec) [0..<cnt] (budget, s\<lparr>kbytes := memset vec 0 cleared (kbytes s)\<rparr>);
             Some (if r \<noteq> 0 then (r, NULL, 0, budget, s) else (0, vec, cnt, budget, s)) } }))"

text \<open>Reading the whole file: whether all of it arrived.\<close>

partial_function (option) exec_read_loop ::
  "(u64 \<Rightarrow> u64 \<Rightarrow> u64 \<Rightarrow> u64 \<Rightarrow> 'a keyboard_state_scheme \<Rightarrow> (int \<times> u64 option \<times> 'a keyboard_state_scheme) option) \<Rightarrow>
   u64 \<Rightarrow> u64 \<Rightarrow> u64 \<Rightarrow> u64 \<Rightarrow> 'a keyboard_state_scheme \<Rightarrow> (bool \<times> 'a keyboard_state_scheme) option" where
  "exec_read_loop rd node buf sz got s =
     (if \<not> got < sz then Some (got = sz, s)
      else do {
        (r, n, s) \<leftarrow> rd node (buf + got) (sz - got) got s;
        if r \<noteq> 0 \<or> count_of n = 0 then Some (got = sz, s)
        else exec_read_loop rd node buf sz (got + count_of n) s })"

text \<open>The part of the path behind its last slash that is not at the end.\<close>

fun base_name :: "u8 list \<Rightarrow> u8 list \<Rightarrow> u8 list" where
  "base_name base (c # d # cs) = base_name (if c = SLASH then d # cs else base) (d # cs)"
| "base_name base cs = base"

text \<open>From the lookup on: the status, the image, and the state.\<close>

definition exec_image ::
  "'b kernel_build_scheme \<Rightarrow> u8 \<Rightarrow> u8 list \<Rightarrow> u64 \<Rightarrow> nat \<Rightarrow> u64 \<Rightarrow> u64 \<Rightarrow> u64 \<Rightarrow> u64 \<Rightarrow> 'a keyboard_state_scheme \<Rightarrow>
   (int \<times> u64 \<times> 'a keyboard_state_scheme) option" where
  "exec_image K cpu path argv argc envp process thread frame s = do {
     (r, node) \<leftarrow> vfs_lookup path s;
     (case node of
        None \<Rightarrow> Some (- 2, NULL, s)
      | Some node \<Rightarrow> do {
          v \<leftarrow> vnode_at s node;
          if vn_type v = VNODE_TYPE_DIR then Some (- 13, NULL, s)
          else (case Option.bind (vn_ops v) ops_read of
             None \<Rightarrow> Some (- 8, NULL, s)
           | Some rd \<Rightarrow>
               if vn_size v < 4 then Some (- 8, NULL, s)
               else do {
                 (image, s) \<leftarrow> malloc (vn_size v) s;
                 if image = NULL then Some (- 12, NULL, s)
                 else do {
                   (complete, s) \<leftarrow> exec_read_loop rd node image (vn_size v) 0 s;
                   if \<not> complete then Some (- 8, image, s)
                   else do {
                     p \<leftarrow> processes s process;
                     (r, prepared, s) \<leftarrow> elf_prepare K \<lparr>rq_data = image, rq_size = vn_size v, rq_argv = argv, rq_argc = int argc,
                        rq_envp = envp, rq_syscall_conv = p_syscall_conv p, rq_arg = 0\<rparr> s;
                     if r \<noteq> 0 then Some (- 8, image, s)
                     else do {
                       (_, s) \<leftarrow> process_replace K cpu process thread frame prepared (Some (base_name path path)) s;
                       Some (0, image, s) } } } }) }) }"

text \<open>Without arguments \<open>argv\<close> is an array with the path alone.\<close>

definition exec_default_argv :: "u64 \<Rightarrow> 'a keyboard_state_scheme \<Rightarrow> (int \<times> u64 \<times> nat \<times> 'a keyboard_state_scheme) option" where
  "exec_default_argv path s = do {
     (vec, cleared, s) \<leftarrow> calloc 2 8 s;
     if vec = NULL then Some (- 12, NULL, 0, s)
     else Some (0, vec, 1, s\<lparr>kbytes := store64 vec path (memset vec 0 cleared (kbytes s))\<rparr>) }"

definition exec_run ::
  "'b kernel_build_scheme \<Rightarrow> u8 \<Rightarrow> syscall_regs \<Rightarrow> u64 \<Rightarrow> u64 \<Rightarrow> u8 list \<Rightarrow> u64 \<Rightarrow> 'a keyboard_state_scheme \<Rightarrow>
   (int \<times> u64 \<times> nat \<times> u64 \<times> nat \<times> u64 \<times> 'a keyboard_state_scheme) option" where
  "exec_run K cpu regs process thread name path s = do {
     (err, argv, argc, budget, s) \<leftarrow> exec_copy_strvec (sr_arg2 regs) (256 * 1024) s;
     if err \<noteq> 0 then Some (err, argv, argc, NULL, 0, NULL, s)
     else do {
       (err, envp, envc, budget, s) \<leftarrow> exec_copy_strvec (sr_arg3 regs) budget s;
       if err \<noteq> 0 then Some (err, argv, argc, envp, envc, NULL, s)
       else do {
         (err, argv, argc, s) \<leftarrow> (if argc = 0 then exec_default_argv path s else Some (0, argv, argc, s));
         if err \<noteq> 0 then Some (err, argv, argc, envp, envc, NULL, s)
         else do {
           (err, image, s) \<leftarrow> exec_image K cpu name argv argc envp process thread (sr_frame regs) s;
           Some (err, argv, argc, envp, envc, image, s) } } } }"

definition syscall_linux_execve ::
  "'b kernel_build_scheme \<Rightarrow> u8 \<Rightarrow> syscall_regs \<Rightarrow> u64 \<Rightarrow> u64 \<Rightarrow> 'a keyboard_state_scheme \<Rightarrow> 'a sys_result" where
  "syscall_linux_execve K cpu regs process thread s =
     (let user_path = sr_arg1 regs in
      if process = NULL \<or> thread = NULL \<or> sr_frame regs = NULL then Some (Ret (- EINVAL), s)
      else if user_path = NULL \<or> USER_VA_LIMIT \<le> user_path then Some (Ret (- EFAULT), s)
      else do {
        n \<leftarrow> strlen (kbytes s) user_path;
        if 4096 < n + 1 then Some (Ret (- ENAMETOOLONG), s)
        else do {
          let name = load_bytes (kbytes s) user_path n;
          (path, s) \<leftarrow> malloc (of_nat (n + 1)) s;
          if path = NULL then Some (Ret (- ENOMEM), s)
          else do {
            let s = s\<lparr>kbytes := memcpy path user_path (of_nat (n + 1)) (kbytes s)\<rparr>;
            (err, argv, argc, envp, envc, image, s) \<leftarrow> exec_run K cpu regs process thread name path s;
            let s = (if argv \<noteq> NULL \<and> argc = 1 \<and> load64 (kbytes s) argv = path
                     then s\<lparr>kbytes := store64 argv NULL (kbytes s)\<rparr> else s);
            s \<leftarrow> exec_free_strvec argv argc s;
            s \<leftarrow> exec_free_strvec envp envc s;
            s \<leftarrow> free_if image s;
            s \<leftarrow> free path s;
            Some (Ret (word_of_int err), s) } } })"

section \<open>Processes\<close>

abbreviation (input) CLONE_VFORK :: u64 where "CLONE_VFORK \<equiv> 0x4000"
abbreviation (input) CLONE_SETTLS :: u64 where "CLONE_SETTLS \<equiv> 0x80000"
abbreviation (input) CLONE_PARENT_SETTID :: u64 where "CLONE_PARENT_SETTID \<equiv> 0x100000"
abbreviation (input) CLONE_CHILD_SETTID :: u64 where "CLONE_CHILD_SETTID \<equiv> 0x1000000"
abbreviation (input) SIGCHLD :: u64 where "SIGCHLD \<equiv> 17"

text \<open>VM, SIGHAND, PARENT, THREAD, NEWNS and SYSVSEM.\<close>

definition CLONE_UNSUPPORTED :: u64 where
  "CLONE_UNSUPPORTED = 0x100 OR 0x800 OR 0x8000 OR 0x10000 OR 0x20000 OR 0x40000"

definition do_clone ::
  "'b kernel_build_scheme \<Rightarrow> u8 \<Rightarrow> syscall_regs \<Rightarrow> u64 \<Rightarrow> u64 \<Rightarrow> u64 \<Rightarrow> u64 \<Rightarrow> u64 \<Rightarrow> u64 \<Rightarrow> u64 \<Rightarrow> 'a keyboard_state_scheme \<Rightarrow> 'a sys_result" where
  "do_clone K cpu regs process thread flags child_stack ptid ctid tls s =
     (if process = NULL \<or> thread = NULL \<or> sr_frame regs = NULL then Some (Ret (- EINVAL), s)
      else if flags AND CLONE_UNSUPPORTED \<noteq> 0 then Some (Ret (- EINVAL), s)
      else do {
        let opts = \<lparr>co_child_stack = child_stack, co_set_tls = (flags AND CLONE_SETTLS \<noteq> 0), co_tls = tls,
              co_child_tid_addr = (if flags AND CLONE_CHILD_SETTID \<noteq> 0 \<and> ctid < USER_VA_LIMIT then ctid else 0)\<rparr>;
        (child, s) \<leftarrow> process_clone K cpu process thread (sr_frame regs) (Some opts) s;
        if child = NULL then Some (Ret (- ENOMEM), s)
        else do {
          c \<leftarrow> processes s child;
          let s = (if flags AND CLONE_PARENT_SETTID \<noteq> 0 \<and> ptid \<noteq> 0 \<and> ptid < USER_VA_LIMIT
                   then s\<lparr>kbytes := store32 ptid (p_main_tid c) (kbytes s)\<rparr> else s);
          Some (Ret (ucast (p_pid c)), s) } })"

definition syscall_linux_fork ::
  "'b kernel_build_scheme \<Rightarrow> u8 \<Rightarrow> syscall_regs \<Rightarrow> u64 \<Rightarrow> u64 \<Rightarrow> 'a keyboard_state_scheme \<Rightarrow> 'a sys_result" where
  "syscall_linux_fork K cpu regs process thread s = do_clone K cpu regs process thread SIGCHLD 0 0 0 0 s"

definition syscall_linux_vfork ::
  "'b kernel_build_scheme \<Rightarrow> u8 \<Rightarrow> syscall_regs \<Rightarrow> u64 \<Rightarrow> u64 \<Rightarrow> 'a keyboard_state_scheme \<Rightarrow> 'a sys_result" where
  "syscall_linux_vfork K cpu regs process thread s = do_clone K cpu regs process thread (CLONE_VFORK OR SIGCHLD) 0 0 0 0 s"

definition syscall_linux_clone ::
  "'b kernel_build_scheme \<Rightarrow> u8 \<Rightarrow> syscall_regs \<Rightarrow> u64 \<Rightarrow> u64 \<Rightarrow> 'a keyboard_state_scheme \<Rightarrow> 'a sys_result" where
  "syscall_linux_clone K cpu regs process thread s =
     do_clone K cpu regs process thread (sr_arg1 regs) (sr_arg2 regs) (sr_arg3 regs) (sr_arg4 regs) (sr_arg5 regs) s"

text \<open>WNOHANG, WUNTRACED, WCONTINUED, WNOTHREAD, WALL and WCLONE.\<close>

definition WAIT4_VALID_OPTIONS :: u32 where
  "WAIT4_VALID_OPTIONS = 0x1 OR 0x2 OR 0x8 OR 0x20000000 OR 0x40000000 OR 0x80000000"

text \<open>A round of the loop: the snapshot is taken before the children are looked at.\<close>

definition wait4_round :: "u64 \<Rightarrow> int \<Rightarrow> u64 \<Rightarrow> int \<Rightarrow> u64 \<Rightarrow> 'a keyboard_state_scheme \<Rightarrow> 'a sys_result" where
  "wait4_round process want wstatus options rusage s = do {
     seq \<leftarrow> wait_queue_snapshot (child_wq process) s;
     (r, status, s) \<leftarrow> process_wait_child process want s;
     if r < 0 then Some (Ret (- ECHILD), s)
     else if 0 < r then do {
       let st = (case status of None \<Rightarrow> 0 | Some v \<Rightarrow> v);
       let s = (if wstatus \<noteq> 0 then s\<lparr>kbytes := store32 wstatus st (kbytes s)\<rparr> else s);
       let s = (if rusage \<noteq> 0 then s\<lparr>kbytes := memset rusage 0 144 (kbytes s)\<rparr> else s);
       Some (Ret (word_of_int r), s) }
     else if (word_of_int options :: u32) AND 1 \<noteq> 0 then Some (Ret 0, s)
     else Some (Sleep (child_wq process) seq (Wait4_More want wstatus options rusage), s) }"

definition syscall_linux_wait4 :: "syscall_regs \<Rightarrow> u64 \<Rightarrow> 'a keyboard_state_scheme \<Rightarrow> 'a sys_result" where
  "syscall_linux_wait4 regs process s =
     (if process = NULL then Some (Ret (- EINVAL), s)
      else let pid = to_int (sr_arg1 regs); wstatus = sr_arg2 regs; options = to_int (sr_arg3 regs); rusage = sr_arg4 regs in
        if (word_of_int options :: u32) AND NOT WAIT4_VALID_OPTIONS \<noteq> 0 then Some (Ret (- EINVAL), s)
        else if wstatus \<noteq> 0 \<and> USER_VA_LIMIT < wstatus + 4 then Some (Ret (- EFAULT), s)
        else if rusage \<noteq> 0 \<and> USER_VA_LIMIT < rusage + 144 then Some (Ret (- EFAULT), s)
        else wait4_round process (if 0 < pid then pid else - 1) wstatus options rusage s)"

definition syscall_linux_gettid :: "u64 \<Rightarrow> 'a keyboard_state_scheme \<Rightarrow> 'a sys_result" where
  "syscall_linux_gettid thread s = do { t \<leftarrow> threads s thread; Some (Ret (ucast (t_id t)), s) }"

definition syscall_linux_getpid :: "u64 \<Rightarrow> 'a keyboard_state_scheme \<Rightarrow> 'a sys_result" where
  "syscall_linux_getpid process s = do { p \<leftarrow> processes s process; Some (Ret (ucast (p_pid p)), s) }"

section \<open>The kernel's own calls\<close>

text \<open>The addresses of the two local variables of \<open>spawn\<close> that are used through pointers.\<close>

record syscall_env = keyboard_env +
  spawn_buffer :: u64
  spawn_argv :: u64

definition syscall_own_exit :: "'b kernel_build_scheme \<Rightarrow> u8 \<Rightarrow> 'a keyboard_state_scheme \<Rightarrow> 'a sys_result" where
  "syscall_own_exit K cpu s = exit_result (thread_exit K cpu s)"

definition syscall_own_write :: "'e keyboard_env_scheme \<Rightarrow> syscall_regs \<Rightarrow> 'a keyboard_state_scheme \<Rightarrow> 'a sys_result" where
  "syscall_own_write E regs s =
     (if sr_arg1 regs = 1 \<or> sr_arg1 regs = 2
      then do { s \<leftarrow> user_print E (sr_arg2 regs) (sr_arg3 regs) s; Some (Ret (sr_arg3 regs), s) }
      else Some (Ret (- 1), s))"

text \<open>\<open>autofree\<close> hands the address of the variable to \<open>free_cleanup\<close>, which frees that address.\<close>

definition free_cleanup :: "u64 \<Rightarrow> 'a heap_state_scheme \<Rightarrow> 'a heap_state_scheme option" where
  "free_cleanup var s = free var s"

definition syscall_own_spawn ::
  "'e syscall_env_scheme \<Rightarrow> 'b kernel_build_scheme \<Rightarrow> syscall_regs \<Rightarrow> 'a keyboard_state_scheme \<Rightarrow> 'a sys_result" where
  "syscall_own_spawn E K regs s = do {
     let path = sr_arg1 regs;
     name \<leftarrow> user_string (kbytes s) path;
     (r, node) \<leftarrow> vfs_lookup name s;
     (case node of
        None \<Rightarrow> Some (Ret (- 3), s)
      | Some node \<Rightarrow> do {
          v \<leftarrow> vnode_at s node;
          (buffer, s) \<leftarrow> malloc (vn_size v) s;
          rd \<leftarrow> Option.bind (vn_ops v) ops_read;
          (r, n, s) \<leftarrow> rd node buffer (vn_size v) 0 s;
          (code, s) \<leftarrow> (if count_of n = vn_size v then do {
               let s = s\<lparr>kbytes := store64 (spawn_argv E) path (kbytes s)\<rparr>;
               (response, s) \<leftarrow> elf_start K \<lparr>rq_data = buffer, rq_size = vn_size v, rq_argv = spawn_argv E, rq_argc = 1, rq_envp = NULL,
                  rq_syscall_conv = ucast (sr_arg2 regs), rq_arg = ucast (sr_arg3 regs)\<rparr> s;
               Some (if response \<noteq> 0 then - 8 else 0, s) }
             else Some (- 8, s));
          s \<leftarrow> free_cleanup (spawn_buffer E) s;
          Some (Ret code, s) }) }"

section \<open>The tables and the entry\<close>

definition syscall_linux_to_sregs :: "registers \<Rightarrow> syscall_regs" where
  "syscall_linux_to_sregs r = \<lparr>sr_arg1 = rg_rdi r, sr_arg2 = rg_rsi r, sr_arg3 = rg_rdx r, sr_arg4 = rg_r10 r, sr_arg5 = rg_r8 r,
     sr_arg6 = rg_r9 r, sr_syscall_no = rg_rax r, sr_frame = NULL\<rparr>"

definition syscall_own_to_sregs :: "registers \<Rightarrow> syscall_regs" where
  "syscall_own_to_sregs r = \<lparr>sr_arg1 = rg_rdx r, sr_arg2 = rg_rdi r, sr_arg3 = rg_rsi r, sr_arg4 = rg_r10 r, sr_arg5 = rg_r9 r,
     sr_arg6 = rg_r8 r, sr_syscall_no = rg_rax r, sr_frame = NULL\<rparr>"

definition syscall_set_return_val :: "u64 \<Rightarrow> registers \<Rightarrow> registers" where
  "syscall_set_return_val v r = r\<lparr>rg_rax := v\<rparr>"

definition syscall_linux_table ::
  "'e syscall_env_scheme \<Rightarrow> 'b kernel_build_scheme \<Rightarrow> u8 \<Rightarrow> syscall_regs \<Rightarrow> u64 \<Rightarrow> u64 \<Rightarrow>
   (u64 \<times> ('a keyboard_state_scheme \<Rightarrow> 'a sys_result)) list" where
  "syscall_linux_table E K cpu regs process thread =
    [(0, syscall_linux_read E regs process), (1, syscall_linux_write E regs process),
     (2, syscall_linux_open regs process), (3, syscall_linux_close regs process),
     (5, syscall_linux_fstat regs process), (7, syscall_linux_poll regs process),
     (8, syscall_linux_lseek regs process), (9, syscall_linux_mmap K regs process),
     (10, syscall_linux_mprotect K regs process), (11, syscall_linux_munmap K regs process),
     (12, syscall_linux_brk K regs process), (13, syscall_linux_stub_unimplemented),
     (16, syscall_linux_ioctl regs process), (17, syscall_linux_pread64 E regs process),
     (20, syscall_linux_writev E regs process), (21, syscall_linux_access regs process),
     (39, syscall_linux_getpid process), (56, syscall_linux_clone K cpu regs process thread),
     (57, syscall_linux_fork K cpu regs process thread), (58, syscall_linux_vfork K cpu regs process thread),
     (59, syscall_linux_execve K cpu regs process thread), (60, syscall_linux_exit K cpu regs),
     (61, syscall_linux_wait4 regs process), (63, syscall_linux_uname regs),
     (79, syscall_linux_getcwd regs), (109, syscall_linux_setpgid), (111, own_pid process), (112, own_pid process),
     (121, syscall_linux_getpgid regs process), (124, own_pid process), (102, syscall_linux_stub_unimplemented),
     (107, syscall_linux_stub_unimplemented), (158, syscall_linux_arch_prctl cpu regs), (186, syscall_linux_gettid thread),
     (202, syscall_linux_stub_unimplemented), (217, syscall_linux_getdents64 regs process),
     (218, syscall_linux_set_tid_address regs thread), (231, syscall_linux_exit K cpu regs),
     (234, syscall_linux_tgkill E K cpu regs process thread), (257, syscall_linux_openat regs process),
     (262, syscall_linux_newfstatat regs process), (270, syscall_linux_pselect6 regs process),
     (273, syscall_linux_stub_unimplemented), (318, syscall_linux_getrandom regs)]"

definition syscall_own_table ::
  "'e syscall_env_scheme \<Rightarrow> 'b kernel_build_scheme \<Rightarrow> u8 \<Rightarrow> syscall_regs \<Rightarrow> (u64 \<times> ('a keyboard_state_scheme \<Rightarrow> 'a sys_result)) list" where
  "syscall_own_table E K cpu regs =
    [(5, syscall_own_write E regs), (2000, syscall_own_exit K cpu), (2001, syscall_own_spawn E K regs)]"

text \<open>A number that no entry of the table has yields the error of the convention.\<close>

definition syscall_dispatch ::
  "'e syscall_env_scheme \<Rightarrow> 'b kernel_build_scheme \<Rightarrow> u8 \<Rightarrow> u64 \<Rightarrow> registers \<Rightarrow> u64 \<Rightarrow> u64 \<Rightarrow> process \<Rightarrow> 'a keyboard_state_scheme \<Rightarrow> 'a sys_result" where
  "syscall_dispatch E K cpu regs r process thread p s =
     (if p_syscall_conv p = 1
      then let sregs = (syscall_linux_to_sregs r)\<lparr>sr_frame := regs\<rparr> in
        (case map_of (syscall_linux_table E K cpu sregs process thread) (sr_syscall_no sregs) of
           Some f \<Rightarrow> f s | None \<Rightarrow> Some (Ret (- ENOSYS), s))
      else let sregs = (syscall_own_to_sregs r)\<lparr>sr_frame := regs\<rparr> in
        (case map_of (syscall_own_table E K cpu sregs) (sr_syscall_no sregs) of
           Some f \<Rightarrow> f s | None \<Rightarrow> Some (Ret (- 1), s)))"

definition syscall_return :: "u64 \<Rightarrow> 'a sys_result \<Rightarrow> 'a sys_result" where
  "syscall_return regs r = do {
     (a, s) \<leftarrow> r;
     (case a of
        Ret v \<Rightarrow> do { s \<leftarrow> upd_frame regs (syscall_set_return_val v) s; Some (Ret v, s) }
      | _ \<Rightarrow> Some (a, s)) }"

definition syscall_handler ::
  "'e syscall_env_scheme \<Rightarrow> 'b kernel_build_scheme \<Rightarrow> u8 \<Rightarrow> u64 \<Rightarrow> 'a keyboard_state_scheme \<Rightarrow> 'a sys_result" where
  "syscall_handler E K cpu regs s = do {
     let thread = scheduler_get_current_thread cpu s;
     t \<leftarrow> threads s thread;
     let process = t_process t;
     p \<leftarrow> processes s process;
     r \<leftarrow> frames s regs;
     syscall_return regs (syscall_dispatch E K cpu regs r process thread p s) }"

text \<open>A caller that slept goes on with its loop.\<close>

definition syscall_resume ::
  "'e keyboard_env_scheme \<Rightarrow> u64 \<Rightarrow> u64 \<Rightarrow> resume \<Rightarrow> 'a keyboard_state_scheme \<Rightarrow> 'a sys_result" where
  "syscall_resume E regs process k s = syscall_return regs (case k of
     Read_More buf cnt n \<Rightarrow> map_option (\<lambda>(a, s). (case a of Read_Done n \<Rightarrow> Ret (keyboard_result n)
        | Read_Wait seq n \<Rightarrow> Sleep (sym_kbd_wq E) seq (Read_More buf cnt n), s)) (keyboard_read_round E buf cnt n s)
   | Wait4_More want wstatus options rusage \<Rightarrow> wait4_round process want wstatus options rusage s)"

end
