(* ===== verification/Descriptors.thy ===== *)
theory Descriptors
  imports Syscalls
begin

text \<open>
  What the system calls on descriptors promise a program: a call on a descriptor that is not open
  answers an error and does nothing else, opening and closing a file are an insertion into and a
  removal from the map of the open files, and what is written to a file is read back through its
  descriptor.
\<close>

lemma to_int_of_nat:
  assumes "n < 2 ^ 31"
  shows "to_int (of_nat n) = int n"
proof -
  have "uint (ucast (of_nat n :: u64) :: u32) = int n"
    using assms by (simp add: unsigned_ucast_eq take_bit_nat_eq_self uint_word_of_int_eq unsigned_of_nat flip: take_bit_int_eq_self_iff)
  then show ?thesis
    using assms by (simp add: to_int_def sint_uint signed_take_bit_int_eq_self)
qed

section \<open>A descriptor that is not open\<close>

lemma upd_frame_Some: "frames s p = Some r \<Longrightarrow> upd_frame p f s = Some (s\<lparr>frames := (frames s)(p \<mapsto> f r)\<rparr>)"
  by (simp add: upd_frame_def)

text \<open>The entry of the kernel, for a caller with the Linux convention.\<close>

lemma syscall_handler_linux:
  assumes "threads s (scheduler_get_current_thread cpu s) = Some t" "processes s (t_process t) = Some p"
    "frames s regs = Some r" "p_syscall_conv p = 1"
    and f: "map_of (syscall_linux_table E K cpu ((syscall_linux_to_sregs r)\<lparr>sr_frame := regs\<rparr>) (t_process t)
      (scheduler_get_current_thread cpu s)) (rg_rax r) = Some f"
  shows "syscall_handler E K cpu regs s = syscall_return regs (f s)"
  using assms by (simp add: syscall_handler_def syscall_dispatch_def Let_def syscall_linux_to_sregs_def)

lemma syscall_return_Ret:
  "frames s regs = Some r \<Longrightarrow>
   syscall_return regs (Some (Ret v, s)) = Some (Ret v, s\<lparr>frames := (frames s)(regs \<mapsto> r\<lparr>rg_rax := v\<rparr>)\<rparr>)"
  by (simp add: syscall_return_def upd_frame_Some syscall_set_return_val_def)

lemma do_read_closed:
  "processes s process = Some p \<Longrightarrow> process \<noteq> NULL \<Longrightarrow> \<not> fd_open p fd \<Longrightarrow> do_read E process fd buf cnt off u s = Some (Ret (- EBADF), s)"
  by (simp add: do_read_def)

lemma do_write_closed:
  "processes s process = Some p \<Longrightarrow> process \<noteq> NULL \<Longrightarrow> \<not> fd_open p fd \<Longrightarrow> do_write E process data len fd s = Some (- EBADF, s)"
  by (simp add: do_write_def)


section \<open>Opening and closing\<close>

text \<open>The open files of a process.\<close>

definition open_files :: "process \<Rightarrow> int \<rightharpoonup> file_desc" where
  "open_files p = (\<lambda>fd. if fd_open p fd then Some (p_fds p ! nat fd) else None)"

lemma open_files_upd:
  assumes "length (p_fds p) = 32" "fd_in_range fd"
  shows "open_files (p\<lparr>p_fds := (p_fds p)[nat fd := f]\<rparr>) = (open_files p)(fd := if fd_used f then Some f else None)"
proof
  fix i
  have "i = fd \<or> nat i \<noteq> nat fd \<or> \<not> fd_in_range i" using assms(2) by (auto simp: fd_in_range_def)
  with assms show "open_files (p\<lparr>p_fds := (p_fds p)[nat fd := f]\<rparr>) i = ((open_files p)(fd := if fd_used f then Some f else None)) i"
    by (auto simp: open_files_def fd_open_def fd_in_range_def)
qed

lemma find_upt:
  assumes "find P [a..<b] = Some k"
  shows "a \<le> k \<and> k < b \<and> P k \<and> (\<forall>i. a \<le> i \<and> i < k \<longrightarrow> \<not> P i)"
proof -
  from assms obtain j where j: "j < b - a" "P (a + j)" "k = a + j" "\<forall>i<j. \<not> P (a + i)"
    by (auto simp: find_Some_iff)
  have "\<not> P i" if "a \<le> i" "i < k" for i using j(4) [rule_format, of "i - a"] j(3) that by simp
  with j show ?thesis by auto
qed

lemma free_fd_Some:
  assumes "free_fd p = Some fd"
  shows "3 \<le> fd" "fd < 32" "\<not> fd_open p (int fd)" "\<forall>i. 3 \<le> i \<and> i < fd \<longrightarrow> fd_open p (int i)"
  using find_upt [OF assms [unfolded free_fd_def]] by (auto simp: fd_open_def fd_in_range_def)

text \<open>The file systems leave the processes alone.\<close>

lemma malloc_processes: "malloc n s = Some (q, s') \<Longrightarrow> processes s' = processes s"
  by (auto simp: malloc_def split: if_splits option.splits)

lemma free_processes: "free q s = Some s' \<Longrightarrow> processes s' = processes s"
  by (auto simp: free_def split: if_splits option.splits)

lemma ramfs_create_node_processes:
  "ramfs_create_node name type s = Some (q, s') \<Longrightarrow> processes s' = processes s"
  by (auto simp: ramfs_create_node_def Option.bind_eq_Some_conv dest: malloc_processes split: if_splits)

lemma ramfs_add_child_processes: "ramfs_add_child d q s = Some s' \<Longrightarrow> processes s' = processes s"
  by (auto simp: ramfs_add_child_def Let_def Option.bind_eq_Some_conv split: if_splits)

lemma ramfs_create_processes:
  assumes "ramfs_create d name s = Some (r, q, s')"
  shows "processes s' = processes s \<and> (r = 0 \<longrightarrow> q \<noteq> None)"
  using assms
  by (auto simp: ramfs_create_def ramfs_new_child_def Option.bind_eq_Some_conv
      dest: ramfs_create_node_processes dest!: ramfs_add_child_processes split: if_splits)

lemma ops_create_processes:
  assumes "ops_create ops = Some create" "create d name s = Some (r, q, s')"
  shows "processes s' = processes s" "r = 0 \<longrightarrow> q \<noteq> None"
  using assms ramfs_create_processes [of d name s r q s']
  by (auto simp: ops_create_def tarfs_create_def split: vnode_ops.splits)

lemma vfs_lookup_loop_found: "vfs_lookup_loop root cur path s = Some (0, q) \<Longrightarrow> q \<noteq> None"
proof (induction root cur path s rule: vfs_lookup_loop.induct)
  case (1 root cur path s)
  obtain token rest where tok: "vfs_next_token path = (token, rest)" by (cases "vfs_next_token path")
  show ?case
  proof (cases "path = []")
    case True
    with "1.prems" show ?thesis by (auto simp: vfs_lookup_loop.simps [of root cur "[]"])
  next
    case path: False
    note IH = "1.IH" [OF path tok [symmetric] refl]
    show ?thesis
    proof (cases "token = [] \<or> token = [DOT] \<or> cur = NULL")
      case True
      with "1.prems" path tok IH(1,2) show ?thesis
        by (auto simp: vfs_lookup_loop.simps [of root cur path] split: if_splits)
    next
      case False
      with "1.prems" path tok obtain v f r p where v: "vnode_at s cur = Some v" "Option.bind (vn_ops v) ops_lookup = Some f"
        "f cur token s = Some (r, p)" "\<not> (r \<noteq> 0 \<or> p = None \<or> p = Some NULL)"
        "vfs_lookup_loop root (the p) rest s = Some (0, q)"
        by (simp add: vfs_lookup_loop.simps [of root cur path] split: option.splits if_splits prod.splits)
      from IH(3) [OF _ _ _ v(1,2,3) refl v(4,5)] False show ?thesis by blast
    qed
  qed
qed

lemma vfs_lookup_found: "vfs_lookup path s = Some (0, q) \<Longrightarrow> q \<noteq> None"
  using vfs_lookup_loop_found by (fastforce simp: vfs_lookup_def split: list.splits option.splits if_splits)

lemma vfs_open_answer:
  assumes "vfs_open name flags s = Some (r, q, s')"
  shows "processes s' = processes s \<and> r \<in> {0, - 2, - 5, - 17, - 20, - 30} \<and> (r = 0 \<longrightarrow> q \<noteq> None)"
proof -
  note c = ops_create_processes
  obtain r1 node where l: "vfs_lookup name s = Some (r1, node)"
    using assms by (cases "vfs_lookup name s") (auto simp: vfs_open_def)
  show ?thesis
  proof (cases "r1 = 0")
    case True
    with l assms vfs_lookup_found show ?thesis
      by (auto simp: vfs_open_def Option.bind_eq_Some_conv split: if_splits)
  next
    case False
    show ?thesis
    proof (cases "flags AND O_CREAT = 0")
      case True
      with l False assms show ?thesis by (auto simp: vfs_open_def)
    next
      case creat: False
      with l False assms obtain r2 parent_path filename where sp: "vfs_split_path name = Some (r2, parent_path, filename)"
        by (auto simp: vfs_open_def Option.bind_eq_Some_conv)
      show ?thesis
      proof (cases "r2 = 0")
        case True
        with l False creat sp assms obtain r3 parent where lp: "vfs_lookup parent_path s = Some (r3, parent)"
          by (auto simp: vfs_open_def Option.bind_eq_Some_conv)
        from assms show ?thesis
          unfolding vfs_open_def l using False creat sp True lp
          by (auto simp: Option.bind_eq_Some_conv dest: c split: if_splits option.splits)
      qed (use l False creat sp assms in \<open>auto simp: vfs_open_def\<close>)
    qed
  qed
qed

text \<open>C37: 
  Opening a file answers the least descriptor from 3 on that is free, and enters the file that
  the path leads to at its beginning, or at its end with \<open>O_APPEND\<close>; closing it removes the entry. After
  both the process has the same open files as before, and no other process has changed.\<close>

theorem open_close:
  assumes p: "process \<noteq> NULL" "processes s process = Some p" "length (p_fds p) = 32"
    and o1: "open_path process path flags s = Some (Ret v, s1)" "unat v < 32"
  shows "3 \<le> unat v \<and> open_files p (int (unat v)) = None \<and> (\<forall>i. 3 \<le> i \<and> i < unat v \<longrightarrow> open_files p (int i) \<noteq> None) \<and>
    (\<exists>name node s' p1. user_string (kbytes s) path = Some name \<and> vfs_open name flags s = Some (0, Some node, s') \<and>
       processes s1 = (processes s)(process \<mapsto> p1) \<and>
       open_files p1 = (open_files p)(int (unat v) \<mapsto> \<lparr>fd_vnode = node,
         fd_offset = (if flags AND O_APPEND \<noteq> 0 then vn_size (the (vnode_at s' node)) else 0), fd_flags = flags, fd_used = True\<rparr>)) \<and>
    (sr_arg1 regs = v \<longrightarrow> (\<exists>s2 p2. syscall_linux_close regs process s1 = Some (Ret 0, s2) \<and>
       processes s2 = (processes s)(process \<mapsto> p2) \<and> open_files p2 = open_files p))"
proof -
  have neg: "32 \<le> unat (- 14 :: u64)" "32 \<le> unat (- 22 :: u64)" "32 \<le> unat (- 24 :: u64)" by simp_all
  from o1 p neg obtain fd where fd: "free_fd p = Some fd" by (auto simp: open_path_def split: if_splits option.splits)
  note free = free_fd_Some [OF fd]
  from o1 p fd neg obtain name r q s' where name: "user_string (kbytes s) path = Some name" "vfs_open name flags s = Some (r, q, s')"
    by (auto simp: open_path_def Option.bind_eq_Some_conv split: if_splits)
  note ans = vfs_open_answer [OF name(2)]
  have r: "r = 0"
  proof (rule ccontr)
    assume "r \<noteq> 0"
    with o1 p fd neg name have "v = word_of_int r" by (auto simp: open_path_def split: if_splits)
    with ans \<open>r \<noteq> 0\<close> o1(2) show False by auto
  qed
  with ans obtain node where node: "q = Some node" by auto
  obtain off where off: "(if flags AND O_APPEND \<noteq> 0 then map_option vn_size (vnode_at s' node) else Some 0) = Some off"
    using o1 p fd neg name r node by (auto simp: open_path_def Option.bind_eq_Some_conv split: if_splits)
  define f where "f = \<lparr>fd_vnode = node, fd_offset = off, fd_flags = flags, fd_used = True\<rparr>"
  define p1 where "p1 = p\<lparr>p_fds := (p_fds p)[nat (int fd) := f]\<rparr>"
  have s1: "v = of_nat fd" "s1 = s'\<lparr>processes := (processes s')(process \<mapsto> p1)\<rparr>"
    using o1 p fd neg name r node off ans
    by (auto simp: open_path_def upd_fd_def upd_process_def f_def p1_def split: if_splits)
  have v: "unat v = fd" using s1(1) free(2) by (simp add: unat_of_nat)
  have rng: "fd_in_range (int fd)" using free(2) by (simp add: fd_in_range_def)
  have p1: "open_files p1 = (open_files p)(int fd \<mapsto> f)" "length (p_fds p1) = 32" "fd_open p1 (int fd)"
    using open_files_upd [OF p(3) rng, of f] p(3) rng free(2) by (simp_all add: p1_def f_def fd_open_def)
  have off': "off = (if flags AND O_APPEND \<noteq> 0 then vn_size (the (vnode_at s' node)) else 0)"
    using off by (auto split: if_splits)
  have close: "\<exists>s2 p2. syscall_linux_close regs process s1 = Some (Ret 0, s2) \<and>
       processes s2 = (processes s)(process \<mapsto> p2) \<and> open_files p2 = open_files p" if "sr_arg1 regs = v"
  proof -
    have "to_int v = int fd" using free(2) unfolding s1(1) by (simp add: to_int_of_nat)
    then have "syscall_linux_close regs process s1 =
        Some (Ret 0, s1\<lparr>processes := (processes s)(process \<mapsto> p1\<lparr>p_fds := (p_fds p1)[nat (int fd) := zero_fd]\<rparr>)\<rparr>)"
      using p1 p(1) s1(2) ans that by (simp add: syscall_linux_close_def Let_def upd_fd_def upd_process_def)
    moreover have "open_files (p1\<lparr>p_fds := (p_fds p1)[nat (int fd) := zero_fd]\<rparr>) = open_files p"
      using open_files_upd [OF p1(2) rng, of zero_fd] p1(1) free(3) by (auto simp: zero_fd_def open_files_def)
    ultimately show ?thesis by force
  qed
  from free show ?thesis unfolding v
    using name r node s1 ans p1(1) close [unfolded v] off' by (auto simp: open_files_def f_def)
qed

section \<open>Writing and reading through a descriptor\<close>

lemma ramfs_grow_keeps:
  assumes "ramfs_grow q needed s = Some (b, s')" "ramfs_nodes s q = Some k"
  shows "processes s' = processes s \<and> map_option (vn_ops \<circ> rn_vnode) (ramfs_nodes s' q) = Some (vn_ops (rn_vnode k))"
proof (cases "needed \<le> vn_size (rn_vnode k)")
  case True
  with assms show ?thesis by (auto simp: ramfs_grow_def)
next
  case False
  with assms obtain new s1 where m: "malloc needed s = Some (new, s1)" by (auto simp: ramfs_grow_def Option.bind_eq_Some_conv)
  have "ramfs_nodes s1 = ramfs_nodes s" using m by (auto simp: malloc_def split: if_splits option.splits)
  with m False assms malloc_processes [OF m] show ?thesis
    by (cases "rn_data k = NULL")
      (auto simp: ramfs_grow_def Option.bind_eq_Some_conv Let_def dest!: free_processes split: if_splits)
qed

lemma ramfs_write_keeps:
  assumes "ramfs_write q buf n off s = Some (r, w, s')" "ramfs_nodes s q = Some k"
  shows "processes s' = processes s \<and> map_option (vn_ops \<circ> rn_vnode) (ramfs_nodes s' q) = Some (vn_ops (rn_vnode k))"
  using assms
  by (auto simp: ramfs_write_def Option.bind_eq_Some_conv dest!: ramfs_grow_keeps [OF _ assms(2)] split: if_splits)

lemma ramfs_read_processes: "ramfs_read q buf n off s = Some (r, w, s') \<Longrightarrow> processes s' = processes s"
  by (auto simp: ramfs_read_def Option.bind_eq_Some_conv Let_def split: if_splits)

lemma ramfs_ready_processes [simp]: "ramfs_ready i (s\<lparr>processes := x\<rparr>) q buf k = ramfs_ready i s q buf k"
  by (cases i) (simp add: ramfs_ok_def heap_at_def heap_rel_def client_buffer_def)

lemma file_data_processes [simp]: "file_data (s\<lparr>processes := x\<rparr>) q = file_data s q"
  by (simp add: file_data_def split: option.split)

lemma upd_fd_Some:
  "processes s process = Some p \<Longrightarrow> upd_fd process fd f s =
   Some (s\<lparr>processes := (processes s)(process \<mapsto> p\<lparr>p_fds := (p_fds p)[nat fd := f (p_fds p ! nat fd)]\<rparr>)\<rparr>)"
  by (simp add: upd_fd_def upd_process_def)

text \<open>A descriptor, above the three of the console, of a file of the ramfs.\<close>

definition ramfs_fd :: "heap_view \<Rightarrow> 'a keyboard_state_scheme \<Rightarrow> u64 \<Rightarrow> process \<Rightarrow> int \<Rightarrow> u64 \<Rightarrow> nat \<Rightarrow> bool" where
  "ramfs_fd i s process p fd buf k \<longleftrightarrow> process \<noteq> NULL \<and> processes s process = Some p \<and> length (p_fds p) = 32 \<and>
     3 \<le> fd \<and> fd_open p fd \<and> ramfs_ready i s (fd_vnode (p_fds p ! nat fd)) buf k \<and>
     map_option (vn_ops \<circ> rn_vnode) (ramfs_nodes s (fd_vnode (p_fds p ! nat fd))) = Some (Some RAMFS_OPS)"

lemma ramfs_fdD:
  assumes "ramfs_fd i s process p fd buf k"
  obtains n where "ramfs_nodes s (fd_vnode (p_fds p ! nat fd)) = Some n" "vn_ops (rn_vnode n) = Some RAMFS_OPS"
    "vn_type (rn_vnode n) = VNODE_TYPE_FILE" "fd_vnode (p_fds p ! nat fd) \<noteq> NULL" "get_fd p fd = Some (p_fds p ! nat fd)"
proof -
  obtain lo hi L where "i = (lo, hi, L)" by (cases i)
  with assms that show ?thesis
    by (fastforce simp: ramfs_fd_def ramfs_ok_def ramfs_node_ok_def fd_open_def get_fd_def)
qed

text \<open>A step that replaces the descriptor by one for the same file.\<close>

lemma ramfs_fd_upd:
  assumes "ramfs_fd i s process p fd buf k" "fd_vnode f = fd_vnode (p_fds p ! nat fd)" "fd_used f"
  shows "ramfs_fd i (s\<lparr>processes := (processes s)(process \<mapsto> p\<lparr>p_fds := (p_fds p)[nat fd := f]\<rparr>)\<rparr>) process
    (p\<lparr>p_fds := (p_fds p)[nat fd := f]\<rparr>) fd buf k"
  using assms by (auto simp: ramfs_fd_def fd_open_def fd_in_range_def)

lemma do_write_ramfs:
  assumes fd: "ramfs_fd i s process p fd buf (unat sz)" and f: "f = p_fds p ! nat fd"
    and small: "unat (fd_offset f) + unat sz < 2 ^ 63" and wr: "do_write E process buf sz fd s = Some (sz, s1)"
  shows "\<exists>s' j. s1 = s'\<lparr>processes := (processes s)(process \<mapsto> p\<lparr>p_fds := (p_fds p)[nat fd := advance sz f]\<rparr>)\<rparr> \<and>
    file_data s' (fd_vnode f) = write_at (file_data s (fd_vnode f)) (unat (fd_offset f)) (load_bytes (kbytes s) buf (unat sz)) \<and>
    (\<forall>b k. ramfs_fd i s process p fd b k \<longrightarrow> ramfs_fd j s' process p fd b k)"
proof -
  let ?n = "fd_vnode f"
  from fd have p: "process \<noteq> NULL" "processes s process = Some p" "3 \<le> fd" "fd_open p fd" "ramfs_ready i s ?n buf (unat sz)"
    by (simp_all add: ramfs_fd_def f)
  from ramfs_fdD [OF fd] obtain n where n: "ramfs_nodes s ?n = Some n" "vn_ops (rn_vnode n) = Some RAMFS_OPS"
    "vn_type (rn_vnode n) = VNODE_TYPE_FILE" "?n \<noteq> NULL" "get_fd p fd = Some f" unfolding f by metis
  have "unat (fd_offset f) + unat sz + 7 < 2 ^ 64" using small by simp
  from ramfs_file.write_law [OF p(5) this] obtain r w s' j where w: "ramfs_write ?n buf sz (fd_offset f) s = Some (r, w, s')"
    "\<And>q b k. ramfs_ready i s q b k \<Longrightarrow> ramfs_ready j s' q b k"
    "r = 0 \<and> w = Some sz \<and> file_data s' ?n = write_at (file_data s ?n) (unat (fd_offset f)) (load_bytes (kbytes s) buf (unat sz)) \<or>
     r = - 1 \<and> w = None \<and> file_data s' ?n = file_data s ?n" by blast
  note k = ramfs_write_keeps [OF w(1) n(1)]
  have d: "do_write E process buf sz fd s = (if r \<noteq> 0 then Some (word_of_int r, s')
      else do { s \<leftarrow> upd_fd process fd (advance (count_of w)) s'; Some (count_of w, s) })"
    using p n w(1) by (simp add: do_write_def vnode_at_def ops_write_def)
  have "r = 0"
  proof (rule ccontr)
    assume "r \<noteq> 0"
    with w(3) d wr have "sz = - 1" by auto
    with small show False by (simp add: unsigned_minus_1_eq_mask mask_numeral)
  qed
  with w(3) d wr k p(2) f have "s1 = s'\<lparr>processes := (processes s)(process \<mapsto> p\<lparr>p_fds := (p_fds p)[nat fd := advance sz f]\<rparr>)\<rparr>"
    by (auto simp: upd_fd_Some count_of_def)
  moreover have "ramfs_fd j s' process p fd b m" if "ramfs_fd i s process p fd b m" for b m
    using that w(2) k n(1) by (auto simp: ramfs_fd_def f)
  moreover have "file_data s' ?n = write_at (file_data s ?n) (unat (fd_offset f)) (load_bytes (kbytes s) buf (unat sz))"
    using w(3) \<open>r = 0\<close> by simp
  ultimately show ?thesis by (intro exI [of _ s'] exI [of _ j]) simp
qed

lemma do_read_ramfs:
  assumes fd: "ramfs_fd i s process p fd buf (unat sz)" and f: "f = p_fds p ! nat fd"
    and small: "unat (fd_offset f) + unat sz < 2 ^ 64"
    and d: "d = take (unat sz) (drop (unat (fd_offset f)) (file_data s (fd_vnode f)))"
  shows "\<exists>s'. do_read E process fd buf sz (fd_offset f) True s = Some (Ret (of_nat (length d)), s') \<and>
    load_bytes (kbytes s') buf (length d) = d \<and>
    processes s' = (processes s)(process \<mapsto> p\<lparr>p_fds := (p_fds p)[nat fd := advance (of_nat (length d)) f]\<rparr>)"
proof -
  let ?n = "fd_vnode f"
  from fd have p: "process \<noteq> NULL" "processes s process = Some p" "3 \<le> fd" "fd_open p fd" "ramfs_ready i s ?n buf (unat sz)"
    by (simp_all add: ramfs_fd_def f)
  from ramfs_fdD [OF fd] obtain n where n: "ramfs_nodes s ?n = Some n" "vn_ops (rn_vnode n) = Some RAMFS_OPS"
    "vn_type (rn_vnode n) = VNODE_TYPE_FILE" "?n \<noteq> NULL" "get_fd p fd = Some f" unfolding f by metis
  from ramfs_file.read_law [OF p(5) small] obtain w s' where w: "ramfs_read ?n buf sz (fd_offset f) s = Some (0, Some w, s')"
    "unat w = length d" "load_bytes (kbytes s') buf (unat w) = d" unfolding d by blast
  have "w = of_nat (length d)" by (simp flip: w(2))
  with p n w ramfs_read_processes [OF w(1)] f show ?thesis
    by (auto simp: do_read_def vnode_at_def ops_read_def count_of_def upd_fd_Some)
qed

lemma sint_small:
  assumes "unat (off :: u64) < 2 ^ 63"
  shows "sint off = int (unat off)" "word_of_int (int (unat off)) = off"
proof -
  have "int (unat off) < 2 ^ 63" using assms by (simp only: of_nat_less_iff [symmetric, where 'a = int] of_nat_power of_nat_numeral)
  then have "uint off < 2 ^ 63" by (simp only: uint_nat)
  then have "signed_take_bit 63 (uint off) = uint off" using uint_ge_0 [of off] by (intro signed_take_bit_int_eq_self) linarith+
  then have "sint off = uint off" by (simp add: sint_uint del: signed_take_bit_eq)
  then show "sint off = int (unat off)" by (simp only: uint_nat)
  show "word_of_int (int (unat off)) = off" by simp
qed

lemma lseek_set_ramfs:
  assumes fd: "ramfs_fd i s process p fd buf k" and f: "f = p_fds p ! nat fd"
    and r: "to_int (sr_arg1 regs) = fd" "sr_arg2 regs = off" "sr_arg3 regs = 0" "unat off < 2 ^ 63"
  shows "syscall_linux_lseek regs process s = Some (Ret off,
    s\<lparr>processes := (processes s)(process \<mapsto> p\<lparr>p_fds := (p_fds p)[nat fd := f\<lparr>fd_offset := off\<rparr>]\<rparr>)\<rparr>)"
proof -
  from ramfs_fdD [OF fd] obtain n where n: "ramfs_nodes s (fd_vnode f) = Some n" "fd_vnode f \<noteq> NULL" "get_fd p fd = Some f"
    unfolding f by metis
  note o = sint_small [OF r(4)]
  have z: "to_int 0 = 0" by (simp add: to_int_def)
  from fd have p: "process \<noteq> NULL" "processes s process = Some p" "fd_open p fd" by (simp_all add: ramfs_fd_def)
  have v: "vnode_at s (fd_vnode f) = Some (rn_vnode n)" using n(1) by (simp add: vnode_at_def)
  have nn: "\<not> int (unat off) < 0" by simp
  have u: "upd_fd process fd (\<lambda>f. f\<lparr>fd_offset := off\<rparr>) s =
      Some (s\<lparr>processes := (processes s)(process \<mapsto> p\<lparr>p_fds := (p_fds p)[nat fd := f\<lparr>fd_offset := off\<rparr>]\<rparr>)\<rparr>)"
    using upd_fd_Some [OF p(2)] f by simp
  show ?thesis unfolding syscall_linux_lseek_def Let_def r(1-3) z
    by (simp only: p n(2,3) v o u nn if_False if_True not_True_eq_False not_False_eq_True Option.bind.simps insert_iff
        refl True_implies_equals simp_thms)
qed

text \<open>C38: 
  What a program writes to a file of the ramfs it reads back: after \<open>write\<close> answered that all the bytes were
  written, \<open>lseek\<close> to where the descriptor stood and \<open>read\<close> of as many bytes answer them all and put the same
  bytes into the other buffer. The descriptor then stands behind them, and no other descriptor has changed.\<close>

theorem write_seek_read:
  assumes fd: "ramfs_fd i s process p fd buf (unat sz)" "ramfs_fd i s process p fd buf' (unat sz)" and f: "f = p_fds p ! nat fd"
    and small: "unat (fd_offset f) + unat sz < 2 ^ 63"
    and w: "to_int (sr_arg1 w) = fd" "sr_arg2 w = buf" "sr_arg3 w = sz" "syscall_linux_write E w process s = Some (Ret sz, s1)"
    and l: "to_int (sr_arg1 l) = fd" "sr_arg2 l = fd_offset f" "sr_arg3 l = 0"
    and r: "to_int (sr_arg1 r) = fd" "sr_arg2 r = buf'" "sr_arg3 r = sz"
  shows "\<exists>s2 s3 p3. syscall_linux_lseek l process s1 = Some (Ret (fd_offset f), s2) \<and>
    syscall_linux_read E r process s2 = Some (Ret sz, s3) \<and>
    load_bytes (kbytes s3) buf' (unat sz) = load_bytes (kbytes s) buf (unat sz) \<and>
    processes s3 = (processes s)(process \<mapsto> p3) \<and> open_files p3 = (open_files p)(fd \<mapsto> advance sz f)"
proof -
  let ?d = "load_bytes (kbytes s) buf (unat sz)"
  have "do_write E process buf sz fd s = Some (sz, s1)"
    using w by (auto simp: syscall_linux_write_def ret_def)
  from do_write_ramfs [OF fd(1) f small this] obtain s' j where s1:
    "s1 = s'\<lparr>processes := (processes s)(process \<mapsto> p\<lparr>p_fds := (p_fds p)[nat fd := advance sz f]\<rparr>)\<rparr>"
    "file_data s' (fd_vnode f) = write_at (file_data s (fd_vnode f)) (unat (fd_offset f)) ?d"
    "ramfs_fd j s' process p fd buf' (unat sz)" using fd(2) by blast
  define p1 where "p1 = p\<lparr>p_fds := (p_fds p)[nat fd := advance sz f]\<rparr>"
  from fd(1) f have len: "length (p_fds p) = 32" "fd_in_range fd" "nat fd < 32" "fd_used f"
    by (auto simp: ramfs_fd_def fd_open_def fd_in_range_def)
  have p1: "p_fds p1 ! nat fd = advance sz f" using len by (simp add: p1_def)
  have "ramfs_fd j s1 process p1 fd buf' (unat sz)"
    using ramfs_fd_upd [OF s1(3), of "advance sz f"] s1(1,3) len f by (simp add: p1_def advance_def ramfs_fd_def)
  note fd1 = this
  define p2 where "p2 = p1\<lparr>p_fds := (p_fds p1)[nat fd := f]\<rparr>"
  define s2 where "s2 = s1\<lparr>processes := (processes s1)(process \<mapsto> p2)\<rparr>"
  have "unat (fd_offset f) < 2 ^ 63" using small by simp
  from lseek_set_ramfs [OF fd1 refl l this] have l2: "syscall_linux_lseek l process s1 = Some (Ret (fd_offset f), s2)"
    by (simp add: p1 s2_def p2_def advance_def)
  have fd2: "ramfs_fd j s2 process p2 fd buf' (unat sz)"
    using ramfs_fd_upd [OF fd1, of f] len by (simp add: p1 s2_def p2_def advance_def)
  have f2: "f = p_fds p2 ! nat fd" using len by (simp add: p2_def p1_def)
  have d: "?d = take (unat sz) (drop (unat (fd_offset f)) (file_data s2 (fd_vnode f)))"
    using write_at_same [of ?d] by (simp add: s2_def s1(1,2))
  have off: "unat (fd_offset f) + unat sz < 2 ^ 64" using small by simp
  from do_read_ramfs [OF fd2 f2 off d, of E] obtain s3 where s3: "do_read E process fd buf' sz (fd_offset f) True s2 = Some (Ret sz, s3)"
    "load_bytes (kbytes s3) buf' (unat sz) = ?d"
    "processes s3 = (processes s2)(process \<mapsto> p2\<lparr>p_fds := (p_fds p2)[nat fd := advance sz f]\<rparr>)" by auto
  have "syscall_linux_read E r process s2 = Some (Ret sz, s3)"
    using r s3(1) f2 len by (simp add: syscall_linux_read_def get_fd_def s2_def)
  moreover have "processes s3 = (processes s)(process \<mapsto> p\<lparr>p_fds := (p_fds p)[nat fd := advance sz f]\<rparr>)"
    using s3(3) by (simp add: s2_def s1(1) p2_def p1_def)
  moreover have "open_files (p\<lparr>p_fds := (p_fds p)[nat fd := advance sz f]\<rparr>) = (open_files p)(fd \<mapsto> advance sz f)"
    using open_files_upd [OF len(1,2), of "advance sz f"] len by (simp add: advance_def)
  ultimately show ?thesis using l2 s3(2) by blast
qed

section \<open>A process with an open file\<close>

text \<open>
  The process at \<open>0x2000\<close> has the file \<open>/f\<close>, still empty, open as descriptor 3. Its memory holds the path at
  \<open>0x5000\<close>. It runs on every CPU, and called \<open>close\<close> for descriptor 7.
\<close>

definition example_file :: file_desc where
  "example_file = \<lparr>fd_vnode = 0x1000B8, fd_offset = 0, fd_flags = 2, fd_used = True\<rparr>"

definition example_process :: process where
  "example_process = zero_process\<lparr>p_pid := 2, p_ppid := 1, p_syscall_conv := 1,
     p_fds := replicate 3 (zero_fd\<lparr>fd_used := True\<rparr>) @ example_file # replicate 28 zero_fd\<rparr>"

definition example_caller :: thread where
  "example_caller = \<lparr>t_id = 1, t_name = [], t_state = THREAD_STATE_RUNNING, t_process = 0x2000, t_fs_base = 0, t_main = NULL,
     t_kernel = NULL, t_ring = 3, t_regs = 0x4000, t_waiting_on = NULL, t_wait_seq = 0, t_next = NULL\<rparr>"

definition example_files :: keyboard_state where
  "example_files = example_keyboard\<lparr>
     hp_head := 0x100000, hp_blocks := [0x100000 \<mapsto> \<lparr>hb_size = 136, hb_next = 0x1000A0, hb_free = False\<rparr>,
       0x1000A0 \<mapsto> \<lparr>hb_size = 136, hb_next = 0x100140, hb_free = False\<rparr>,
       0x100140 \<mapsto> \<lparr>hb_size = 0x10000, hb_next = NULL, hb_free = True\<rparr>],
     kbytes := (\<lambda>_. 0)(0x5000 := SLASH, 0x5001 := 0x66),
     ramfs_nodes := [0x100018 \<mapsto> (example_node VNODE_TYPE_DIR [])\<lparr>rn_children := 0x1000B8\<rparr>,
       0x1000B8 \<mapsto> (example_node VNODE_TYPE_FILE [0x66])\<lparr>rn_parent := 0x100018\<rparr>],
     fs_mounts := [0x600 \<mapsto> \<lparr>mt_root = 0x100018, mt_private = 0x100018, mt_fs = RAMFS_DRIVER\<rparr>], g_mounts := [0x600],
     threads := [0x3000 \<mapsto> example_caller], current_threads := (\<lambda>_. 0x3000),
     frames := [0x4000 \<mapsto> zero_registers\<lparr>rg_rax := 3, rg_rdi := 7\<rparr>],
     processes := [0x2000 \<mapsto> example_process]\<rparr>"

lemma example_files_process [simp]:
  "processes example_files = [0x2000 \<mapsto> example_process]" "length (p_fds example_process) = 32"
  by (simp_all add: example_files_def example_process_def)

lemma example_fd3: "p_fds example_process ! 3 = example_file"
  by (simp add: example_process_def nth_append)

lemma example_files_nodes: "ramfs_nodes example_files = [0x100018 \<mapsto> (example_node VNODE_TYPE_DIR [])\<lparr>rn_children := 0x1000B8\<rparr>,
       0x1000B8 \<mapsto> (example_node VNODE_TYPE_FILE [0x66])\<lparr>rn_parent := 0x100018\<rparr>]"
  by (simp add: example_files_def)

lemma example_files_ramfs:
  "ramfs_nodes example_files 0x100018 = Some ((example_node VNODE_TYPE_DIR [])\<lparr>rn_children := 0x1000B8\<rparr>)"
  "ramfs_nodes example_files 0x1000B8 = Some ((example_node VNODE_TYPE_FILE [0x66])\<lparr>rn_parent := 0x100018\<rparr>)"
  by (simp_all add: example_files_nodes)

lemma example_files_heap: "heap_at example_files 0x100000 0x110158 {(0x100018, 136), (0x1000B8, 136)}"
  unfolding heap_at_def
  by (intro conjI exI [where x = "[(0x100000, 136, False), (0x1000A0, 136, False), (0x100140, 0x10000, True)]"])
    (auto simp: heap_rel_def example_files_def example_keyboard_def allocs_def)

lemma example_files_ready:
  "ramfs_ready (0x100000, 0x110158, {(0x100018, 136), (0x1000B8, 136)}) example_files 0x1000B8 buf k"
  if "buf \<noteq> NULL" "unat buf + k \<le> 0x100000"
  using that example_files_heap
  by (auto simp: ramfs_ok_def ramfs_node_ok_def client_buffer_def example_files_nodes example_node_def split: if_splits)

lemma to_int_numeral: "to_int 3 = 3" "to_int 4 = 4" "to_int 7 = 7" "to_int 0 = 0" "to_int 1 = 1"
  using to_int_of_nat [of 3] to_int_of_nat [of 4] to_int_of_nat [of 7] to_int_of_nat [of 0] to_int_of_nat [of 1] by simp_all


theorem open_close_witness:
  "\<exists>s1 s2 p2. open_path 0x2000 0x5000 0 example_files = Some (Ret 4, s1) \<and>
     syscall_linux_close (syscall_linux_to_sregs (zero_registers\<lparr>rg_rdi := 4\<rparr>)) 0x2000 s1 = Some (Ret 0, s2) \<and>
     processes s2 0x2000 = Some p2 \<and> open_files p2 = open_files example_process"
proof -
  have name: "user_string (kbytes example_files) 0x5000 = Some [SLASH, 0x66]"
    by (simp add: user_string_def strlen_def strlen_loop.simps example_files_def load_bytes_def INT_MAX_def)
  have lk: "vfs_lookup [SLASH, 0x66] example_files = Some (0, Some 0x1000B8)"
    by (simp add: vfs_lookup_def vfs_lookup_loop.simps vfs_next_token_def vfs_strip_dot_def ops_lookup_def vnode_at_def
        ramfs_lookup_def ramfs_find_child_def list_find.simps example_files_def example_node_def)
  then have op: "vfs_open [SLASH, 0x66] 0 example_files = Some (0, Some 0x1000B8, example_files)"
    by (simp add: vfs_open_def O_CREAT_def O_DIRECTORY_def vnode_at_def example_files_ramfs)
  have "free_fd example_process = Some 4"
    by (simp add: free_fd_def upt_rec example_process_def example_file_def zero_fd_def nth_append)
  with name op obtain s1 where s1: "open_path 0x2000 0x5000 0 example_files = Some (Ret 4, s1)"
    by (simp add: open_path_def O_APPEND_def upd_fd_Some)
  from open_close [OF _ _ _ s1, of example_process "syscall_linux_to_sregs (zero_registers\<lparr>rg_rdi := 4\<rparr>)"]
  show ?thesis using s1 by (force simp: syscall_linux_to_sregs_def)
qed

theorem write_seek_read_witness:
  "\<exists>s1 s2 s3. syscall_linux_write example_env (syscall_linux_to_sregs (zero_registers\<lparr>rg_rdi := 3, rg_rsi := 0x5000, rg_rdx := 2\<rparr>)) 0x2000
       example_files = Some (Ret 2, s1) \<and>
     syscall_linux_lseek (syscall_linux_to_sregs (zero_registers\<lparr>rg_rdi := 3\<rparr>)) 0x2000 s1 = Some (Ret 0, s2) \<and>
     syscall_linux_read example_env (syscall_linux_to_sregs (zero_registers\<lparr>rg_rdi := 3, rg_rsi := 0x6000, rg_rdx := 2\<rparr>)) 0x2000 s2 =
       Some (Ret 2, s3) \<and> load_bytes (kbytes s3) 0x6000 2 = [SLASH, 0x66]"
proof -
  let ?i = "(0x100000, 0x110158, {(0x100018, 136), (0x1000B8, 136)})"
  have fd: "ramfs_fd ?i example_files 0x2000 example_process 3 buf (unat (2 :: u64))"
    if "buf \<noteq> NULL" "unat buf + 2 \<le> 0x100000" for buf
    using example_files_ready [OF that(1), of 2] that example_files_ramfs(2)
    by (simp add: ramfs_fd_def fd_open_def fd_in_range_def example_fd3 example_file_def example_node_def)
  obtain s1 where m: "malloc 2 example_files = Some (0x100158, s1)"
    by (simp add: malloc_def malloc_loop.simps example_files_def example_keyboard_def)
  obtain s' where w: "ramfs_write 0x1000B8 0x5000 2 0 example_files = Some (0, Some 2, s')"
    using ramfs_write_first [OF example_files_ramfs(2) _ _ _ _ _ example_files_heap, of "0x5000" 0 2] m
    by (auto simp: example_node_def)
  have k: "processes s' = processes example_files" using ramfs_write_keeps [OF w example_files_ramfs(2)] by simp
  have "do_write example_env 0x2000 0x5000 2 3 example_files = Some (2,
      s'\<lparr>processes := (processes s')(0x2000 \<mapsto> example_process\<lparr>p_fds := (p_fds example_process)[3 := advance 2 example_file]\<rparr>)\<rparr>)"
    using w k by (simp add: do_write_def fd_open_def fd_in_range_def get_fd_def example_fd3 vnode_at_def example_files_ramfs
        ops_write_def count_of_def upd_fd_Some example_file_def example_node_def)
  then obtain s1 where s1: "syscall_linux_write example_env (syscall_linux_to_sregs (zero_registers\<lparr>rg_rdi := 3, rg_rsi := 0x5000, rg_rdx := 2\<rparr>)) 0x2000
       example_files = Some (Ret 2, s1)"
    by (simp add: syscall_linux_write_def ret_def syscall_linux_to_sregs_def to_int_numeral)
  have "unat (fd_offset example_file) + unat (2 :: u64) < 2 ^ 63" by (simp add: example_file_def)
  note all = write_seek_read [OF fd fd _ this _ _ _ s1, of "0x5000" "0x6000" "syscall_linux_to_sregs (zero_registers\<lparr>rg_rdi := 3\<rparr>)"
      "syscall_linux_to_sregs (zero_registers\<lparr>rg_rdi := 3, rg_rsi := 0x6000, rg_rdx := 2\<rparr>)"]
  have b: "load_bytes (kbytes example_files) 0x5000 2 = [SLASH, 0x66]"
    by (simp add: load_bytes_def example_files_def upt_rec)
  from all have "\<exists>s2 s3. syscall_linux_lseek (syscall_linux_to_sregs (zero_registers\<lparr>rg_rdi := 3\<rparr>)) 0x2000 s1 = Some (Ret 0, s2) \<and>
     syscall_linux_read example_env (syscall_linux_to_sregs (zero_registers\<lparr>rg_rdi := 3, rg_rsi := 0x6000, rg_rdx := 2\<rparr>)) 0x2000 s2 =
       Some (Ret 2, s3) \<and> load_bytes (kbytes s3) 0x6000 2 = load_bytes (kbytes example_files) 0x5000 2"
    by (fastforce simp: syscall_linux_to_sregs_def to_int_numeral example_fd3 zero_registers_def example_file_def)
  with s1 b show ?thesis by auto
qed

end
