(* ===== verification/Children.thy ===== *)
theory Children
  imports Descriptors
begin

text \<open>
  What \<^verbatim>\<open>process_wait_child\<close> and \<^verbatim>\<open>wait4\<close> promise a parent: a child that has ended is collected once,
  with its status, and nothing else happens to the list of the processes.
\<close>

section \<open>Taking a process out of the list\<close>

lemma linked_remove:
  "linked nxt m x (as @ q # c # bs) \<Longrightarrow> m c = Some k \<Longrightarrow> nxt n' = nxt k \<Longrightarrow> linked nxt (m(q \<mapsto> n')) x (as @ q # bs)"
proof (induction as arbitrary: x)
  case Nil
  then have d: "distinct (q # c # bs)" using linked_distinct by fastforce
  with Nil linked_upd_other [of q bs nxt m "Some n'"] show ?case by (auto simp del: fun_upd_apply) (simp_all add: fun_upd_apply)
next
  case (Cons a as)
  from linked_distinct [OF Cons.prems(1)] have "q \<noteq> a" by auto
  with Cons show ?case by auto
qed

lemma unlink_loop_at:
  "get_link pp s = Some x \<Longrightarrow> linked p_next (processes s) x (as @ c # bs) \<Longrightarrow> processes s c = Some k \<Longrightarrow>
   unlink_loop c pp s = set_link (if as = [] then pp else Some (last as)) (p_next k) s"
proof (induction as arbitrary: pp x)
  case Nil
  then have "x = c" "c \<noteq> NULL" by auto
  with Nil show ?case by (simp add: unlink_loop.simps [of c pp])
next
  case (Cons a as)
  then obtain n where a: "x = a" "a \<noteq> NULL" "processes s a = Some n" "linked p_next (processes s) (p_next n) (as @ c # bs)" by auto
  from linked_distinct [OF Cons.prems(2)] have "a \<noteq> c" by auto
  moreover have "unlink_loop c (Some a) s = set_link (if as = [] then Some a else Some (last as)) (p_next k) s"
    using Cons.IH [of "Some a" "p_next n"] a Cons.prems(3) by (simp add: get_link_def)
  ultimately show ?case using a Cons.prems(1) by (simp add: unlink_loop.simps [of c pp])
qed

text \<open>Processes that differ in their link only.\<close>

definition unlinked :: "process option \<Rightarrow> process option" where
  "unlinked n = map_option (\<lambda>n. n\<lparr>p_next := NULL\<rparr>) n"

lemma unlink_removes:
  assumes l: "linked p_next (processes s) (process_list_head s) ps" and c: "c \<in> set ps"
  shows "\<exists>s'. unlink_loop c None s = Some s' \<and> linked p_next (processes s') (process_list_head s') (remove1 c ps) \<and>
    (\<forall>q. unlinked (processes s' q) = unlinked (processes s q)) \<and> (\<forall>lo hi L. heap_at s' lo hi L = heap_at s lo hi L) \<and>
    kbytes s' = kbytes s \<and> wait_queues s' = wait_queues s"
proof -
  from c obtain as bs where ps: "ps = as @ c # bs" "c \<notin> set as" by (meson split_list_first)
  from linked_in [OF l c] obtain k where k: "processes s c = Some k" by blast
  have r: "remove1 c ps = as @ bs" using ps by (simp add: remove1_append)
  note u = unlink_loop_at [OF _ l [unfolded ps(1)] k, of None]
  show ?thesis
  proof (cases as rule: rev_cases)
    case Nil
    with u l k ps show ?thesis by (auto simp: get_link_def set_link_def heap_at_def heap_rel_def)
  next
    case (snoc as' q)
    from linked_in [OF l, of q] snoc ps obtain n where n: "processes s q = Some n" by auto
    with u snoc have e: "unlink_loop c None s = Some (s\<lparr>processes := (processes s)(q \<mapsto> n\<lparr>p_next := p_next k\<rparr>)\<rparr>)"
      by (simp add: get_link_def set_link_def upd_process_def)
    have "linked p_next ((processes s)(q \<mapsto> n\<lparr>p_next := p_next k\<rparr>)) (process_list_head s) (as' @ q # bs)"
      using linked_remove [of p_next "processes s" "process_list_head s" as' q c bs k "n\<lparr>p_next := p_next k\<rparr>"] l ps snoc k by simp
    with e n r snoc show ?thesis by (auto simp: unlinked_def heap_at_def heap_rel_def)
  qed
qed

text \<open>The heap keeps the processes in ranges of their own.\<close>

definition processes_ok :: "'a proc_state_scheme \<Rightarrow> nat \<Rightarrow> nat \<Rightarrow> (nat \<times> nat) set \<Rightarrow> u64 list \<Rightarrow> bool" where
  "processes_ok s lo hi L ps \<longleftrightarrow> heap_at s lo hi L \<and> linked p_next (processes s) (process_list_head s) ps \<and>
     (\<forall>p \<in> set ps. \<exists>k. (unat p, k) \<in> L)"

lemma collect_process:
  assumes ok: "processes_ok s lo hi L ps" and c: "c \<in> set ps"
  shows "\<exists>s1 s2 L'. unlink_loop c None s = Some s1 \<and> drop_process c s1 = Some s2 \<and>
    processes_ok s2 lo hi L' (remove1 c ps) \<and> L' \<subseteq> L \<and> (\<forall>k. (unat c, k) \<notin> L') \<and> processes s2 c = None \<and>
    (\<forall>q. q \<noteq> c \<longrightarrow> unlinked (processes s2 q) = unlinked (processes s q)) \<and> kbytes s2 = kbytes s"
proof -
  from ok c obtain k where h: "heap_at s lo hi L" "linked p_next (processes s) (process_list_head s) ps" "(unat c, k) \<in> L"
    "\<forall>p \<in> set ps. \<exists>k. (unat p, k) \<in> L" by (auto simp: processes_ok_def)
  from unlink_removes [OF h(2) c] obtain s1 where s1: "unlink_loop c None s = Some s1"
    "linked p_next (processes s1) (process_list_head s1) (remove1 c ps)" "\<forall>q. unlinked (processes s1 q) = unlinked (processes s q)"
    "\<forall>lo hi L. heap_at s1 lo hi L = heap_at s lo hi L" "kbytes s1 = kbytes s" by blast
  from free_at [of s1 lo hi L c k] h s1(4) obtain s' where f: "free c s1 = Some s'" "same_but_blocks s1 s'" "heap_at s' lo hi (L - {(unat c, k)})"
    by blast
  define s2 where "s2 = s'\<lparr>processes := (processes s')(c := None), wait_queues := (wait_queues s')(child_wq c := None)\<rparr>"
  have d: "drop_process c s1 = Some s2" using f(1) by (simp add: drop_process_def s2_def)
  have p: "processes s' = processes s1" "process_list_head s' = process_list_head s1" "kbytes s' = kbytes s1"
    using f(2) unfolding same_but_blocks_def by (auto elim: ssubst)
  have "c \<notin> set (remove1 c ps)" using linked_distinct [OF h(2)] by simp
  then have "linked p_next (processes s2) (process_list_head s2) (remove1 c ps)"
    using s1(2) p by (simp add: s2_def)
  moreover have "heap_at s2 lo hi (L - {(unat c, k)})" using f(3) by (simp add: s2_def heap_at_def heap_rel_def)
  moreover have "(unat c, j) \<notin> L - {(unat c, k)}" for j using in_use_fst_unique [OF h(1,3), of j] by auto
  moreover have "\<exists>j. (unat q, j) \<in> L - {(unat c, k)}" if "q \<in> set (remove1 c ps)" for q
  proof -
    from that have "q \<in> set ps" "q \<noteq> c" using linked_distinct [OF h(2)] by auto
    with h(4) show ?thesis by (auto simp: u64_eq_iff)
  qed
  ultimately show ?thesis using s1 d p
    by (intro exI [of _ s1] exI [of _ s2] exI [of _ "L - {(unat c, k)}"]) (auto simp: processes_ok_def s2_def)
qed

text \<open>The children a parent waits for, and of these the zombies.\<close>

definition children :: "'a proc_state_scheme \<Rightarrow> u64 list \<Rightarrow> u64 \<Rightarrow> int \<Rightarrow> u64 list" where
  "children s ps parent pid = filter (\<lambda>p. is_child (p_pid (the (processes s parent))) pid (the (processes s p))) ps"

definition ended :: "'a proc_state_scheme \<Rightarrow> u64 list \<Rightarrow> u64 list" where
  "ended s ps = filter (\<lambda>p. p_zombie (the (processes s p))) ps"

lemma list_find_filter:
  assumes "linked nxt m x ps"
  shows "list_find nxt P m x = Some (case filter (\<lambda>p. P p (the (m p))) ps of [] \<Rightarrow> NULL | p # _ \<Rightarrow> p)"
proof -
  have "find P ps = (case filter P ps of [] \<Rightarrow> None | p # _ \<Rightarrow> Some p)" for P :: "u64 \<Rightarrow> bool"
    by (induction ps) auto
  then show ?thesis using list_find_linked [OF assms, of P] by (simp split: list.split)
qed

text \<open>C39: 
  A parent that waits for its children, or for one of them, is told that there is none (-1), that none has
  ended yet (0), or the number and the status of the first one that has ended. This one leaves the list
  and its memory is given back, so that it is reported once; every other process stays as it was, in the
  same order. In the first two cases nothing changes.\<close>

theorem wait_child:
  assumes ok: "processes_ok s lo hi L ps" and p: "processes s parent = Some n" "parent \<noteq> NULL"
  shows "case ended s (children s ps parent pid) of
      [] \<Rightarrow> process_wait_child parent pid s = Some (if children s ps parent pid = [] then - 1 else 0, None, s)
    | c # _ \<Rightarrow> \<exists>k s' L'. processes s c = Some k \<and> process_wait_child parent pid s = Some (sint (p_pid k), Some (p_exit_status k), s') \<and>
        processes_ok s' lo hi L' (remove1 c ps) \<and> L' \<subseteq> L \<and> (\<forall>j. (unat c, j) \<notin> L') \<and> processes s' c = None \<and>
        (\<forall>q. q \<noteq> c \<longrightarrow> unlinked (processes s' q) = unlinked (processes s q)) \<and> kbytes s' = kbytes s"
proof -
  from ok have l: "linked p_next (processes s) (process_list_head s) ps" by (simp add: processes_ok_def)
  define cs where "cs = children s ps parent pid"
  have c: "list_find p_next (\<lambda>p m. is_child (p_pid n) pid m) (processes s) (process_list_head s) = Some (case cs of [] \<Rightarrow> NULL | p # _ \<Rightarrow> p)"
    using list_find_filter [OF l] p(1) by (simp add: cs_def children_def)
  have z: "list_find p_next (\<lambda>p m. is_child (p_pid n) pid m \<and> p_zombie m) (processes s) (process_list_head s) =
      Some (case ended s cs of [] \<Rightarrow> NULL | p # _ \<Rightarrow> p)"
    using list_find_filter [OF l] p(1) by (simp add: cs_def children_def ended_def conj_commute)
  have sub: "set cs \<subseteq> set ps" "set (ended s cs) \<subseteq> set ps" by (auto simp: cs_def children_def ended_def)
  show ?thesis
  proof (cases "ended s cs")
    case Nil
    have "hd cs \<noteq> NULL" if "cs \<noteq> []" using hd_in_set [OF that] sub linked_in [OF l, of "hd cs"] by auto
    with Nil c z p show ?thesis unfolding cs_def [symmetric]
      by (cases cs) (auto simp: process_wait_child_def)
  next
    case (Cons x xs)
    with sub have x: "x \<in> set ps" by auto
    from linked_in [OF l this] obtain k where k: "x \<noteq> NULL" "processes s x = Some k" by blast
    from collect_process [OF ok x] obtain s1 s2 L' where s: "unlink_loop x None s = Some s1" "drop_process x s1 = Some s2"
      "processes_ok s2 lo hi L' (remove1 x ps)" "L' \<subseteq> L" "\<forall>k. (unat x, k) \<notin> L'" "processes s2 x = None"
      "\<forall>q. q \<noteq> x \<longrightarrow> unlinked (processes s2 q) = unlinked (processes s q)" "kbytes s2 = kbytes s" by blast
    then have "process_wait_child parent pid s = Some (sint (p_pid k), Some (p_exit_status k), s2)"
      using Cons c z p k by (simp add: process_wait_child_def)
    with s k Cons show ?thesis unfolding cs_def [symmetric] by auto
  qed
qed

text \<open>A parent whose only child has ended with status 1.\<close>

definition example_family :: keyboard_state where
  "example_family = example_keyboard\<lparr>
     hp_head := 0x100000, hp_blocks := [0x100000 \<mapsto> \<lparr>hb_size = 928, hb_next = 0x1003B8, hb_free = False\<rparr>,
       0x1003B8 \<mapsto> \<lparr>hb_size = 928, hb_next = 0x100770, hb_free = False\<rparr>,
       0x100770 \<mapsto> \<lparr>hb_size = 0x10000, hb_next = NULL, hb_free = True\<rparr>],
     processes := [0x100018 \<mapsto> zero_process\<lparr>p_pid := 1\<rparr>,
       0x1003D0 \<mapsto> zero_process\<lparr>p_pid := 2, p_ppid := 1, p_next := 0x100018, p_zombie := True, p_exit_status := 0x100\<rparr>],
     process_list_head := 0x1003D0\<rparr>"

lemma example_family_ok:
  "processes_ok example_family 0x100000 0x110788 {(0x100018, 928), (0x1003D0, 928)} [0x1003D0, 0x100018]"
proof -
  have "heap_at example_family 0x100000 0x110788 {(0x100018, 928), (0x1003D0, 928)}"
    unfolding heap_at_def
    by (intro conjI exI [where x = "[(0x100000, 928, False), (0x1003B8, 928, False), (0x100770, 0x10000, True)]"])
      (auto simp: heap_rel_def example_family_def example_keyboard_def allocs_def)
  moreover have "linked p_next (processes example_family) (process_list_head example_family) [0x1003D0, 0x100018]"
    by (simp add: example_family_def zero_process_def)
  ultimately show ?thesis unfolding processes_ok_def by simp
qed

theorem wait_child_witness:
  "\<exists>s'. process_wait_child 0x100018 2 example_family = Some (2, Some 0x100, s') \<and> processes s' 0x1003D0 = None"
proof -
  have c: "children example_family [0x1003D0, 0x100018] 0x100018 2 = [0x1003D0]" "ended example_family [0x1003D0] = [0x1003D0]"
    by (simp_all add: children_def ended_def is_child_def example_family_def zero_process_def)
  have p: "processes example_family 0x100018 = Some (zero_process\<lparr>p_pid := 1\<rparr>)" by (simp add: example_family_def)
  from wait_child [OF example_family_ok p, of 2] show ?thesis
    unfolding c by (auto simp: example_family_def)
qed

end
