(* ===== verification/Initial_Stack.thy ===== *)
theory Initial_Stack
  imports Syscalls
begin

text \<open>
  The first stack of a program as the loader leaves it: where the program finds its arguments, its
  environment and the auxiliary vector.
\<close>

section \<open>Words and strings in memory\<close>

text \<open>The memories agree outside the addresses from \<open>a\<close> to \<open>b\<close>.\<close>

definition same_outside :: "nat \<Rightarrow> nat \<Rightarrow> bytes_mem \<Rightarrow> bytes_mem \<Rightarrow> bool" where
  "same_outside a b m m' \<longleftrightarrow> (\<forall>x. unat x < a \<or> b \<le> unat x \<longrightarrow> m' x = m x)"

lemma same_outside_refl [simp]: "same_outside a b m m"
  by (simp add: same_outside_def)

lemma same_outside_trans:
  "same_outside a b m m' \<Longrightarrow> same_outside c d m' m'' \<Longrightarrow> l \<le> a \<Longrightarrow> b \<le> h \<Longrightarrow> l \<le> c \<Longrightarrow> d \<le> h \<Longrightarrow> same_outside l h m m''"
  by (simp add: same_outside_def)

text \<open>A range of addresses outside one from \<open>a\<close> to \<open>b\<close>.\<close>

definition range_outside :: "nat \<Rightarrow> nat \<Rightarrow> u64 \<Rightarrow> nat \<Rightarrow> bool" where
  "range_outside a b p n \<longleftrightarrow> unat p + n \<le> 2 ^ 64 \<and> (unat p + n \<le> a \<or> b \<le> unat p)"

lemma range_outside_byte:
  assumes "same_outside a b m m'" "range_outside a b p n" "i < n"
  shows "m' (p + of_nat i) = m (p + of_nat i)"
proof -
  have "unat (p + of_nat i) = unat p + i" using assms(2,3) by (intro unat_offset) (auto simp: range_outside_def)
  with assms show ?thesis by (auto simp: same_outside_def range_outside_def)
qed

lemma range_outside_bytes: "same_outside a b m m' \<Longrightarrow> range_outside a b p n \<Longrightarrow> load_bytes m' p n = load_bytes m p n"
  by (intro load_bytes_cong range_outside_byte)

lemma load64_cong: "(\<And>i. i < 8 \<Longrightarrow> m' (a + of_nat i) = m (a + of_nat i)) \<Longrightarrow> load64 m' a = load64 m a"
  by (intro bit_eqI) (auto simp: bit_load64)

lemma range_outside_word: "same_outside a b m m' \<Longrightarrow> range_outside a b p 8 \<Longrightarrow> load64 m' p = load64 m p"
  by (intro load64_cong range_outside_byte)

lemma load64_store64: "load64 (store64 a v m) a = v"
proof (rule bit_eqI)
  fix n assume "possible_bit TYPE(64 word) n"
  then have n: "n < 64" by simp
  then have q: "n div 8 < 8" by auto
  then have "unat (of_nat (n div 8) :: u64) = n div 8" by (simp add: unat_of_nat)
  with n q show "bit (load64 (store64 a v m) a) n = bit v n"
    by (simp add: bit_load64 store64_def word_less_nat_alt bit_ucast_iff bit_drop_bit_eq)
qed

lemma store64_outside: "unat a + 8 \<le> 2 ^ 64 \<Longrightarrow> same_outside (unat a) (unat a + 8) m (store64 a v m)"
  unfolding same_outside_def store64_def by (auto simp: word_less_nat_alt unat_sub_if' word_le_nat_alt split: if_splits)

lemma put_words_snoc: "put_words a (vs @ [v]) m = store64 (a + 8 * of_nat (length vs)) v (put_words a vs m)"
proof -
  have "fold (\<lambda>i m. store64 (a + 8 * of_nat i) ((vs @ [v]) ! i) m) [0..<length vs] m =
      fold (\<lambda>i m. store64 (a + 8 * of_nat i) (vs ! i) m) [0..<length vs] m"
    by (rule fold_cong) (auto simp: nth_append)
  then show ?thesis by (simp add: put_words_def)
qed

lemma unat_word_offset: "unat (a :: u64) + 8 * n \<le> 2 ^ 64 \<Longrightarrow> i < n \<Longrightarrow> unat (a + 8 * of_nat i) = unat a + 8 * i"
  using unat_offset [of a "8 * n" "8 * i"] by simp

lemma put_words:
  assumes "unat a + 8 * length vs \<le> 2 ^ 64"
  shows "same_outside (unat a) (unat a + 8 * length vs) m (put_words a vs m) \<and>
    (\<forall>i < length vs. load64 (put_words a vs m) (a + 8 * of_nat i) = vs ! i)"
  using assms
proof (induction vs rule: rev_induct)
  case Nil
  then show ?case by (simp add: put_words_def)
next
  case (snoc v vs)
  let ?a = "a + 8 * of_nat (length vs)" and ?m = "put_words a vs m"
  have u: "unat ?a = unat a + 8 * length vs" using unat_word_offset [of a "Suc (length vs)" "length vs"] snoc.prems by simp
  then have o: "same_outside (unat a + 8 * length vs) (unat a + 8 * length vs + 8) ?m (store64 ?a v ?m)"
    using store64_outside [of ?a ?m v] snoc.prems by simp
  have IH: "same_outside (unat a) (unat a + 8 * length vs) m ?m" "\<forall>i < length vs. load64 ?m (a + 8 * of_nat i) = vs ! i"
    using snoc by auto
  have "load64 (store64 ?a v ?m) (a + 8 * of_nat i) = (vs @ [v]) ! i" if "i < length (vs @ [v])" for i
  proof (cases "i < length vs")
    case True
    have "unat (a + 8 * of_nat i) = unat a + 8 * i" using unat_word_offset [of a "length vs" i] snoc.prems True by simp
    with True snoc.prems have "range_outside (unat a + 8 * length vs) (unat a + 8 * length vs + 8) (a + 8 * of_nat i) 8"
      by (simp add: range_outside_def)
    from range_outside_word [OF o this] IH(2) True show ?thesis by (simp add: nth_append)
  next
    case False
    with that have "i = length vs" by simp
    then show ?thesis by (simp add: load64_store64)
  qed
  with same_outside_trans [OF IH(1) o, of "unat a" "unat a + 8 * length (vs @ [v])"] show ?case
    by (simp add: put_words_snoc)
qed

text \<open>A string and its bytes.\<close>

lemma load_bytes_Suc: "load_bytes m a (Suc n) = m a # load_bytes m (a + 1) n"
  by (rule nth_equalityI) (auto simp: nth_Cons algebra_simps split: nat.splits)

lemma cstring_load_bytes: "cstring m a cs \<longleftrightarrow> 0 \<notin> set cs \<and> load_bytes m a (Suc (length cs)) = cs @ [0]"
proof (induction cs arbitrary: a)
  case Nil
  show ?case by (simp add: load_bytes_def)
next
  case (Cons c cs)
  show ?case using Cons.IH [of "a + 1"] by (subst load_bytes_Suc) auto
qed

lemma cstring_outside:
  "same_outside a b m m' \<Longrightarrow> range_outside a b p (length cs + 1) \<Longrightarrow> cstring m' p cs = cstring m p cs"
  by (simp add: cstring_load_bytes range_outside_bytes)

lemma stored_cstring: "0 \<notin> set cs \<Longrightarrow> length cs < 2 ^ 64 \<Longrightarrow> cstring (stored a (cs @ [0]) m) a cs"
  using load_bytes_stored [of "cs @ [0]" a m] by (simp add: cstring_load_bytes)

lemma stored_outside:
  "unat a + length d \<le> 2 ^ 64 \<Longrightarrow> same_outside (unat a) (unat a + length d) m (stored a d m)"
  unfolding same_outside_def stored_def by (auto simp: unat_sub_if' split: if_splits)

lemma fold_stored:
  assumes "n \<le> 2 ^ 64"
  shows "fold (\<lambda>i m. m(a + of_nat i := f i)) [0..<n] m = stored a (map f [0..<n]) m"
  using assms
proof (induction n)
  case (Suc n)
  then have n: "unat (of_nat n :: u64) = n" by (simp add: unat_of_nat)
  have "x = a + of_nat n \<longleftrightarrow> unat (x - a) = n" for x
  proof
    assume "unat (x - a) = n"
    then have "x - a = of_nat n" by (simp add: u64_eq_iff n)
    then show "x = a + of_nat n" by (simp add: algebra_simps)
  qed (simp add: n)
  with Suc show ?case by (auto simp: stored_def fun_eq_iff less_Suc_eq nth_append)
qed simp

section \<open>Pushing the strings\<close>

text \<open>A vector of pointers to strings, all of it outside the addresses from \<open>lo\<close> to \<open>hi\<close>.\<close>

definition strings_at :: "bytes_mem \<Rightarrow> nat \<Rightarrow> nat \<Rightarrow> u64 \<Rightarrow> u8 list list \<Rightarrow> bool" where
  "strings_at m lo hi vec strs \<longleftrightarrow> (\<forall>i < length strs. range_outside lo hi (vec + 8 * of_nat i) 8 \<and>
     range_outside lo hi (load64 m (vec + 8 * of_nat i)) (length (strs ! i) + 1) \<and>
     cstring m (load64 m (vec + 8 * of_nat i)) (strs ! i) \<and> length (strs ! i) \<le> INT_MAX)"

lemma strings_at_cong: "same_outside lo hi m m' \<Longrightarrow> strings_at m lo hi vec strs \<Longrightarrow> strings_at m' lo hi vec strs"
  by (simp add: strings_at_def range_outside_word cstring_outside)

definition strings_size :: "u8 list list \<Rightarrow> nat" where
  "strings_size strs = sum_list (map (\<lambda>s. length s + 1) strs)"

lemma strings_size_snoc [simp]: "strings_size [] = 0" "strings_size (strs @ [s]) = strings_size strs + length s + 1"
  by (simp_all add: strings_size_def)

lemma push_string_copies:
  assumes s: "strings_at m lo hi vec strs" "i < length strs" "lo + length (strs ! i) + 1 \<le> unat sp" "unat sp \<le> hi"
    and q: "q = sp - of_nat (length (strs ! i) + 1)"
  shows "\<exists>m'. push_string K2U vec i (sp, as, m) = Some (q, K2U q # as, m') \<and> unat q + length (strs ! i) + 1 = unat sp \<and>
    same_outside (unat q) (unat sp) m m' \<and> cstring m' q (strs ! i)"
proof -
  let ?s = "strs ! i" and ?p = "load64 m (vec + 8 * of_nat i)"
  let ?n = "length ?s + 1"
  from s have p: "range_outside lo hi ?p ?n" "cstring m ?p ?s" "length ?s \<le> INT_MAX" by (auto simp: strings_at_def)
  have "?n < 2 ^ 64" using s(3) unat_u64_less [of sp] by linarith
  then have n: "unat (of_nat ?n :: u64) = ?n" unfolding unat_of_nat by simp
  have u: "unat q + ?n = unat sp" using s(3) n unat_minus_no_borrow [of "of_nat ?n" sp] unfolding q by linarith
  have dj: "disjoint_ranges q ?n ?p ?n"
    using p(1) u s(3,4) unat_u64_less [of sp] by (auto simp: disjoint_ranges_def range_outside_def)
  define m' where "m' = memcpy q ?p (of_nat ?n) m"
  have "disjoint_ranges q (unat (of_nat ?n :: u64)) ?p (unat (of_nat ?n :: u64))" by (simp only: n dj)
  then have m': "m' = copied q ?p ?n m" unfolding m'_def by (simp only: memcpy_copied disjoint_apart n)
  have "same_outside (unat q) (unat sp) m m'"
    using u outside_range [of _ q ?n] unat_u64_less [of sp] by (auto simp: m' copied_def same_outside_def)
  moreover have "cstring m' q ?s"
    using p(2) load_bytes_copied_same [of ?n q ?p m] s(3) unat_u64_less [of sp] by (simp add: cstring_load_bytes m')
  moreover have "push_string K2U vec i (sp, as, m) = Some (q, K2U q # as, m')"
    using strlen_cstring [OF p(2,3)] by (simp add: push_string_def m'_def q Let_def)
  ultimately show ?thesis using u by auto
qed

text \<open>The strings lie between \<open>a\<close> and \<open>b\<close>, at the addresses \<open>as\<close>.\<close>

definition strings_in :: "bytes_mem \<Rightarrow> nat \<Rightarrow> nat \<Rightarrow> u64 list \<Rightarrow> u8 list list \<Rightarrow> bool" where
  "strings_in m a b as strs \<longleftrightarrow> length as = length strs \<and>
     (\<forall>i < length strs. cstring m (as ! i) (strs ! i) \<and> a \<le> unat (as ! i) \<and> unat (as ! i) + length (strs ! i) < b)"

lemma strings_in_outside:
  assumes "strings_in m a b as strs" "same_outside c d m m'" "d \<le> a \<or> b \<le> c" "b \<le> 2 ^ 64" "a' \<le> a" "b \<le> b'"
  shows "strings_in m' a' b' as strs"
  unfolding strings_in_def
proof (intro conjI allI impI)
  fix i assume i: "i < length strs"
  with assms(1) have s: "cstring m (as ! i) (strs ! i)" "a \<le> unat (as ! i)" "unat (as ! i) + length (strs ! i) < b"
    by (auto simp: strings_in_def)
  then have "range_outside c d (as ! i) (length (strs ! i) + 1)" using assms(3,4) by (auto simp: range_outside_def)
  with s cstring_outside [OF assms(2)] show "cstring m' (as ! i) (strs ! i)" by simp
  show "a' \<le> unat (as ! i)" "unat (as ! i) + length (strs ! i) < b'" using s assms(5,6) by simp_all
qed (use assms(1) in \<open>simp add: strings_in_def\<close>)

lemma push_strings_copies:
  assumes "strings_at m lo hi vec strs" "lo + strings_size strs \<le> unat sp" "unat sp \<le> hi" "k = length strs"
  shows "\<exists>sp' as m'. for_each (push_string K2U vec) (rev [0..<k]) (sp, rest, m) = Some (sp', map K2U as @ rest, m') \<and>
    unat sp' + strings_size strs = unat sp \<and> same_outside (unat sp') (unat sp) m m' \<and> strings_in m' (unat sp') (unat sp) as strs"
  using assms
proof (induction strs arbitrary: k sp m rest rule: rev_induct)
  case Nil
  then show ?case by (auto simp: strings_in_def)
next
  case (snoc s strs)
  let ?i = "length strs"
  have k: "rev [0..<k] = ?i # rev [0..<?i]" using snoc.prems(4) by simp
  define q where "q = sp - of_nat (length s + 1)"
  from push_string_copies [OF snoc.prems(1), of ?i sp q K2U rest] snoc.prems obtain m1 where
    1: "push_string K2U vec ?i (sp, rest, m) = Some (q, K2U q # rest, m1)" "unat q + length s + 1 = unat sp"
      "same_outside (unat q) (unat sp) m m1" "cstring m1 q s" by (auto simp: q_def)
  have "same_outside lo hi m m1" using same_outside_trans [OF 1(3) same_outside_refl, of lo hi lo lo] 1(2) snoc.prems by simp
  from strings_at_cong [OF this snoc.prems(1)] have "strings_at m1 lo hi vec strs"
    by (auto simp: strings_at_def nth_append less_Suc_eq)
  from snoc.IH [OF this _ _ refl, of q "K2U q # rest"] 1(2) snoc.prems obtain sp' as m2 where
    2: "for_each (push_string K2U vec) (rev [0..<?i]) (q, K2U q # rest, m1) = Some (sp', map K2U as @ K2U q # rest, m2)"
      "unat sp' + strings_size strs = unat q" "same_outside (unat sp') (unat q) m1 m2" "strings_in m2 (unat sp') (unat q) as strs" by auto
  have c: "cstring m2 q s"
    using cstring_outside [OF 2(3), of q s] 1(2,4) unat_u64_less [of sp] by (simp add: range_outside_def)
  have "strings_in m2 (unat sp') (unat sp) (as @ [q]) (strs @ [s])"
    using 2(2,4) 1(2) c by (auto simp: strings_in_def nth_append less_Suc_eq)
  moreover have "same_outside (unat sp') (unat sp) m m2" using same_outside_trans [OF 1(3) 2(3)] 1(2) 2(2) by simp
  ultimately show ?case using 1(1,2) 2(1,2) k
    by (intro exI [of _ sp'] exI [of _ "as @ [q]"] exI [of _ m2]) simp
qed

section \<open>The layout\<close>

text \<open>The strings of the arguments: those of the caller, or \<open>/init\<close>.\<close>

lemma push_arguments:
  assumes "use_default \<longrightarrow> args = [[0x2F, 0x69, 0x6E, 0x69, 0x74]]" "\<not> use_default \<longrightarrow> strings_at m lo hi argv args"
    "lo + strings_size args \<le> unat sp" "unat sp \<le> hi" "argc = length args"
  shows "\<exists>sp' as m'. (if use_default then (let sp = sp - 6 in Some (sp, [K2U sp], put_bytes sp default_argv0 m))
      else push_strings K2U argv argc sp m) = Some (sp', map K2U as, m') \<and>
    unat sp' + strings_size args = unat sp \<and> same_outside (unat sp') (unat sp) m m' \<and> strings_in m' (unat sp') (unat sp) as args"
proof (cases use_default)
  case False
  with push_strings_copies [of m lo hi argv args sp argc K2U "[]"] assms show ?thesis by (simp add: push_strings_def)
next
  case True
  let ?s = "[0x2F, 0x69, 0x6E, 0x69, 0x74] :: u8 list"
  have a: "args = [?s]" using True assms(1) by simp
  have u: "unat (sp - 6) + 6 = unat sp" using assms(3) a by (simp add: unat_minus_no_borrow strings_size_def)
  have "map ((!) (?s @ [0])) [0..<length (?s @ [0])] = ?s @ [0]" by (rule map_nth)
  then have p: "put_bytes (sp - 6) default_argv0 m = stored (sp - 6) (?s @ [0]) m"
    using fold_stored [of "length (?s @ [0])" "sp - 6" "(!) (?s @ [0])" m] by (simp add: put_bytes_def default_argv0_def)
  have "same_outside (unat (sp - 6)) (unat sp) m (stored (sp - 6) (?s @ [0]) m)"
  proof -
    have l: "unat (sp - 6) + length (?s @ [0]) = unat sp" using u by simp
    from stored_outside [of "sp - 6" "?s @ [0]" m, unfolded l] unat_u64_less [of sp] show ?thesis by simp
  qed
  moreover have "cstring (stored (sp - 6) (?s @ [0]) m) (sp - 6) ?s" by (rule stored_cstring) simp_all
  ultimately show ?thesis using True a u p
    by (intro exI [of _ "sp - 6"] exI [of _ "[sp - 6]"] exI [of _ "stored (sp - 6) (?s @ [0]) m"])
      (simp add: strings_in_def strings_size_def Let_def)
qed

definition load_words :: "bytes_mem \<Rightarrow> u64 \<Rightarrow> nat \<Rightarrow> u64 list" where
  "load_words m a n = map (\<lambda>i. load64 m (a + 8 * of_nat i)) [0..<n]"

lemma align_16: "unat (x AND NOT 15 :: u64) = unat x div 16 * 16"
proof -
  have "(15 :: u64) = mask 4" by (simp add: mask_numeral)
  then show ?thesis by (simp only: unat_and_not_mask) simp
qed

lemma align_16_bounds: "unat (x AND NOT 15 :: u64) \<le> unat x" "unat x < unat (x AND NOT 15 :: u64) + 16"
  "unat (x AND NOT 15 :: u64) mod 16 = 0"
  unfolding align_16 using div_mult_mod_eq [of "unat x" 16] mod_less_divisor [of 16 "unat x"] by (linarith, linarith, simp)


definition example_auxv :: elf_auxv_info where
  "example_auxv = \<lparr>at_phdr = 0x400040, at_phent = 56, at_phnum = 2, at_entry = 0x401000, at_base = 0, at_has_interp = False\<rparr>"


end
