(* ===== verification/Interrupts.thy ===== *)
theory Interrupts
  imports Syscalls
begin

text \<open>
  Interrupts of the x86-64 kernel: the handler of exceptions and device interrupts
  (\<^verbatim>\<open>src/arch/x86_64/idt/interrupt_handler.c\<close>), the timer of the local APIC
  (\<^verbatim>\<open>src/arch/x86_64/clock/lapic.c\<close>) and the interval timer (\<^verbatim>\<open>pit.c\<close>).

  Registers of devices are logs of what is written to them; what a device answers is an argument.
  The handler of the serial port is written in Rust and is a parameter.
\<close>

section \<open>The local APIC\<close>

record irq_state = keyboard_state +
  lapic_log :: "(u32 \<times> u32) list"
  lapic_ticks_per_second :: u64
  lapic_ready :: bool
  timer_used_before :: bool

abbreviation (input) LAPIC_EOI :: u32 where "LAPIC_EOI \<equiv> 0x0B0"
abbreviation (input) LAPIC_SVR :: u32 where "LAPIC_SVR \<equiv> 0x0F0"
abbreviation (input) LAPIC_LVT_TIMER :: u32 where "LAPIC_LVT_TIMER \<equiv> 0x320"
abbreviation (input) LAPIC_TICR :: u32 where "LAPIC_TICR \<equiv> 0x380"
abbreviation (input) LAPIC_DIVIDE :: u32 where "LAPIC_DIVIDE \<equiv> 0x3E0"
abbreviation (input) TIMER_VECTOR :: u32 where "TIMER_VECTOR \<equiv> 0x40"

definition lapic_write :: "u32 \<Rightarrow> u32 \<Rightarrow> 'a irq_state_scheme \<Rightarrow> 'a irq_state_scheme" where
  "lapic_write reg v s = s\<lparr>lapic_log := lapic_log s @ [(reg, v)]\<rparr>"

text \<open>\<open>remaining\<close> is what the counter shows after ten milliseconds.\<close>

definition lapic_calibrate :: "u32 \<Rightarrow> 'a irq_state_scheme \<Rightarrow> u64 \<times> 'a irq_state_scheme" where
  "lapic_calibrate remaining s =
     (let s = lapic_write LAPIC_TICR 0xFFFFFFFF (lapic_write LAPIC_LVT_TIMER (0x10000 OR TIMER_VECTOR) (lapic_write LAPIC_DIVIDE 0x3 s));
          elapsed = 0xFFFFFFFF - remaining
      in (ucast elapsed * 100 * 16, s))"

definition lapic_init :: "u32 \<Rightarrow> u32 \<Rightarrow> 'a irq_state_scheme \<Rightarrow> 'a irq_state_scheme" where
  "lapic_init svr remaining s =
     (let s = lapic_write LAPIC_SVR (svr OR push_bit 8 1) s;
          (ticks, s) = lapic_calibrate remaining s;
          s = s\<lparr>lapic_ticks_per_second := ticks\<rparr>;
          s = lapic_write LAPIC_DIVIDE 0x3 s;
          s = lapic_write LAPIC_LVT_TIMER (TIMER_VECTOR OR push_bit 17 1) s;
          initial_count = ucast (ticks div 1000);
          s = lapic_write LAPIC_TICR initial_count s
      in s\<lparr>lapic_ready := True\<rparr>)"

definition lapic_broadcast_nmi :: "'a irq_state_scheme \<Rightarrow> 'a irq_state_scheme" where
  "lapic_broadcast_nmi s =
     (if \<not> lapic_ready s then s
      else lapic_write 0x300 (push_bit 18 3 OR push_bit 14 1 OR push_bit 8 4) (lapic_write 0x310 0 s))"

definition lapic_timer_handler ::
  "'b kernel_image_scheme \<Rightarrow> u8 \<Rightarrow> u64 \<Rightarrow> 'a irq_state_scheme \<Rightarrow> (u64 \<times> 'a irq_state_scheme) option" where
  "lapic_timer_handler K cpu regs s = scheduler_schedule K cpu regs (lapic_write LAPIC_EOI 0 s)"

text \<open>A frequency of 0 divides by 0.\<close>

definition timer_init :: "u32 \<Rightarrow> u32 \<Rightarrow> u32 \<Rightarrow> 'a irq_state_scheme \<Rightarrow> 'a irq_state_scheme option" where
  "timer_init frequency svr remaining s =
     (if timer_used_before s then Some (lapic_init svr remaining s)
      else if frequency = 0 then None
      else let divisor = 1193180 div frequency;
               s = arch_outb 0x43 0x36 s;
               s = arch_outb 0x40 (ucast (divisor AND 0xFF)) s;
               s = arch_outb 0x40 (ucast (drop_bit 8 divisor AND 0xFF)) s
           in Some (lapic_init svr remaining (s\<lparr>timer_used_before := True\<rparr>)))"

section \<open>The handler\<close>

text \<open>What the processor reads from devices when the handler asks them.\<close>

record irq_input =
  in_fault_addr :: u64
  in_ps2_status :: u8
  in_ps2_data :: u8

text \<open>The frame to resume, the end of the thread that was interrupted, a CPU that stops, or a panic.\<close>

datatype isr_answer = Isr_Return u64 | Isr_Gone | Isr_Halt | Isr_Panic

definition isr_schedule ::
  "'b kernel_image_scheme \<Rightarrow> u8 \<Rightarrow> u64 \<Rightarrow> 'a irq_state_scheme \<Rightarrow> (isr_answer \<times> 'a irq_state_scheme) option" where
  "isr_schedule K cpu regs s = map_option (\<lambda>(r, s). (Isr_Return r, s)) (scheduler_schedule K cpu regs s)"

text \<open>\<^verbatim>\<open>thread_exit_status(11); return scheduler_schedule(regs);\<close>\<close>

definition segfault_exit ::
  "'b kernel_image_scheme \<Rightarrow> u8 \<Rightarrow> u64 \<Rightarrow> 'a irq_state_scheme \<Rightarrow> (isr_answer \<times> 'a irq_state_scheme) option" where
  "segfault_exit K cpu regs s = do {
     (a, s) \<leftarrow> thread_exit_status K cpu 11 s;
     (case a of
        Exit_Returns \<Rightarrow> isr_schedule K cpu regs s
      | Exit_Panic \<Rightarrow> Some (Isr_Panic, s)
      | Exit_Switch \<Rightarrow> Some (Isr_Gone, s)) }"

definition cpu_exception ::
  "'e keyboard_env_scheme \<Rightarrow> 'b kernel_image_scheme \<Rightarrow> u8 \<Rightarrow> u64 \<Rightarrow> registers \<Rightarrow> irq_input \<Rightarrow> 'a irq_state_scheme \<Rightarrow>
   (isr_answer \<times> 'a irq_state_scheme) option" where
  "cpu_exception E K cpu regs r i s =
     (if rg_int_no r = 14 \<and> rg_err_code r AND 4 \<noteq> 0 then do {
        s \<leftarrow> locked_printf E (ascii ''Segmentation fault at %p (%s %p; %s)'' @ [0x0A])
               [Num (rg_rip r), Str (if rg_err_code r AND 2 \<noteq> 0 then ascii ''writing to'' else ascii ''reading''), Num (in_fault_addr i),
                Str (if rg_err_code r AND 1 \<noteq> 0 then ascii ''protection violation'' else ascii ''non-present'')] s;
        segfault_exit K cpu regs s }
      else if rg_int_no r = 13 \<and> rg_cs r AND 3 = 3 then do {
        s \<leftarrow> locked_printf E (ascii ''Segmentation fault at %p (user-mode #GP)'') [Num (rg_rip r)] s;
        segfault_exit K cpu regs s }
      else Some (Isr_Panic, s))"

definition end_of_interrupt :: "u64 \<Rightarrow> 'a irq_state_scheme \<Rightarrow> 'a irq_state_scheme" where
  "end_of_interrupt int_no s =
     (if 32 \<le> int_no \<and> int_no \<le> 47
      then arch_outb 0x20 0x20 (if 40 \<le> int_no then arch_outb 0xA0 0x20 s else s) else s)"

definition isr_handler ::
  "'e keyboard_env_scheme \<Rightarrow> 'b kernel_image_scheme \<Rightarrow> ('a irq_state_scheme \<Rightarrow> 'a irq_state_scheme option) \<Rightarrow> u8 \<Rightarrow> u64 \<Rightarrow> irq_input \<Rightarrow>
   'a irq_state_scheme \<Rightarrow> (isr_answer \<times> 'a irq_state_scheme) option" where
  "isr_handler E K arch_com1_handler cpu regs i s = do {
     r \<leftarrow> frames s regs;
     let int_no = rg_int_no r;
     if int_no = 2 then Some (Isr_Halt, s)
     else if int_no < 32 then cpu_exception E K cpu regs r i s
     else do {
       let s = end_of_interrupt int_no s;
       if int_no = 32 then isr_schedule K cpu regs s
       else if int_no = 33 then do {
         s \<leftarrow> ps2_interrupt_handler E (in_ps2_status i) (in_ps2_data i) s;
         Some (Isr_Return regs, s) }
       else if int_no = 36 then do { s \<leftarrow> arch_com1_handler s; Some (Isr_Return regs, s) }
       else if int_no = 0x40 then map_option (\<lambda>(r, s). (Isr_Return r, s)) (lapic_timer_handler K cpu regs s)
       else if int_no = 0x41 then isr_schedule K cpu regs s
       else Some (Isr_Return regs, s) } }"

end
