(* ===== verification/Acpi.thy ===== *)
theory Acpi
  imports Interrupts
begin

text \<open>
  The tables of the firmware, \<^verbatim>\<open>src/drivers/acpi/acpi.c\<close>: the search for the root pointer in low
  memory, the search for a table, and the list of processors. The tables are bytes of memory
  behind the direct map.
\<close>

record acpi_state = irq_state +
  acpi_madt :: u64
  acpi_rsdp :: u64
  acpi_hpet :: u64

abbreviation (input) ACPI_MADT_SIGNATURE :: u32 where "ACPI_MADT_SIGNATURE \<equiv> 0x43495041"
abbreviation (input) ACPI_HPET_SIGNATURE :: u32 where "ACPI_HPET_SIGNATURE \<equiv> 0x54455048"

definition ACPI_RSDP_SIGNATURE :: "u8 list" where
  "ACPI_RSDP_SIGNATURE = [0x52, 0x53, 0x44, 0x20, 0x50, 0x54, 0x52, 0x20]"

record acpi_rsdp_t =
  rsdp_signature :: "u8 list"
  rsdp_revision :: u8
  rsdp_rsdt_address :: u32
  rsdp_length :: u32
  rsdp_xsdt_address :: u64

definition rsdp_at :: "bytes_mem \<Rightarrow> u64 \<Rightarrow> acpi_rsdp_t" where
  "rsdp_at m a = \<lparr>rsdp_signature = load_bytes m a 8, rsdp_revision = m (a + 15), rsdp_rsdt_address = load32 m (a + 16),
     rsdp_length = load32 m (a + 20), rsdp_xsdt_address = load64 m (a + 24)\<rparr>"

text \<open>The signature and the length of a table, in its first eight bytes; the header has 36.\<close>

definition sdt_signature :: "bytes_mem \<Rightarrow> u64 \<Rightarrow> u32" where "sdt_signature m a = load32 m a"
definition sdt_length :: "bytes_mem \<Rightarrow> u64 \<Rightarrow> u32" where "sdt_length m a = load32 m (a + 4)"

definition acpi_checksum :: "bytes_mem \<Rightarrow> u64 \<Rightarrow> u64 \<Rightarrow> bool" where
  "acpi_checksum m table len = (sum_list (load_bytes m table (unat len)) = 0)"

definition rsdp_valid :: "bytes_mem \<Rightarrow> u64 \<Rightarrow> bool" where
  "rsdp_valid m a =
     (let r = rsdp_at m a in
      rsdp_signature r = ACPI_RSDP_SIGNATURE \<and> acpi_checksum m a 20 \<and>
      (2 \<le> rsdp_revision r \<and> 36 \<le> rsdp_length r \<longrightarrow> acpi_checksum m a (ucast (rsdp_length r))))"

partial_function (option) scan_region :: "'b boot_env_scheme \<Rightarrow> bytes_mem \<Rightarrow> u64 \<Rightarrow> u64 \<Rightarrow> u64 option" where
  "scan_region K m addr fin =
     (if \<not> addr < fin then Some NULL
      else if rsdp_valid m (phys_to_virt K addr) then Some (phys_to_virt K addr)
      else scan_region K m (addr + 16) fin)"

definition find_rsdp :: "'b boot_env_scheme \<Rightarrow> bytes_mem \<Rightarrow> u64 option" where
  "find_rsdp K m = do {
     let ebda = push_bit 4 (ucast (load16 m (phys_to_virt K 0x40E)) :: u64);
     r \<leftarrow> (if ebda \<noteq> 0 then scan_region K m ebda (ebda + 1024) else Some NULL);
     if r \<noteq> NULL then Some r else scan_region K m 0xE0000 0x100000 }"

definition acpi_get_sdt_root :: "'b boot_env_scheme \<Rightarrow> u64 \<Rightarrow> bytes_mem \<Rightarrow> u64" where
  "acpi_get_sdt_root K rsdp m =
     (let r = rsdp_at m rsdp in
      if rsdp = NULL then NULL
      else if 2 \<le> rsdp_revision r \<and> rsdp_xsdt_address r \<noteq> 0 then phys_to_virt K (rsdp_xsdt_address r)
      else phys_to_virt K (ucast (rsdp_rsdt_address r)))"

text \<open>The address of entry \<open>i\<close>, of eight or four bytes.\<close>

definition sdt_entry :: "bytes_mem \<Rightarrow> u64 \<Rightarrow> u64 \<Rightarrow> nat \<Rightarrow> u64" where
  "sdt_entry m root entry_size i =
     (let entries = root + 36 in
      if entry_size = 8 then load64 m (entries + 8 * of_nat i) else ucast (load32 m (entries + 4 * of_nat i)))"

definition acpi_find_table :: "'b boot_env_scheme \<Rightarrow> u32 \<Rightarrow> 'a acpi_state_scheme \<Rightarrow> u64" where
  "acpi_find_table K signature s =
     (let m = kbytes s; root = acpi_get_sdt_root K (acpi_rsdp s) m in
      if root = NULL then NULL
      else let entry_size = (if 2 \<le> rsdp_revision (rsdp_at m (acpi_rsdp s)) then 8 else 4);
               cnt = sint (ucast ((ucast (sdt_length m root) - 36 :: u64) div entry_size) :: u32);
               matches = (\<lambda>i. let addr = sdt_entry m root entry_size i; table = phys_to_virt K addr in
                 addr \<noteq> 0 \<and> sdt_signature m table = signature \<and> acpi_checksum m table (ucast (sdt_length m table)))
           in (case find matches [0..<nat cnt] of None \<Rightarrow> NULL | Some i \<Rightarrow> phys_to_virt K (sdt_entry m root entry_size i)))"

definition acpi_find_madt :: "'b boot_env_scheme \<Rightarrow> 'a acpi_state_scheme \<Rightarrow> u64" where
  "acpi_find_madt K s = acpi_find_table K ACPI_MADT_SIGNATURE s"

definition acpi_find_hpet :: "'b boot_env_scheme \<Rightarrow> 'a acpi_state_scheme \<Rightarrow> u64" where
  "acpi_find_hpet K s = acpi_find_table K ACPI_HPET_SIGNATURE s"

text \<open>
  The processors that are enabled, at most \<open>max_cpus\<close>, in the order of the table. An entry begins with
  its type and its length; one of length 0 is looked at for ever.
\<close>

partial_function (option) cpus_loop :: "bytes_mem \<Rightarrow> nat \<Rightarrow> u64 \<Rightarrow> u64 \<Rightarrow> u8 list \<Rightarrow> u8 list option" where
  "cpus_loop m max_cpus fin ptr ids =
     (if \<not> ptr < fin then Some ids
      else cpus_loop m max_cpus fin (ptr + ucast (m (ptr + 1)))
        (if m ptr = 0 \<and> load32 m (ptr + 4) AND 1 \<noteq> 0 \<and> length ids < max_cpus then ids @ [m (ptr + 3)] else ids))"

definition acpi_get_cpus :: "nat \<Rightarrow> 'a acpi_state_scheme \<Rightarrow> u8 list option" where
  "acpi_get_cpus max_cpus s =
     (if acpi_madt s = NULL then Some []
      else cpus_loop (kbytes s) max_cpus (acpi_madt s + ucast (sdt_length (kbytes s) (acpi_madt s))) (acpi_madt s + 44) [])"

definition acpi_init :: "'b boot_env_scheme \<Rightarrow> 'a acpi_state_scheme \<Rightarrow> 'a acpi_state_scheme option" where
  "acpi_init K s = do {
     rsdp \<leftarrow> find_rsdp K (kbytes s);
     let s = s\<lparr>acpi_rsdp := rsdp\<rparr>;
     if rsdp = NULL then Some s
     else do {
       let s = s\<lparr>acpi_madt := acpi_find_madt K s\<rparr>;
       if acpi_madt s = NULL then Some s
       else Some (s\<lparr>acpi_hpet := acpi_find_hpet K s\<rparr>) } }"

end
