(* ===== verification/Boot.thy ===== *)
theory Boot
  imports Acpi Memmap
begin

text \<open>
  The start of the x86-64 kernel: what the boot loader hands over (\<^verbatim>\<open>src/core/init/\<close>), the
  initialisation of the first CPU and of the others (\<^verbatim>\<open>src/arch/x86_64/init/common.c\<close>,
  \<^verbatim>\<open>smp/boot.c\<close>), the main function (\<^verbatim>\<open>src/core/main.c\<close>) and the panic screen (\<^verbatim>\<open>panic.c\<close>).

  What devices and CPUID answer, and which other CPUs come up in time, is given. The messages of a start
  without errors are left out. The list of PCI devices is printed by a driver in Rust, a parameter.
\<close>

section \<open>What the boot loader hands over\<close>

record common_boot_structure =
  cbs_font_size :: u64
  cbs_font_addr :: u64
  cbs_initramfs_size :: u64
  cbs_initramfs_addr :: u64
  cbs_fb_addr :: u64
  cbs_fb_bpp :: u8
  cbs_fb_width :: u32
  cbs_fb_height :: u32
  cbs_fb_pitch :: u32
  cbs_plain_mbd :: u64
  cbs_cmdline :: u64

definition zero_cbs :: common_boot_structure where
  "zero_cbs = \<lparr>cbs_font_size = 0, cbs_font_addr = NULL, cbs_initramfs_size = 0, cbs_initramfs_addr = NULL, cbs_fb_addr = NULL,
     cbs_fb_bpp = 0, cbs_fb_width = 0, cbs_fb_height = 0, cbs_fb_pitch = 0, cbs_plain_mbd = NULL, cbs_cmdline = NULL\<rparr>"

text \<open>\<^verbatim>\<open>strcmp(p, literal) == 0\<close>\<close>

definition is_string :: "bytes_mem \<Rightarrow> u64 \<Rightarrow> u8 list \<Rightarrow> bool" where
  "is_string m p lit \<longleftrightarrow> load_bytes m p (length lit + 1) = lit @ [0]"

text \<open>A module of the boot loader: its name, its address and its size.\<close>

definition take_module :: "u8 list \<Rightarrow> u8 list \<Rightarrow> bytes_mem \<Rightarrow> u64 \<times> u64 \<times> u64 \<Rightarrow> common_boot_structure \<Rightarrow> common_boot_structure" where
  "take_module initramfs font m md cbs = (case md of (path, addr, sz) \<Rightarrow>
     if is_string m path initramfs then cbs\<lparr>cbs_initramfs_addr := addr, cbs_initramfs_size := sz\<rparr>
     else if is_string m path font then cbs\<lparr>cbs_font_addr := addr, cbs_font_size := sz\<rparr>
     else cbs)"

text \<open>The responses of the Limine protocol: the first framebuffer, the command line, the modules.\<close>

record limine_framebuffer =
  lf_address :: u64
  lf_width :: u64
  lf_height :: u64
  lf_pitch :: u64
  lf_bpp :: u16

record limine_responses =
  lr_framebuffer :: "limine_framebuffer option"
  lr_cmdline :: "u64 option"
  lr_modules :: "(u64 \<times> u64 \<times> u64) list option"

definition kinit_limine :: "limine_responses \<Rightarrow> bytes_mem \<Rightarrow> common_boot_structure" where
  "kinit_limine R m =
     (let cbs = zero_cbs;
          cbs = (case lr_framebuffer R of None \<Rightarrow> cbs
            | Some f \<Rightarrow> cbs\<lparr>cbs_fb_addr := lf_address f, cbs_fb_width := ucast (lf_width f), cbs_fb_height := ucast (lf_height f),
                cbs_fb_pitch := ucast (lf_pitch f), cbs_fb_bpp := ucast (lf_bpp f)\<rparr>);
          cbs = (case lr_cmdline R of None \<Rightarrow> cbs
            | Some p \<Rightarrow> if p \<noteq> NULL \<and> m p \<noteq> 0 then cbs\<lparr>cbs_cmdline := p\<rparr> else cbs)
      in (case lr_modules R of None \<Rightarrow> cbs
            | Some mds \<Rightarrow> fold (take_module (ascii ''/initramfs.tar'') (ascii ''/font.psf1'') m) mds cbs))"

text \<open>The structures of the Multiboot protocol that the kernel reads, packed.\<close>

record multiboot_info =
  mbi_flags :: u32
  mbi_cmdline :: u32
  mbi_mods_count :: u32
  mbi_mods_addr :: u32
  mbi_mmap_length :: u32
  mbi_mmap_addr :: u32
  mbi_fb_addr :: u64
  mbi_fb_pitch :: u32
  mbi_fb_width :: u32
  mbi_fb_height :: u32
  mbi_fb_bpp :: u8
  mbi_fb_type :: u8

definition multiboot_info_at :: "bytes_mem \<Rightarrow> u64 \<Rightarrow> multiboot_info" where
  "multiboot_info_at m a = \<lparr>mbi_flags = load32 m a, mbi_cmdline = load32 m (a + 16), mbi_mods_count = load32 m (a + 20),
     mbi_mods_addr = load32 m (a + 24), mbi_mmap_length = load32 m (a + 44), mbi_mmap_addr = load32 m (a + 48),
     mbi_fb_addr = load64 m (a + 88), mbi_fb_pitch = load32 m (a + 96), mbi_fb_width = load32 m (a + 100),
     mbi_fb_height = load32 m (a + 104), mbi_fb_bpp = m (a + 108), mbi_fb_type = m (a + 109)\<rparr>"

definition multiboot_module_at :: "'b boot_env_scheme \<Rightarrow> bytes_mem \<Rightarrow> u64 \<Rightarrow> u64 \<times> u64 \<times> u64" where
  "multiboot_module_at K m a =
     (let mod_start = load32 m a; mod_end = load32 m (a + 4); cmdline = load32 m (a + 8)
      in (phys_to_virt K (ucast cmdline), phys_to_virt K (ucast mod_start), ucast (mod_end - mod_start)))"

definition kinit_grub :: "'b boot_env_scheme \<Rightarrow> u64 \<Rightarrow> bytes_mem \<Rightarrow> common_boot_structure" where
  "kinit_grub K mbd m =
     (let i = multiboot_info_at m mbd;
          cbs = zero_cbs\<lparr>cbs_plain_mbd := mbd\<rparr>;
          cmdline = phys_to_virt K (ucast (mbi_cmdline i));
          cbs = (if mbi_cmdline i \<noteq> 0 \<and> m cmdline \<noteq> 0 then cbs\<lparr>cbs_cmdline := cmdline\<rparr> else cbs);
          cbs = (if mbi_flags i AND 0x1000 \<noteq> 0 \<and> mbi_fb_type i = 1
            then cbs\<lparr>cbs_fb_addr := phys_to_virt K (mbi_fb_addr i), cbs_fb_width := mbi_fb_width i, cbs_fb_height := mbi_fb_height i,
                  cbs_fb_pitch := mbi_fb_pitch i, cbs_fb_bpp := mbi_fb_bpp i\<rparr> else cbs);
          mods = phys_to_virt K (ucast (mbi_mods_addr i))
      in fold (\<lambda>k. take_module (ascii ''initramfs.tar'') (ascii ''font.psf1'') m (multiboot_module_at K m (mods + 16 * of_nat k)))
           [0..<unat (mbi_mods_count i)] cbs)"

text \<open>The walk over the memory map of Multiboot: an entry has the size of what follows it, 20 bytes or more.\<close>

partial_function (option) multiboot_map ::
  "bytes_mem \<Rightarrow> u64 \<Rightarrow> u64 \<Rightarrow> memory_map_entry list \<Rightarrow> memory_map_entry list option" where
  "multiboot_map m entry mmap_end es =
     (if \<not> entry < mmap_end \<or> 64 \<le> length es then Some es
      else multiboot_map m (entry + ucast (load32 m entry) + 4) mmap_end
        (es @ [\<lparr>mm_addr = load64 m (entry + 4), mm_len = load64 m (entry + 12), mm_type = load32 m (entry + 20)\<rparr>]))"

definition multiboot_mmap :: "'b boot_env_scheme \<Rightarrow> u64 \<Rightarrow> bytes_mem \<Rightarrow> memory_map_entry list option option" where
  "multiboot_mmap K mbd m =
     (let i = multiboot_info_at m mbd in
      if mbi_flags i AND 0x40 = 0 then Some None
      else let mmap_start = phys_to_virt K (ucast (mbi_mmap_addr i))
           in map_option Some (multiboot_map m mmap_start (mmap_start + ucast (mbi_mmap_length i)) []))"

section \<open>The CPUs\<close>

record boot_state = acpi_state +
  ap_alive_table :: "u8 \<Rightarrow> u8"
  panicked :: bool
  panic_invoker :: u32

record boot_image = kernel_image +
  sym_ap_start :: u64
  sym_ap_end :: u64
  sym_ap_main :: u64
  sym_kernel_stacks :: u64
  init_buffer_var :: u64

text \<open>What the hardware answers while the kernel starts; \<open>bi_ap_up\<close>: the CPU starts within the time it gets.\<close>

record boot_input =
  bi_cpu :: u8
  bi_pic :: "(u16 \<times> u8) list \<Rightarrow> u16 \<Rightarrow> u8"
  bi_leaf7_ecx :: u32
  bi_svr :: u32
  bi_remaining :: u32
  bi_root_reg :: u64
  bi_memmap :: "(u64 \<times> u64 \<times> u64) list option"
  bi_ap_up :: "u8 \<Rightarrow> bool"
  bi_smp :: bool

definition arch_early_init :: "'b kernel_image_scheme \<Rightarrow> boot_input \<Rightarrow> 'a irq_state_scheme \<Rightarrow> 'a irq_state_scheme option" where
  "arch_early_init K I s =
     (let s = enable_sse (bi_cpu I) s;
          s = gdt_init K (bi_cpu I) s;
          s = pic_remap (bi_pic I) 0x20 0x28 s;
          s = idt_init K (bi_cpu I) s
      in do {
        s \<leftarrow> timer_init 100 (bi_svr I) (bi_remaining I) s;
        Some (init_syscall K (bi_cpu I) (enable_umip (bi_leaf7_ecx I) (bi_cpu I) s)) })"

definition arch_ap_init :: "'b kernel_image_scheme \<Rightarrow> boot_input \<Rightarrow> u8 \<Rightarrow> 'a irq_state_scheme \<Rightarrow> 'a irq_state_scheme option" where
  "arch_ap_init K I cpu s =
     (let s = enable_sse cpu s;
          s = idt_init K cpu s;
          s = gdt_init K cpu s
      in do {
        s \<leftarrow> timer_init 100 (bi_svr I) (bi_remaining I) s;
        Some (init_syscall K cpu (enable_umip (bi_leaf7_ecx I) cpu s)) })"

text \<open>The trampoline's page and the two behind it are mapped where they are; the results are not looked at.\<close>

definition map_trampoline :: "'b kernel_build_scheme \<Rightarrow> 'a vm_state_scheme \<Rightarrow> 'a vm_state_scheme option" where
  "map_trampoline K s =
     for_each (\<lambda>addr s. map_option snd (map_page_4k K NULL addr addr (VMF_WRITE OR VMF_EXEC) s)) [0x70000, 0x71000, 0x72000] s"

definition fill_trampoline :: "'b boot_image_scheme \<Rightarrow> u8 \<Rightarrow> u8 \<Rightarrow> 'a cpu_state_scheme \<Rightarrow> 'a cpu_state_scheme" where
  "fill_trampoline K cpu target s =
     (let m = memcpy 0x70000 (sym_ap_start K) (sym_ap_end K - sym_ap_start K) (kbytes s);
          m = store32 0x70F00 (ucast (cr3 s cpu)) m;
          m = store16 0x70F30 (gp_limit (gdt_ptr_per_cpu s cpu)) m;
          m = store64 0x70F32 (gdtr s cpu) m;
          m = store64 0x70F08 0x70F30 m;
          m = store64 0x70F10 (sym_ap_main K) m;
          m = store64 0x70F18 (sym_kernel_stacks K + 16384 * (ucast target + 1)) m
      in s\<lparr>kbytes := m\<rparr>)"

text \<open>The INIT and the two start-up messages.\<close>

definition send_ipi :: "u8 \<Rightarrow> u32 \<Rightarrow> 'a irq_state_scheme \<Rightarrow> 'a irq_state_scheme" where
  "send_ipi target v s = lapic_write 0x300 v (lapic_write 0x310 (push_bit 24 (ucast target)) s)"

definition boot_ap :: "'b boot_image_scheme \<Rightarrow> boot_input \<Rightarrow> u8 \<Rightarrow> 'a boot_state_scheme \<Rightarrow> 'a boot_state_scheme option" where
  "boot_ap K I target s = do {
     s \<leftarrow> map_trampoline K s;
     let s = fill_trampoline K (bi_cpu I) target s;
     let s = s\<lparr>ap_alive_table := (ap_alive_table s)(target := 0)\<rparr>;
     let s = send_ipi target 0x4670 (send_ipi target 0x4670 (send_ipi target 0x4500 s));
     Some (if bi_ap_up I target then s\<lparr>ap_alive_table := (ap_alive_table s)(target := 1)\<rparr> else s) }"

definition boot_all_aps :: "'b boot_image_scheme \<Rightarrow> boot_input \<Rightarrow> u8 list \<Rightarrow> 'a boot_state_scheme \<Rightarrow> 'a boot_state_scheme option" where
  "boot_all_aps K I ids s = for_each (\<lambda>apic_id s. if apic_id = bi_cpu I then Some s else boot_ap K I apic_id s) ids s"

definition arch_boot_aps :: "'b boot_image_scheme \<Rightarrow> boot_input \<Rightarrow> 'a boot_state_scheme \<Rightarrow> 'a boot_state_scheme option" where
  "arch_boot_aps K I s = do { ids \<leftarrow> acpi_get_cpus 256 s; boot_all_aps K I ids s }"

text \<open>The entry of another CPU, up to its loop, which reaps dead threads for ever.\<close>

definition ap_main :: "'b kernel_image_scheme \<Rightarrow> boot_input \<Rightarrow> u8 \<Rightarrow> 'a boot_state_scheme \<Rightarrow> 'a boot_state_scheme option" where
  "ap_main K I cpu s = do {
     let s = s\<lparr>ap_alive_table := (ap_alive_table s)(cpu := 1)\<rparr>;
     s \<leftarrow> arch_ap_init K I cpu s;
     scheduler_ap_init cpu s }"

section \<open>Panic\<close>

definition cpu_exception_names :: "u8 list list" where
  "cpu_exception_names = map ascii [''Divide Error'', ''Debug'', ''Non Maskable Interrupt'', ''Breakpoint'', ''Overflow'',
     ''BOUND Range Exceeded'', ''Invalid Opcode'', ''Device Not Available'', ''Double Fault'',
     ''Coprocessor Segment Overrun (reserved)'', ''Invalid TSS'', ''Segment Not Present'', ''Stack-Segment Fault'',
     ''General Protection Fault'', ''Page Fault'', ''Reserved'', ''x87 Floating-Point Exception'', ''Alignment Check'',
     ''Machine Check'', ''SIMD Floating-Point Exception'', ''Virtualization Exception'', ''Control Protection Exception'',
     ''Reserved'', ''Reserved'', ''Reserved'', ''Reserved'', ''Reserved'', ''Reserved'', ''Hypervisor Injection Exception'',
     ''VMM Communication Exception'', ''Security Exception'', ''Reserved'']"

definition cpu_exception_name :: "u64 \<Rightarrow> u8 list" where
  "cpu_exception_name int_no = (if int_no < 32 then cpu_exception_names ! unat int_no else ascii ''Unknown'')"

text \<open>A line of the screen: its format and its arguments, which are read when it is printed.\<close>

type_synonym 'a panic_line = "u8 list \<times> ('a boot_state_scheme \<Rightarrow> print_arg list)"

definition panic_print :: "'c console_env_scheme \<Rightarrow> u64 \<Rightarrow> 'a panic_line list \<Rightarrow> 'a boot_state_scheme \<Rightarrow> 'a boot_state_scheme option" where
  "panic_print E ticks ls s = for_each (\<lambda>(fmt, args) s. printk E ticks KMT_ERROR (ascii ''Core'') fmt (args s) s) ls s"

definition plain_line :: "string \<Rightarrow> 'a panic_line" where
  "plain_line t = (ascii t, \<lambda>_. [])"

definition red :: "string \<Rightarrow> u8 list" where
  "red t = [ESC] @ ascii ''[91m'' @ ascii t @ [ESC] @ ascii ''[0m: %s''"

definition stack_line :: "u64 \<Rightarrow> nat \<Rightarrow> 'a panic_line" where
  "stack_line rsp i = (ascii ''      * [%p] = %p'', \<lambda>s. [Num (rsp + 8 * of_nat i), Num (load64 (kbytes s) (rsp + 8 * of_nat i))])"

definition register_lines :: "u8 \<Rightarrow> u64 \<Rightarrow> registers \<Rightarrow> 'a panic_line list" where
  "register_lines cpu cr2 r =
     [(ascii ''  - CPU exception: %s'', \<lambda>_. [Str (cpu_exception_name (rg_int_no r))]),
      (ascii ''  - Basic info:    interrupt_number=%d   apic_cpu_id=%d  err_code=%p'', \<lambda>_. [Num (rg_int_no r), Num (ucast cpu), Num (rg_err_code r)]),
      (ascii ''  - Registers:     rax=%p  rbx=%p  rcx=%p  rdx=%p'', \<lambda>_. [Num (rg_rax r), Num (rg_rbx r), Num (rg_rcx r), Num (rg_rdx r)]),
      (ascii ''  - Registers:     rsi=%p  rdi=%p  rbp=%p  rsp=%p'', \<lambda>_. [Num (rg_rsi r), Num (rg_rdi r), Num (rg_rbp r), Num (rg_rsp r)]),
      (ascii ''  - Registers:     cr2=%p  rip=%p'', \<lambda>_. [Num cr2, Num (rg_rip r)])] @
     (if rg_int_no r = 14 then
        [(ascii ''  - Page fault:    %s mode, %s %p'', \<lambda>_. [Str (if rg_err_code r AND 4 \<noteq> 0 then ascii ''user'' else ascii ''kernel''),
           Str (if rg_err_code r AND 2 \<noteq> 0 then ascii ''writing to'' else ascii ''reading''), Num cr2])] else []) @
     plain_line ''  - Stack dump:'' # map (stack_line (rg_rsp r)) [0..<16]"

text \<open>
  The state in which the CPU halts for ever. Without \<open>regs\<close> the panic did not come from an interrupt. A panic
  during a panic prints on whatever the console is.
\<close>

definition panic ::
  "'c console_env_scheme \<Rightarrow> u8 \<Rightarrow> u64 \<Rightarrow> u64 \<Rightarrow> u8 list \<Rightarrow> registers option \<Rightarrow> 'a boot_state_scheme \<Rightarrow> 'a boot_state_scheme option" where
  "panic E cpu cr2 ticks reason regs s =
     (let s = s\<lparr>interrupts_on := (interrupts_on s)(cpu := False), context_switch_lock := True\<rparr> in
      if panicked s then
        panic_print E ticks
          [(red ''Double kernel panic'', \<lambda>_. [Str reason]),
           plain_line ''  - A kernel panic occured while handling the first kernel panic.'',
           plain_line ''  - Please file a bug report: https://github.com/gorciu-official/Utopia/issues/new'',
           plain_line ''  - The system enters a halted state, please restart the computer manually''] s
      else do {
        let s = lapic_broadcast_nmi (s\<lparr>panicked := True\<rparr>);
        s \<leftarrow> printk_remove_console_suspension E ticks s;
        s \<leftarrow> panic_print E ticks ((red ''Kernel panic'', \<lambda>_. [Str reason]) #
          (case regs of Some r \<Rightarrow> register_lines cpu cr2 r
           | None \<Rightarrow> [plain_line ''  - No register dump available, panic not invoked via hardware interrupt.''])) s;
        let s = s\<lparr>panic_invoker := ucast cpu\<rparr>;
        panic_print E ticks
          [plain_line ''  - You can try to file a bug report: https://github.com/gorciu-official/Utopia/issues/new'',
           plain_line ''  - The system enters a halted state, please restart the computer manually.''] s })"

section \<open>The main function\<close>

definition reserve_module :: "'b boot_env_scheme \<Rightarrow> u64 \<Rightarrow> u64 \<Rightarrow> 'a mm_state_scheme \<Rightarrow> 'a mm_state_scheme" where
  "reserve_module K addr sz s =
     (if addr \<noteq> NULL then snd (memory_reserve_range (hhdm_virt_to_phys K addr) (hhdm_virt_to_phys K addr + sz) s) else s)"

definition memory_start :: "'b kernel_build_scheme \<Rightarrow> boot_input \<Rightarrow> common_boot_structure \<Rightarrow> 'a byte_state_scheme \<Rightarrow> 'a byte_state_scheme option" where
  "memory_start K I cbs s = do {
     s \<leftarrow> (case boot_with K of
        GRUB \<Rightarrow> do { es \<leftarrow> multiboot_mmap K (cbs_plain_mbd cbs) (kbytes s); memory_init_base_grub K es s }
      | LIMINE \<Rightarrow> memory_init_base_limine K (bi_root_reg I) (bi_memmap I) s);
     let s = reserve_module K (cbs_initramfs_addr cbs) (cbs_initramfs_size cbs) s;
     let s = reserve_module K (cbs_font_addr cbs) (cbs_font_size cbs) s;
     Some (memory_init K s) }"

text \<open>
  The root is the archive or an empty \<open>ramfs\<close>; the results of the mounts and of \<open>mkdir\<close> are not looked at. Calling a root
  without \<open>mkdir\<close>, or using a root that was not found, is undefined.
\<close>

definition mount_root :: "common_boot_structure \<Rightarrow> 'a vfs_state_scheme \<Rightarrow> 'a vfs_state_scheme option" where
  "mount_root cbs s = do {
     let s = fold (\<lambda>d s. snd (vfs_register_driver d s)) [RAMFS_DRIVER, TARFS_DRIVER, DEVTMPFS_DRIVER] s;
     (r, s) \<leftarrow> (if cbs_initramfs_addr cbs \<noteq> NULL
        then vfs_mount (driver_name TARFS_DRIVER) (tarfs_set_image (cbs_initramfs_addr cbs) (cbs_initramfs_size cbs) s)
        else vfs_mount (driver_name RAMFS_DRIVER) s);
     (r, root_node) \<leftarrow> vfs_lookup [SLASH] s;
     root_node \<leftarrow> root_node;
     v \<leftarrow> vnode_at s root_node;
     mkdir \<leftarrow> Option.bind (vn_ops v) ops_mkdir;
     (r, dev_node, s) \<leftarrow> mkdir root_node (ascii ''dev'') s;
     (r, s) \<leftarrow> vfs_mount (driver_name DEVTMPFS_DRIVER) s;
     Some s }"

datatype boot_answer = Boot_Idle | Boot_Panic "u8 list"

text \<open>The first program; the buffer is then freed the way \<open>autofree\<close> does it.\<close>

definition start_init :: "'b boot_image_scheme \<Rightarrow> 'a proc_state_scheme \<Rightarrow> (boot_answer \<times> 'a proc_state_scheme) option" where
  "start_init K s = do {
     (r, init_file) \<leftarrow> vfs_lookup (ascii ''/init'') s;
     (case init_file of
        None \<Rightarrow> Some (Boot_Panic (ascii ''No init file found''), s)
      | Some init_file \<Rightarrow> do {
          v \<leftarrow> vnode_at s init_file;
          (buffer, s) \<leftarrow> malloc (vn_size v) s;
          rd \<leftarrow> Option.bind (vn_ops v) ops_read;
          (r, n, s) \<leftarrow> rd init_file buffer (vn_size v) 0 s;
          (a, s) \<leftarrow> (if count_of n = vn_size v then do {
               (response, s) \<leftarrow> elf_start K \<lparr>rq_data = buffer, rq_size = vn_size v, rq_argv = NULL, rq_argc = 0, rq_envp = NULL,
                  rq_syscall_conv = 0, rq_arg = 0\<rparr> s;
               Some (if response \<noteq> 0 then Boot_Panic (ascii ''Failed to load init file'') else Boot_Idle, s) }
             else Some (Boot_Idle, s));
          (case a of
             Boot_Panic msg \<Rightarrow> Some (a, s)
           | Boot_Idle \<Rightarrow> do { s \<leftarrow> free_cleanup (init_buffer_var K) s; Some (Boot_Idle, s) }) }) }"

definition start_devices ::
  "'b boot_image_scheme \<Rightarrow> boot_input \<Rightarrow> common_boot_structure \<Rightarrow> 'a boot_state_scheme \<Rightarrow> 'a boot_state_scheme option" where
  "start_devices K I cbs s = do {
     let s = framebuffer_init (cbs_fb_addr cbs) (cbs_fb_width cbs) (cbs_fb_height cbs) (cbs_fb_pitch cbs) (cbs_fb_bpp cbs) s;
     let s = (if cbs_font_addr cbs \<noteq> NULL then framebuffer_switch_font (cbs_font_addr cbs) (cbs_font_size cbs) s else s);
     s \<leftarrow> arch_early_init K I s;
     s \<leftarrow> memory_start K I cbs s;
     s \<leftarrow> framebuffer_enable_backbuffer s;
     acpi_init K s }"

definition kmain ::
  "'c console_env_scheme \<Rightarrow> 'b boot_image_scheme \<Rightarrow> boot_input \<Rightarrow> ('a boot_state_scheme \<Rightarrow> 'a boot_state_scheme option) \<Rightarrow>
   (nat \<Rightarrow> u64) \<Rightarrow> common_boot_structure \<Rightarrow> 'a boot_state_scheme \<Rightarrow> (boot_answer \<times> 'a boot_state_scheme) option" where
  "kmain E K I pci_log clock cbs s = do {
     s \<leftarrow> start_devices K I cbs s;
     s \<leftarrow> pci_log s;
     s \<leftarrow> scheduler_init (bi_cpu I) s;
     let s = process_init s;
     s \<leftarrow> (if bi_smp I then arch_boot_aps K I s else Some s);
     s \<leftarrow> mount_root cbs s;
     (a, s) \<leftarrow> start_init K s;
     (case a of
        Boot_Panic reason \<Rightarrow> do { s \<leftarrow> panic E (bi_cpu I) 0 (clock 0) reason None s; Some (a, s) }
      | Boot_Idle \<Rightarrow> do { s \<leftarrow> printk_suspend_console E (clock 1) s; Some (a, s) }) }"

end
