(* ===== verification/Font.thy ===== *)
theory Font
  imports Screen
begin

text \<open>
  The font in the kernel, \<^verbatim>\<open>src/drivers/framebuffer/font-8x8.h\<close>: eight rows of eight pixels for
  each of the 128 characters of ASCII, the lowest bit on the left.
\<close>

definition font8x8_table :: "u8 list list" where
  "font8x8_table =
    [
     [0, 0, 0, 0, 0, 0, 0, 0], [0, 0, 0, 0, 0, 0, 0, 0], [0, 0, 0, 0, 0, 0, 0, 0], [0, 0, 0, 0, 0, 0, 0, 0],
     [0, 0, 0, 0, 0, 0, 0, 0], [0, 0, 0, 0, 0, 0, 0, 0], [0, 0, 0, 0, 0, 0, 0, 0], [0, 0, 0, 0, 0, 0, 0, 0],
     [0, 0, 0, 0, 0, 0, 0, 0], [0, 0, 0, 0, 0, 0, 0, 0], [0, 0, 0, 0, 0, 0, 0, 0], [0, 0, 0, 0, 0, 0, 0, 0],
     [0, 0, 0, 0, 0, 0, 0, 0], [0, 0, 0, 0, 0, 0, 0, 0], [0, 0, 0, 0, 0, 0, 0, 0], [0, 0, 0, 0, 0, 0, 0, 0],
     [0, 0, 0, 0, 0, 0, 0, 0], [0, 0, 0, 0, 0, 0, 0, 0], [0, 0, 0, 0, 0, 0, 0, 0], [0, 0, 0, 0, 0, 0, 0, 0],
     [0, 0, 0, 0, 0, 0, 0, 0], [0, 0, 0, 0, 0, 0, 0, 0], [0, 0, 0, 0, 0, 0, 0, 0], [0, 0, 0, 0, 0, 0, 0, 0],
     [0, 0, 0, 0, 0, 0, 0, 0], [0, 0, 0, 0, 0, 0, 0, 0], [0, 0, 0, 0, 0, 0, 0, 0], [0, 0, 0, 0, 0, 0, 0, 0],
     [0, 0, 0, 0, 0, 0, 0, 0], [0, 0, 0, 0, 0, 0, 0, 0], [0, 0, 0, 0, 0, 0, 0, 0], [0, 0, 0, 0, 0, 0, 0, 0],
     [0, 0, 0, 0, 0, 0, 0, 0], [0x18, 0x3C, 0x3C, 0x18, 0x18, 0, 0x18, 0], [0x36, 0x36, 0, 0, 0, 0, 0, 0], [0x36, 0x36, 0x7F, 0x36, 0x7F, 0x36, 0x36, 0],
     [0x0C, 0x3E, 0x03, 0x1E, 0x30, 0x1F, 0x0C, 0], [0, 0x63, 0x33, 0x18, 0x0C, 0x66, 0x63, 0], [0x1C, 0x36, 0x1C, 0x6E, 0x3B, 0x33, 0x6E, 0], [0x06, 0x06, 0x03, 0, 0, 0, 0, 0],
     [0x18, 0x0C, 0x06, 0x06, 0x06, 0x0C, 0x18, 0], [0x06, 0x0C, 0x18, 0x18, 0x18, 0x0C, 0x06, 0], [0, 0x66, 0x3C, 0xFF, 0x3C, 0x66, 0, 0], [0, 0x0C, 0x0C, 0x3F, 0x0C, 0x0C, 0, 0],
     [0, 0, 0, 0, 0, 0x0C, 0x0C, 0x06], [0, 0, 0, 0x3F, 0, 0, 0, 0], [0, 0, 0, 0, 0, 0x0C, 0x0C, 0], [0x60, 0x30, 0x18, 0x0C, 0x06, 0x03, 0x01, 0],
     [0x3E, 0x63, 0x73, 0x7B, 0x6F, 0x67, 0x3E, 0], [0x0C, 0x0E, 0x0C, 0x0C, 0x0C, 0x0C, 0x3F, 0], [0x1E, 0x33, 0x30, 0x1C, 0x06, 0x33, 0x3F, 0], [0x1E, 0x33, 0x30, 0x1C, 0x30, 0x33, 0x1E, 0],
     [0x38, 0x3C, 0x36, 0x33, 0x7F, 0x30, 0x78, 0], [0x3F, 0x03, 0x1F, 0x30, 0x30, 0x33, 0x1E, 0], [0x1C, 0x06, 0x03, 0x1F, 0x33, 0x33, 0x1E, 0], [0x3F, 0x33, 0x30, 0x18, 0x0C, 0x0C, 0x0C, 0],
     [0x1E, 0x33, 0x33, 0x1E, 0x33, 0x33, 0x1E, 0], [0x1E, 0x33, 0x33, 0x3E, 0x30, 0x18, 0x0E, 0], [0, 0x0C, 0x0C, 0, 0, 0x0C, 0x0C, 0], [0, 0x0C, 0x0C, 0, 0, 0x0C, 0x0C, 0x06],
     [0x18, 0x0C, 0x06, 0x03, 0x06, 0x0C, 0x18, 0], [0, 0, 0x3F, 0, 0, 0x3F, 0, 0], [0x06, 0x0C, 0x18, 0x30, 0x18, 0x0C, 0x06, 0], [0x1E, 0x33, 0x30, 0x18, 0x0C, 0, 0x0C, 0],
     [0x3E, 0x63, 0x7B, 0x7B, 0x7B, 0x03, 0x1E, 0], [0x0C, 0x1E, 0x33, 0x33, 0x3F, 0x33, 0x33, 0], [0x3F, 0x66, 0x66, 0x3E, 0x66, 0x66, 0x3F, 0], [0x3C, 0x66, 0x03, 0x03, 0x03, 0x66, 0x3C, 0],
     [0x1F, 0x36, 0x66, 0x66, 0x66, 0x36, 0x1F, 0], [0x7F, 0x46, 0x16, 0x1E, 0x16, 0x46, 0x7F, 0], [0x7F, 0x46, 0x16, 0x1E, 0x16, 0x06, 0x0F, 0], [0x3C, 0x66, 0x03, 0x03, 0x73, 0x66, 0x7C, 0],
     [0x33, 0x33, 0x33, 0x3F, 0x33, 0x33, 0x33, 0], [0x1E, 0x0C, 0x0C, 0x0C, 0x0C, 0x0C, 0x1E, 0], [0x78, 0x30, 0x30, 0x30, 0x33, 0x33, 0x1E, 0], [0x67, 0x66, 0x36, 0x1E, 0x36, 0x66, 0x67, 0],
     [0x0F, 0x06, 0x06, 0x06, 0x46, 0x66, 0x7F, 0], [0x63, 0x77, 0x7F, 0x7F, 0x6B, 0x63, 0x63, 0], [0x63, 0x67, 0x6F, 0x7B, 0x73, 0x63, 0x63, 0], [0x1C, 0x36, 0x63, 0x63, 0x63, 0x36, 0x1C, 0],
     [0x3F, 0x66, 0x66, 0x3E, 0x06, 0x06, 0x0F, 0], [0x1E, 0x33, 0x33, 0x33, 0x3B, 0x1E, 0x38, 0], [0x3F, 0x66, 0x66, 0x3E, 0x36, 0x66, 0x67, 0], [0x1E, 0x33, 0x07, 0x0E, 0x38, 0x33, 0x1E, 0],
     [0x3F, 0x2D, 0x0C, 0x0C, 0x0C, 0x0C, 0x1E, 0], [0x33, 0x33, 0x33, 0x33, 0x33, 0x33, 0x3F, 0], [0x33, 0x33, 0x33, 0x33, 0x33, 0x1E, 0x0C, 0], [0x63, 0x63, 0x63, 0x6B, 0x7F, 0x77, 0x63, 0],
     [0x63, 0x63, 0x36, 0x1C, 0x1C, 0x36, 0x63, 0], [0x33, 0x33, 0x33, 0x1E, 0x0C, 0x0C, 0x1E, 0], [0x7F, 0x63, 0x31, 0x18, 0x4C, 0x66, 0x7F, 0], [0x1E, 0x06, 0x06, 0x06, 0x06, 0x06, 0x1E, 0],
     [0x03, 0x06, 0x0C, 0x18, 0x30, 0x60, 0x40, 0], [0x1E, 0x18, 0x18, 0x18, 0x18, 0x18, 0x1E, 0], [0x08, 0x1C, 0x36, 0x63, 0, 0, 0, 0], [0, 0, 0, 0, 0, 0, 0, 0xFF],
     [0x0C, 0x0C, 0x18, 0, 0, 0, 0, 0], [0, 0, 0x1E, 0x30, 0x3E, 0x33, 0x6E, 0], [0x07, 0x06, 0x06, 0x3E, 0x66, 0x66, 0x3B, 0], [0, 0, 0x1E, 0x33, 0x03, 0x33, 0x1E, 0],
     [0x38, 0x30, 0x30, 0x3e, 0x33, 0x33, 0x6E, 0], [0, 0, 0x1E, 0x33, 0x3f, 0x03, 0x1E, 0], [0x1C, 0x36, 0x06, 0x0f, 0x06, 0x06, 0x0F, 0], [0, 0, 0x6E, 0x33, 0x33, 0x3E, 0x30, 0x1F],
     [0x07, 0x06, 0x36, 0x6E, 0x66, 0x66, 0x67, 0], [0x0C, 0, 0x0E, 0x0C, 0x0C, 0x0C, 0x1E, 0], [0x30, 0, 0x30, 0x30, 0x30, 0x33, 0x33, 0x1E], [0x07, 0x06, 0x66, 0x36, 0x1E, 0x36, 0x67, 0],
     [0x0E, 0x0C, 0x0C, 0x0C, 0x0C, 0x0C, 0x1E, 0], [0, 0, 0x33, 0x7F, 0x7F, 0x6B, 0x63, 0], [0, 0, 0x1F, 0x33, 0x33, 0x33, 0x33, 0], [0, 0, 0x1E, 0x33, 0x33, 0x33, 0x1E, 0],
     [0, 0, 0x3B, 0x66, 0x66, 0x3E, 0x06, 0x0F], [0, 0, 0x6E, 0x33, 0x33, 0x3E, 0x30, 0x78], [0, 0, 0x3B, 0x6E, 0x66, 0x06, 0x0F, 0], [0, 0, 0x3E, 0x03, 0x1E, 0x30, 0x1F, 0],
     [0x08, 0x0C, 0x3E, 0x0C, 0x0C, 0x2C, 0x18, 0], [0, 0, 0x33, 0x33, 0x33, 0x33, 0x6E, 0], [0, 0, 0x33, 0x33, 0x33, 0x1E, 0x0C, 0], [0, 0, 0x63, 0x6B, 0x7F, 0x7F, 0x36, 0],
     [0, 0, 0x63, 0x36, 0x1C, 0x36, 0x63, 0], [0, 0, 0x33, 0x33, 0x33, 0x3E, 0x30, 0x1F], [0, 0, 0x3F, 0x19, 0x0C, 0x26, 0x3F, 0], [0x38, 0x0C, 0x0C, 0x07, 0x0C, 0x0C, 0x38, 0],
     [0x18, 0x18, 0x18, 0, 0x18, 0x18, 0x18, 0], [0x07, 0x0C, 0x0C, 0x38, 0x0C, 0x0C, 0x07, 0], [0x6E, 0x3B, 0, 0, 0, 0, 0, 0], [0, 0, 0, 0, 0, 0, 0, 0]
    ]"

definition builtin_font :: "nat \<Rightarrow> nat \<Rightarrow> u8" where
  "builtin_font c row = font8x8_table ! c ! row"

text \<open>The table has a glyph for every character that is drawn with it, so no read of it is out of range.\<close>

lemma font8x8_complete: "length font8x8_table = 128 \<and> (\<forall>g \<in> set font8x8_table. length g = 8)"
  by (simp add: font8x8_table_def)

lemma font8x8_in_range:
  fixes c :: u8
  assumes "current_font s = NULL" "row < unat (framebuffer_font_height s)"
  defines "ch \<equiv> (if 128 \<le> c then 0x3F else c)"
  shows "unat ch < length font8x8_table \<and> row < length (font8x8_table ! unat ch)"
proof -
  have "unat ch < 128" unfolding ch_def by (auto simp: word_le_nat_alt)
  moreover have "row < 8" using assms(1,2) by (simp add: framebuffer_font_height_def)
  ultimately show ?thesis using font8x8_complete by simp
qed

end
