(* ===== verification/Riscv.thy ===== *)
theory Riscv
  imports Prelude
begin

text \<open>
  The RISC-V side of the kernel that its page tables (theory \<open>Machine\<close>) do not cover: the decision a
  trap leads to (\<^verbatim>\<open>src/arch/riscv64/cpu/interrupts.c\<close>), the timer (\<^verbatim>\<open>timer.c\<close>), the data of the CPUs and
  their start through the firmware (\<^verbatim>\<open>init/common.c\<close>, \<^verbatim>\<open>cpu/smp.c\<close>).

  The firmware is a function from the calls made before and the call to its answer, an error and a
  value. The counter of time is an argument. The scheduler of this build is not modelled, so a trap
  ends in the name of what the handler calls.
\<close>

section \<open>State\<close>

record rv_registers =
  rv_x :: "nat \<Rightarrow> u64"
  rv_scause :: u64
  rv_stval :: u64
  rv_sepc :: u64
  rv_sstatus :: u64

record rv_cpu =
  rc_id :: u64
  rc_kernel_stack_top :: u64
  rc_scratch_sp :: u64
  rc_default_stack_top :: u64

type_synonym sbi_call = "u64 \<times> u64 \<times> u64 list"

record smp_passed_data =
  pd_stack_pointer :: u64
  pd_alive_table_entry :: u64
  pd_page_table :: u64
  pd_cpu_struct :: u64

record riscv_state =
  rv_cpus :: "u32 \<Rightarrow> rv_cpu"
  rv_alive :: "u32 \<Rightarrow> u8"
  rv_passed :: smp_passed_data
  rv_tp :: u64
  rv_sscratch :: u64
  rv_stvec :: u64
  rv_sie :: u64
  rv_status :: u64
  timer_hz :: u64
  timer_boot_val :: u64
  timer_initialized :: bool
  sbi_log :: "sbi_call list"

text \<open>Addresses of objects in the image, and the value of \<open>satp\<close>.\<close>

record riscv_image =
  sym_cpus :: "u32 \<Rightarrow> u64"
  sym_alive :: "u32 \<Rightarrow> u64"
  sym_stacks_end :: "u32 \<Rightarrow> u64"
  sym_trap_entry :: u64
  phys_smp_startup :: u64
  phys_passed_data :: u64
  rv_satp :: u64

section \<open>Traps\<close>

definition fault_signal :: "u64 \<Rightarrow> int" where
  "fault_signal cause = (if cause = 2 then 4 else if cause = 3 then 5 else if cause = 0 \<or> cause = 4 \<or> cause = 6 then 7 else 11)"

datatype rv_action = Rv_Syscall | Rv_Fatal int | Rv_Panic | Rv_Timer | Rv_Ignored

text \<open>A fault of the kernel, one with SPP set, is a panic.\<close>

definition rv_trap :: "rv_registers \<Rightarrow> rv_action" where
  "rv_trap r =
     (let is_interrupt = (drop_bit 63 (rv_scause r) AND 1 \<noteq> 0);
          cause = rv_scause r AND NOT (push_bit 63 1)
      in if \<not> is_interrupt then
           (if cause = 8 then Rv_Syscall
            else if rv_sstatus r AND push_bit 8 1 = 0 then Rv_Fatal (fault_signal cause)
            else Rv_Panic)
         else if cause = 5 then Rv_Timer else Rv_Ignored)"

section \<open>The timer\<close>

definition NS_PER_SEC :: u64 where "NS_PER_SEC = 1000000000"
definition TIMER_INTERVAL_NS :: u64 where "TIMER_INTERVAL_NS = 10000000"
definition SBI_EID_SET_TIMER :: u64 where "SBI_EID_SET_TIMER = 0x54494D45"
definition SBI_EID_HSM :: u64 where "SBI_EID_HSM = 0x48534d"

definition sbicall :: "u64 \<Rightarrow> u64 \<Rightarrow> u64 list \<Rightarrow> 'a riscv_state_scheme \<Rightarrow> 'a riscv_state_scheme" where
  "sbicall eid fid args s = s\<lparr>sbi_log := sbi_log s @ [(eid, fid, args)]\<rparr>"

definition ns_to_timer_ticks :: "u64 \<Rightarrow> 'a riscv_state_scheme \<Rightarrow> u64" where
  "ns_to_timer_ticks ns s = ns * timer_hz s div NS_PER_SEC"

text \<open>A \<open>timer_hz\<close> of 0 divides by 0; it is 10 MHz from the start.\<close>

definition rv_get_ns_time :: "u64 \<Rightarrow> 'a riscv_state_scheme \<Rightarrow> u64 option" where
  "rv_get_ns_time rdtime s =
     (if \<not> timer_initialized s then Some 0
      else if timer_hz s = 0 then None
      else Some ((rdtime - timer_boot_val s) * NS_PER_SEC div timer_hz s))"

text \<open>\<open>timer_schedule_next\<close> before it goes to the scheduler.\<close>

definition set_next_timer :: "u64 \<Rightarrow> 'a riscv_state_scheme \<Rightarrow> 'a riscv_state_scheme" where
  "set_next_timer rdtime s = sbicall SBI_EID_SET_TIMER 0 [rdtime + ns_to_timer_ticks TIMER_INTERVAL_NS s] s"

definition rv_timer_init :: "u64 \<Rightarrow> u64 \<Rightarrow> 'a riscv_state_scheme \<Rightarrow> 'a riscv_state_scheme" where
  "rv_timer_init rdtime later s =
     (let s = s\<lparr>timer_boot_val := rdtime, timer_initialized := True\<rparr>;
          s = s\<lparr>rv_sie := rv_sie s OR push_bit 5 1\<rparr>;
          s = set_next_timer later s
      in s\<lparr>rv_status := rv_status s OR push_bit 1 1\<rparr>)"

section \<open>The CPUs\<close>

definition arch_init_interrupts :: "riscv_image \<Rightarrow> 'a riscv_state_scheme \<Rightarrow> 'a riscv_state_scheme" where
  "arch_init_interrupts K s = s\<lparr>rv_sscratch := 0, rv_stvec := sym_trap_entry K\<rparr>"

definition init_cpu :: "riscv_image \<Rightarrow> u32 \<Rightarrow> 'a riscv_state_scheme \<Rightarrow> 'a riscv_state_scheme" where
  "init_cpu K i s =
     s\<lparr>rv_cpus := (rv_cpus s)(i := (rv_cpus s i)\<lparr>rc_id := ucast i, rc_default_stack_top := sym_stacks_end K i,
         rc_kernel_stack_top := sym_stacks_end K i\<rparr>)\<rparr>"

definition rv_early_init :: "riscv_image \<Rightarrow> u64 \<Rightarrow> u64 \<Rightarrow> 'a riscv_state_scheme \<Rightarrow> 'a riscv_state_scheme" where
  "rv_early_init K rdtime later s =
     (let s = init_cpu K 0 s;
          s = s\<lparr>rv_tp := sym_cpus K 0, rv_sscratch := 0\<rparr>
      in rv_timer_init rdtime later (arch_init_interrupts K s))"

definition rv_ap_init :: "riscv_image \<Rightarrow> u64 \<Rightarrow> u64 \<Rightarrow> 'a riscv_state_scheme \<Rightarrow> 'a riscv_state_scheme" where
  "rv_ap_init K rdtime later s = rv_timer_init rdtime later (arch_init_interrupts K s)"

definition rv_set_kernel_stack :: "u32 \<Rightarrow> u64 \<Rightarrow> 'a riscv_state_scheme \<Rightarrow> 'a riscv_state_scheme" where
  "rv_set_kernel_stack cpu_id stack_top s =
     (if 256 \<le> cpu_id then s
      else let stack_top = (if stack_top = 0 then rc_default_stack_top (rv_cpus s cpu_id) else stack_top)
           in s\<lparr>rv_cpus := (rv_cpus s)(cpu_id := (rv_cpus s cpu_id)\<lparr>rc_kernel_stack_top := stack_top\<rparr>)\<rparr>)"

text \<open>
  \<open>up\<close>: the hart reports within the time it gets. A hart that does not start still uses up a number.
\<close>

definition smp_boot_ap ::
  "(sbi_call list \<Rightarrow> sbi_call \<Rightarrow> int \<times> int) \<Rightarrow> (u64 \<Rightarrow> bool) \<Rightarrow> riscv_image \<Rightarrow> u64 \<Rightarrow> u32 \<Rightarrow> 'a riscv_state_scheme \<Rightarrow>
   bool \<times> 'a riscv_state_scheme" where
  "smp_boot_ap sbi up K hart cpu_idx s =
     (let s = init_cpu K cpu_idx s;
          s = s\<lparr>rv_passed := \<lparr>pd_stack_pointer = rc_default_stack_top (rv_cpus s cpu_idx), pd_alive_table_entry = sym_alive K cpu_idx,
                pd_page_table = rv_satp K, pd_cpu_struct = sym_cpus K cpu_idx\<rparr>\<rparr>;
          call = (SBI_EID_HSM, 0, [hart, phys_smp_startup K, phys_passed_data K]);
          (err, val) = sbi (sbi_log s) call;
          s = s\<lparr>sbi_log := sbi_log s @ [call]\<rparr>
      in if err \<noteq> 0 then (False, s)
         else if up hart then (True, s\<lparr>rv_alive := (rv_alive s)(cpu_idx := 1)\<rparr>)
         else (rv_alive s cpu_idx = 1, s))"

fun boot_harts ::
  "(sbi_call list \<Rightarrow> sbi_call \<Rightarrow> int \<times> int) \<Rightarrow> (u64 \<Rightarrow> bool) \<Rightarrow> riscv_image \<Rightarrow> u64 list \<Rightarrow> u32 \<Rightarrow> nat \<Rightarrow> 'a riscv_state_scheme \<Rightarrow>
   nat \<times> u32 \<times> 'a riscv_state_scheme" where
  "boot_harts sbi up K [] next_cpu online s = (online, next_cpu, s)"
| "boot_harts sbi up K (hart # hs) next_cpu online s =
     (if \<not> next_cpu < 256 then (online, next_cpu, s)
      else let call = (SBI_EID_HSM, 2, [hart]);
               (err, val) = sbi (sbi_log s) call;
               s = s\<lparr>sbi_log := sbi_log s @ [call]\<rparr>
           in if err \<noteq> 0 \<or> val \<noteq> 1 then boot_harts sbi up K hs next_cpu online s
              else let (b, s) = smp_boot_ap sbi up K hart next_cpu s
                   in boot_harts sbi up K hs (next_cpu + 1) (if b then online + 1 else online) s)"

definition rv_boot_aps ::
  "(sbi_call list \<Rightarrow> sbi_call \<Rightarrow> int \<times> int) \<Rightarrow> (u64 \<Rightarrow> bool) \<Rightarrow> riscv_image \<Rightarrow> 'a riscv_state_scheme \<Rightarrow> nat \<times> 'a riscv_state_scheme" where
  "rv_boot_aps sbi up K s = (case boot_harts sbi up K (map of_nat [0..<256]) 1 0 s of (online, _, s) \<Rightarrow> (online, s))"

section \<open>What holds of it\<close>

text \<open>The time between two interrupts is ten milliseconds of the counter.\<close>

lemma timer_interval: "timer_hz s = 10000000 \<Longrightarrow> ns_to_timer_ticks TIMER_INTERVAL_NS s = 100000"
  by (simp add: ns_to_timer_ticks_def TIMER_INTERVAL_NS_def NS_PER_SEC_def)

text \<open>The numbers of the CPUs stay below 256, the size of the table, and that of the first CPU is not given again.\<close>

lemma boot_harts_numbers:
  assumes "boot_harts sbi up K hs n k s = (k', n', s')" "0 < n" "n \<le> 256"
  shows "n \<le> n' \<and> n' \<le> 256 \<and> unat n' - unat n \<le> length hs \<and> k' - k \<le> unat n' - unat n \<and> rv_cpus s' 0 = rv_cpus s 0"
  using assms
proof (induction sbi up K hs n k s rule: boot_harts.induct)
  case (1 sbi up K n k s)
  then show ?case by simp
next
  case (2 sbi up K hart hs n k s)
  show ?case
  proof (cases "n < 256")
    case False
    with 2 show ?thesis by simp
  next
    case True
    define s1 where "s1 = s\<lparr>sbi_log := sbi_log s @ [(SBI_EID_HSM, 2, [hart])]\<rparr>"
    obtain err val where e: "sbi (sbi_log s) (SBI_EID_HSM, 2, [hart]) = (err, val)" by force
    obtain b s2 where b: "smp_boot_ap sbi up K hart n s1 = (b, s2)" by force
    have up1: "unat (n + 1) = unat n + 1" using True by (simp add: unat_word_ariths word_less_nat_alt)
    then have n1: "0 < n + 1" "n + 1 \<le> 256" "n \<le> n + 1" using True by (simp_all add: word_less_nat_alt word_le_nat_alt)
    have c2: "rv_cpus s2 0 = rv_cpus s 0" using b 2(4) by (auto simp: smp_boot_ap_def init_cpu_def s1_def Let_def split: if_splits prod.splits)
    show ?thesis
    proof (cases "err \<noteq> 0 \<or> val \<noteq> 1")
      case skip: True
      with 2(3) True e have "boot_harts sbi up K hs n k s1 = (k', n', s')" by (simp add: s1_def)
      from 2(1) [OF _ refl e [symmetric] refl s1_def skip this 2(4,5)] True show ?thesis by (simp add: s1_def)
    next
      case boot: False
      with 2(3) True e b have r: "boot_harts sbi up K hs (n + 1) (if b then k + 1 else k) s2 = (k', n', s')" by (simp add: s1_def)
      from 2(2) [OF _ refl e [symmetric] refl s1_def boot b [symmetric] refl r n1(1,2)] True up1 n1(3) c2
      show ?thesis by (auto simp: word_le_nat_alt split: if_splits)
    qed
  qed
qed

end
