(* ===== verification/Tsc.thy ===== *)
theory Tsc
  imports Cpu
begin

text \<open>
  The clock of an x86-64 build (\<^verbatim>\<open>src/arch/x86_64/clock/invariant-tsc.c\<close>): its three
  static variables, the initialisation once the interval timer is programmed, and what a
  reading of the clock is afterwards. The arithmetic is in \<open>Cpu\<close>. The two CPUID answers and the
  values the counter has when it is read are parameters; the two halts of the calibration wait
  for a tick each and change nothing else.
\<close>

record tsc_state =
  tsc_frequency :: u64
  tsc_boot_value :: u64
  tsc_initialized :: bool

definition tsc_boot_state :: tsc_state where
  "tsc_boot_state = \<lparr>tsc_frequency = 0, tsc_boot_value = 0, tsc_initialized = False\<rparr>"

definition tsc_init :: "u32 \<Rightarrow> u32 \<Rightarrow> u64 \<Rightarrow> u64 \<Rightarrow> u64 \<Rightarrow> 'a tsc_state_scheme \<Rightarrow> 'a tsc_state_scheme option" where
  "tsc_init max_leaf leaf7_edx start end1 boot s =
     (if \<not> has_invariant_tsc max_leaf leaf7_edx then Some s
      else case calibrate_tsc start end1 10 of
             None \<Rightarrow> None
           | Some f \<Rightarrow> Some (s\<lparr>tsc_frequency := f, tsc_boot_value := boot, tsc_initialized := True\<rparr>))"

text \<open>A reading of the clock in a state, when the counter reads \<open>now\<close>.\<close>

definition tsc_clock :: "u32 \<Rightarrow> u32 \<Rightarrow> u64 \<Rightarrow> 'a tsc_state_scheme \<Rightarrow> u64 option" where
  "tsc_clock max_leaf leaf7_edx now s =
     tsc_get_ns_time (has_invariant_tsc max_leaf leaf7_edx) (tsc_initialized s) now (tsc_boot_value s) (tsc_frequency s)"

lemmas tsc_defs = tsc_init_def tsc_clock_def tsc_get_ns_time_def invariant_tsc_to_ns_def calibrate_tsc_def

lemma tsc_init_total: "\<exists>s'. tsc_init m l a b c s = Some s'"
  by (simp add: tsc_defs)

lemma tsc_clock_without_counter: "\<not> has_invariant_tsc m l \<Longrightarrow> tsc_clock m l now s = Some 0"
  by (simp add: tsc_defs)

lemma tsc_clock_before_init: "tsc_clock m l now tsc_boot_state = Some 0"
  by (simp add: tsc_defs tsc_boot_state_def)

lemma unat_times: "unat x * unat k < 2 ^ 64 \<Longrightarrow> unat (x * k) = unat x * unat k" for x k :: u64
  by (simp add: unat_word_ariths)

lemma unat_milli: "unat x * 1000 < 2 ^ 64 \<Longrightarrow> unat (x * 1000) = unat x * 1000" for x :: u64
  using unat_times [of x 1000] by simp

lemma unat_nano: "unat x * 1000000000 < 2 ^ 64 \<Longrightarrow> unat (x * 1000000000) = unat x * 1000000000" for x :: u64
  using unat_times [of x 1000000000] by simp

text \<open>The frequency is a hundred times the ticks of the ten milliseconds that were counted.\<close>

lemma tsc_init_frequency:
  assumes "has_invariant_tsc m l" "unat (b - a) * 1000 < 2 ^ 64" "tsc_init m l a b c s = Some s'"
  shows "unat (tsc_frequency s') = 100 * unat (b - a)"
proof -
  have "unat ((b - a) * 1000 div 10) = 100 * unat (b - a)"
    by (simp only: unat_div unat_milli [OF assms(2)]) simp
  then show ?thesis
    using assms(1,3) by (auto simp: tsc_defs)
qed

lemma tsc_clock_starts_at_0:
  assumes "has_invariant_tsc m l" "unat (b - a) * 1000 < 2 ^ 64" "a \<noteq> b" "tsc_init m l a b c s = Some s'"
  shows "tsc_clock m l c s' = Some 0"
proof -
  have "tsc_frequency s' \<noteq> 0"
    using tsc_init_frequency [OF assms(1,2,4)] assms(3) by (auto simp: unat_eq_zero)
  then show ?thesis
    using assms(1,4) by (auto simp: tsc_defs)
qed

text \<open>As long as the product fits, the clock is the elapsed time rounded down, and it never goes back.\<close>

lemma tsc_clock_exact:
  assumes "has_invariant_tsc m l" "tsc_initialized s" "tsc_frequency s \<noteq> 0"
    and "unat (now - tsc_boot_value s) * 1000000000 < 2 ^ 64"
  shows "map_option unat (tsc_clock m l now s) =
    Some (unat (now - tsc_boot_value s) * 1000000000 div unat (tsc_frequency s))"
proof -
  have "unat ((now - tsc_boot_value s) * 1000000000 div tsc_frequency s) =
      unat (now - tsc_boot_value s) * 1000000000 div unat (tsc_frequency s)"
    by (simp only: unat_div unat_nano [OF assms(4)])
  then show ?thesis
    using assms(1-3) by (simp add: tsc_defs)
qed

lemma tsc_clock_monotone:
  assumes "has_invariant_tsc m l" "tsc_initialized s" "tsc_frequency s \<noteq> 0"
    and "unat (t2 - tsc_boot_value s) * 1000000000 < 2 ^ 64" "t1 - tsc_boot_value s \<le> t2 - tsc_boot_value s"
    and "tsc_clock m l t1 s = Some n1" "tsc_clock m l t2 s = Some n2"
  shows "n1 \<le> n2"
proof -
  have le: "unat (t1 - tsc_boot_value s) * 1000000000 \<le> unat (t2 - tsc_boot_value s) * 1000000000"
    using assms(5) by (simp add: word_le_nat_alt)
  then have "unat (t1 - tsc_boot_value s) * 1000000000 < 2 ^ 64"
    using assms(4) by linarith
  from tsc_clock_exact [OF assms(1-3) this] tsc_clock_exact [OF assms(1-4)] show ?thesis
    using le assms(6,7) by (simp add: word_le_nat_alt div_le_mono)
qed

text \<open>
  The product fits for about \<open>18.4 * 10 ^ 9\<close> ticks. At 3 GHz that is six seconds: the clock
  reads 6 seconds after six and 0.85 seconds after seven.
\<close>

lemma tsc_clock_goes_back:
  fixes s :: tsc_state
  defines "s \<equiv> \<lparr>tsc_frequency = 3000000000, tsc_boot_value = 0, tsc_initialized = True\<rparr>"
  shows "tsc_init 0x80000008 0x100 0 30000000 0 tsc_boot_state = Some s"
    and "tsc_clock 0x80000008 0x100 18000000000 s = Some 6000000000"
    and "tsc_clock 0x80000008 0x100 21000000000 s = Some 851085308"
  by (simp_all add: s_def tsc_defs tsc_boot_state_def has_invariant_tsc_def)

text \<open>Two equal readings in the calibration leave a frequency of 0, and the next reading of the clock traps.\<close>

lemma tsc_clock_traps:
  assumes "has_invariant_tsc m l" "tsc_init m l a a c s = Some s'"
  shows "tsc_clock m l now s' = None"
  using assms by (auto simp: tsc_defs)

end
