(* ===== verification/Spec2Isabelle.thy ===== *)
theory Spec2Isabelle
  imports Translation Klib Sched_Inv Children Initial_Stack Boot Font Riscv Tsc
begin

text \<open>
  A model of the Utopia kernel (C, x86-64 and RISC-V) with theorems about it.

  \<^bold>\<open>The program.\<close> Utopia is a small monolithic kernel. Either boot loader hands a structure to
  \<open>kmain\<close> (\<^verbatim>\<open>src/core/\<close>), which sets up the CPU, reads the memory map and gives the largest usable region to
  a heap (\<^verbatim>\<open>src/mm/pmm.c\<close>); page tables are pages of that heap, walked through a direct map of
  physical memory (\<^verbatim>\<open>src/mm/vmm.c\<close>, with the entry formats of \<^verbatim>\<open>src/arch/*/mm/paging.c\<close>). Drivers of
  file systems (\<^verbatim>\<open>src/fs/\<close>) hang their trees of vnodes under mounts. Threads are scheduled round robin
  from one ready queue shared by all CPUs and sleep on wait queues (\<^verbatim>\<open>src/exec/scheduler.c\<close>); a process
  owns an address space, descriptors and one thread, and stays as a zombie until its parent waits
  for it (\<^verbatim>\<open>src/exec/process.c\<close>). Programs are ELF images (\<^verbatim>\<open>src/exec/loaders/elf.c\<close>) and call the kernel
  with the convention of Linux or with its own (\<^verbatim>\<open>src/exec/syscalls/\<close>). Interrupts drive the scheduler and
  the keyboard (\<^verbatim>\<open>src/arch/x86_64/\<close>, \<^verbatim>\<open>src/drivers/keyboard/\<close>); the console draws text into the framebuffer
  (\<^verbatim>\<open>src/lib/screen.c\<close>, \<^verbatim>\<open>src/drivers/framebuffer/main.c\<close>).

  \<^bold>\<open>The state\<close> is one record that grows by extension along the chain of theories, so every
  operation is polymorphic in what later components add: the heap (\<open>heap_state\<close>), words of
  memory (\<open>mem_state\<close>), page tables (\<open>vm_state\<close>), the memory map (\<open>mm_state\<close>), bytes of memory
  (\<open>byte_state\<close>), the file systems (\<open>ramfs_state\<close>, \<open>tarfs_state\<close>, \<open>vfs_state\<close>), the tables and
  registers of the CPUs (\<open>cpu_state\<close>), threads and processes (\<open>sched_state\<close>, \<open>proc_state\<close>), the
  console (\<open>screen_state\<close>), the keyboard (\<open>keyboard_state\<close>), the interrupt hardware (\<open>irq_state\<close>), the
  tables of the firmware (\<open>acpi_state\<close>) and the start (\<open>boot_state\<close>). Objects the code keeps in memory are
  typed records at the addresses that \<open>malloc\<close> handed out (block headers, nodes, threads, frames,
  processes); page tables are words (\<open>kmem\<close>) and the contents of files, buffers and the screen are
  bytes (\<open>kbytes\<close>). User memory is seen through \<open>kbytes\<close> in the address space that is active when a call
  is made, and is taken to be mapped where a call accesses it.

  \<^bold>\<open>Results.\<close> A function that can have undefined behaviour or whose loop need not end answers an
  option, \<open>None\<close> being no defined result; loops over pointers are \<open>partial_function (option)\<close>, so
  that a theorem that says \<open>Some\<close> says that the loop ends. No fuel is used. Errors are the code's
  negative status values. Machine integers are words of their width. A system call that puts its caller
  to sleep answers \<open>Sleep\<close> with what it waits for and how \<open>syscall_resume\<close> goes on.

  \<^bold>\<open>The theories.\<close>
    \<^item> \<open>Prelude\<close>: words, rounding, loops over indices. \<open>Linked\<close>: lists linked through a field.
    \<^item> \<open>Pmm\<close>: \<open>malloc\<close>, \<open>free\<close>, \<open>page_alloc\<close>; the heap as a tiling of its region by blocks, refinement
      of the list of blocks, disjointness of what is handed out, the locale \<open>allocator\<close>.
    \<^item> \<open>Machine\<close>, \<open>Vmm\<close>: addresses, page table entries of both architectures (the locale \<open>pte_arch\<close>) and the
      table walks. \<open>Translation\<close>: the partial function a page table denotes and what mapping, protecting,
      unmapping and permissions do to it; page lists.
    \<^item> \<open>Memmap\<close>: the memory map, the choice of the heap and the reservation of ranges.
    \<^item> \<open>Klib\<close>: \<open>memcpy\<close>, \<open>memset\<close>, \<open>memmove\<close>, strings, and printing of numbers.
    \<^item> \<open>Vnode\<close>, \<open>Ramfs\<close>, \<open>Tarfs\<close>, \<open>Vfs\<close>: vnodes and the locales \<open>file_reader\<close>, \<open>file_store\<close> and \<open>directory\<close>,
      the file systems that interpret them, and paths, mounts and opening.
    \<^item> \<open>Cpu\<close>: descriptor tables, gates, the interrupt controller, control registers and the counter.
      \<open>Tsc\<close>: the clock, from its initialisation; it is exact and monotone until the product of ticks and
      nanoseconds exceeds 64 bits, and then goes back.
    \<^item> \<open>Sched\<close>, \<open>Proc\<close>: threads and processes, one definition per operation.
      \<open>Sched_Inv\<close>: the invariant of the scheduler over every interleaving, wakeups and round robin.
    \<^item> \<open>Screen\<close>, \<open>Font\<close>: pixels, characters, scrolling, colour sequences, formats, the log line; the font.
    \<^item> \<open>Keyboard\<close>: scan codes, the ring buffer as an interpretation of the locale \<open>bounded_queue\<close>, reading a line.
    \<^item> \<open>Elf\<close>: the loader, from the headers to the first stack. \<open>Initial_Stack\<close>: where the program finds its
      arguments on it.
    \<^item> \<open>Linux_Io\<close>, \<open>Syscalls\<close>: the handlers of both conventions, their tables and the entry.
      \<open>Descriptors\<close>: errors of bad descriptors, opening and closing, and what is written is read back.
      \<open>Children\<close>: a child that has ended is collected once.
    \<^item> \<open>Interrupts\<close>, \<open>Acpi\<close>, \<open>Boot\<close>: exceptions, interrupts and timers of x86-64, the tables of the firmware,
      the start of the kernel and of the other CPUs, and the panic screen.
    \<^item> \<open>Riscv\<close>: what a trap leads to, the timer and the start of the CPUs on RISC-V.

  \<^bold>\<open>Concurrency.\<close> The kernel runs on several CPUs. A part of the code that holds a spinlock with the
  interrupts of its CPU off is one step of the model, and interleavings are sequences of steps:
  \<open>sched_step\<close> has an interrupt of any CPU, the two halves of a wait, a wake, the end, the birth and
  the boot of a thread, and whatever the rest of the kernel does to frames, stacks and processes.

  \<^bold>\<open>Parameters.\<close> What is not C of this repository, or not code at all, is an argument: what devices, CPUID, the
  firmware and the boot loader answer, the addresses of symbols, the serial port and the list of PCI
  devices (written in Rust), and which CPU comes up in time.

  \<^bold>\<open>Not modelled.\<close> The branches of the scheduler, the processes, the loader, the panic screen and the system
  calls that are compiled for RISC-V only; assembly; macros and type names. Messages to the log do not
  appear in the components that print them, the panic screen excepted. The protocol header of the
  boot loader Limine is third-party.
\<close>

end
